(* ===== verification/Prelude.thy ===== *)
theory Prelude
  imports Main "HOL-Library.Word"
begin

text \<open>
  What every component of the development shares: machine words and byte buffers,
  the ways a C function can stop without returning (\<open>stop\<close>), the
  sequencing of functions that may stop (\<open>bind_r\<close>), network byte order
  (\<open>htons\<close>, \<open>htonl\<close> and their inverses as writes and reads of byte lists), and generic
  lemmas on lists. Simplification rules for stopping functions are collected in
  \<open>res_simps\<close>, those for byte order in \<open>be_simps\<close>.
\<close>

unbundle bit_operations_syntax

named_theorems res_simps
named_theorems be_simps

type_synonym byte = "8 word"
type_synonym u16 = "16 word"
type_synonym u32 = "32 word"

section \<open>Functions that may stop\<close>

text \<open>
  \<open>Exit n\<close> is a call of \<open>exit(n)\<close>. The other values are C behaviours no caller observes
  as a return: a read or write outside an object, a null dereference, the use of a freed
  object, a division by zero, a shift by the width or more, a signed overflow, a kernel panic, and a
  loop that does not end (fuel ran out).
\<close>

datatype stop = Exit int | OutOfBounds | NullDeref | UseAfterFree | DivByZero | BadShift | SignedOverflow | Panic | Diverge

type_synonym 'a result = "stop + 'a"

fun bind_r :: "'a result \<Rightarrow> ('a \<Rightarrow> 'b result) \<Rightarrow> 'b result" where
  "bind_r (Inl e) f = Inl e"
| "bind_r (Inr x) f = f x"

lemma bind_r_Inr_iff [res_simps]:
  "bind_r m f = Inr y \<longleftrightarrow> (\<exists>x. m = Inr x \<and> f x = Inr y)"
  by (cases m) auto

lemma bind_r_Inl_iff [res_simps]:
  "bind_r m f = Inl e \<longleftrightarrow> m = Inl e \<or> (\<exists>x. m = Inr x \<and> f x = Inl e)"
  by (cases m) auto

lemma bind_r_cong [fundef_cong]:
  "m = m' \<Longrightarrow> (\<And>x. m' = Inr x \<Longrightarrow> f x = f' x) \<Longrightarrow> bind_r m f = bind_r m' f'"
  by (cases m') auto

lemma bind_r_assoc: "bind_r (bind_r m f) g = bind_r m (\<lambda>x. bind_r (f x) g)"
  by (cases m) auto

lemma bind_r_ok [simp]: "bind_r m Inr = m"
  by (cases m) auto

text \<open>The result is a value: the function returned.\<close>

definition returns :: "'a result \<Rightarrow> bool" where
  "returns r \<longleftrightarrow> (case r of Inl _ \<Rightarrow> False | Inr _ \<Rightarrow> True)"

lemma returns_simps [simp]: "returns (Inr x)" "\<not> returns (Inl e)"
  by (simp_all add: returns_def)

lemma returns_iff: "returns r \<longleftrightarrow> (\<exists>x. r = Inr x)"
  by (cases r) auto

lemma if_Inl_Inr: "(if P then Inl e else r) = Inr x \<longleftrightarrow> \<not> P \<and> r = Inr x"
  by simp

text \<open>
  \<open>safe_r P E r\<close>: a value satisfies \<open>P\<close>, a stop is one of \<open>E\<close>. With \<open>E = UNIV\<close> it is partial
  correctness, with \<open>E = {}\<close> total correctness.
\<close>

definition safe_r :: "('a \<Rightarrow> bool) \<Rightarrow> stop set \<Rightarrow> 'a result \<Rightarrow> bool" where
  "safe_r P E r \<longleftrightarrow> (case r of Inl e \<Rightarrow> e \<in> E | Inr x \<Rightarrow> P x)"

lemma safe_r_simps [simp]: "safe_r P E (Inr x) = P x" "safe_r P E (Inl e) \<longleftrightarrow> e \<in> E"
  by (simp_all add: safe_r_def)

lemma safe_r_bind:
  "safe_r Q E m \<Longrightarrow> (\<And>x. m = Inr x \<Longrightarrow> Q x \<Longrightarrow> safe_r P E (f x)) \<Longrightarrow> safe_r P E (bind_r m f)"
  by (cases m) auto

lemma safe_r_mono: "safe_r P E r \<Longrightarrow> (\<And>x. P x \<Longrightarrow> Q x) \<Longrightarrow> E \<subseteq> F \<Longrightarrow> safe_r Q F r"
  by (cases r) auto

lemma safe_r_UNIV: "safe_r P UNIV r \<longleftrightarrow> (\<forall>x. r = Inr x \<longrightarrow> P x)"
  by (cases r) auto

lemma safe_r_bind_any: "(\<And>x. m = Inr x \<Longrightarrow> safe_r P UNIV (f x)) \<Longrightarrow> safe_r P UNIV (bind_r m f)"
  by (cases m) auto

lemma safe_r_ex: "\<exists>x. r = Inr x \<and> P x \<Longrightarrow> safe_r P E r"
  by auto

text \<open>A loop over the elements of a list that threads a state and may stop.\<close>

fun fold_r :: "('a \<Rightarrow> 's \<Rightarrow> 's result) \<Rightarrow> 'a list \<Rightarrow> 's \<Rightarrow> 's result" where
  "fold_r f [] s = Inr s"
| "fold_r f (x # xs) s = bind_r (f x s) (fold_r f xs)"

lemma fold_r_safe:
  assumes "\<And>x s. x \<in> set xs \<Longrightarrow> P s \<Longrightarrow> safe_r P E (f x s)" "P s"
  shows "safe_r P E (fold_r f xs s)"
  using assms
proof (induction xs arbitrary: s)
  case (Cons x xs)
  have "safe_r P E (fold_r f xs s')" if "P s'" for s' using Cons.IH [OF _ that] Cons.prems(1) by simp
  with Cons.prems show ?case by (auto intro: safe_r_bind)
qed simp

section \<open>Network byte order\<close>

text \<open>A 16-bit or 32-bit field as the bytes the packet carries, most significant first.\<close>

definition be16 :: "u16 \<Rightarrow> byte list" where
  "be16 w = [ucast (drop_bit 8 w), ucast w]"

definition be32 :: "u32 \<Rightarrow> byte list" where
  "be32 w = [ucast (drop_bit 24 w), ucast (drop_bit 16 w), ucast (drop_bit 8 w), ucast w]"

definition rd16 :: "byte list \<Rightarrow> u16" where
  "rd16 bs = push_bit 8 (ucast (bs ! 0)) OR ucast (bs ! 1)"

definition rd32 :: "byte list \<Rightarrow> u32" where
  "rd32 bs = push_bit 24 (ucast (bs ! 0)) OR push_bit 16 (ucast (bs ! 1)) OR
             push_bit 8 (ucast (bs ! 2)) OR ucast (bs ! 3)"

lemma length_be [simp]: "length (be16 v) = 2" "length (be32 w) = 4"
  by (simp_all add: be16_def be32_def)

lemma rd16_be16 [be_simps]: "rd16 (be16 w @ bs) = w"
  by (rule bit_word_eqI) (auto simp: rd16_def be16_def bit_simps)

lemma rd32_be32 [be_simps]: "rd32 (be32 w @ bs) = w"
proof (rule bit_word_eqI)
  fix n assume "n < LENGTH(32)"
  then have "n < 32" by simp
  then consider "n < 8" | "8 \<le> n" "n < 16" | "16 \<le> n" "n < 24" | "24 \<le> n" "n < 32"
    by linarith
  then show "bit (rd32 (be32 w @ bs)) n = bit w n"
    by cases (auto simp: rd32_def be32_def bit_simps)
qed

text \<open>
  The same four bytes as a little-endian load gives them: what the code reads when it
  forgets \<open>ntohl\<close> on the machines it is built for.
\<close>

definition le32 :: "byte list \<Rightarrow> u32" where
  "le32 bs = rd32 (rev (take 4 bs))"

lemma unat_of_nat_u32: "k < 2 ^ 32 \<Longrightarrow> unat (of_nat k :: u32) = k"
  by (simp add: unat_of_nat)

lemma unat_of_nat_byte: "k < 256 \<Longrightarrow> unat (of_nat k :: byte) = k"
  by (simp add: unat_of_nat)

section \<open>Loads from a buffer\<close>

text \<open>
  Loads at an offset, in the byte order of the machine (little-endian); a load that is not
  inside the buffer stops. A load that succeeds is not changed by what follows the buffer.
\<close>

definition bytes_at :: "byte list \<Rightarrow> nat \<Rightarrow> nat \<Rightarrow> byte list result" where
  "bytes_at b i n = (if i + n \<le> length b then Inr (take n (drop i b)) else Inl OutOfBounds)"

definition ld8 :: "byte list \<Rightarrow> nat \<Rightarrow> byte result" where
  "ld8 b i = bind_r (bytes_at b i 1) (\<lambda>x. Inr (x ! 0))"

definition ld16 :: "byte list \<Rightarrow> nat \<Rightarrow> u16 result" where
  "ld16 b i = bind_r (bytes_at b i 2) (\<lambda>x. Inr (rd16 (rev x)))"

definition ld32 :: "byte list \<Rightarrow> nat \<Rightarrow> u32 result" where
  "ld32 b i = bind_r (bytes_at b i 4) (\<lambda>x. Inr (le32 x))"

text \<open>\<open>le_r a b\<close>: when \<open>a\<close> returns, \<open>b\<close> returns the same.\<close>

definition le_r :: "'a result \<Rightarrow> 'a result \<Rightarrow> bool" where
  "le_r a b \<longleftrightarrow> (\<forall>x. a = Inr x \<longrightarrow> b = Inr x)"

named_theorems le_r_intros

lemma le_r_refl [le_r_intros, simp]: "le_r a a"
  by (simp add: le_r_def)

lemma le_r_bind [le_r_intros]:
  "le_r a b \<Longrightarrow> (\<And>x. a = Inr x \<Longrightarrow> le_r (f x) (g x)) \<Longrightarrow> le_r (bind_r a f) (bind_r b g)"
  by (auto simp: le_r_def res_simps)

lemma le_r_if [le_r_intros]:
  "(P \<Longrightarrow> le_r a a') \<Longrightarrow> (\<not> P \<Longrightarrow> le_r b b') \<Longrightarrow> le_r (if P then a else b) (if P then a' else b')"
  by simp

lemma le_r_D: "le_r a b \<Longrightarrow> a = Inr x \<Longrightarrow> b = Inr x"
  by (simp add: le_r_def)

lemma bytes_at_append [le_r_intros]: "le_r (bytes_at b i n) (bytes_at (b @ c) i n)"
  by (auto simp: le_r_def bytes_at_def split: if_splits)

lemma ld_append [le_r_intros]:
  "le_r (ld8 b i) (ld8 (b @ c) i)" "le_r (ld16 b i) (ld16 (b @ c) i)" "le_r (ld32 b i) (ld32 (b @ c) i)"
  unfolding ld8_def ld16_def ld32_def by (intro le_r_intros)+

lemma ld8_Inr: "ld8 b i = Inr v \<longleftrightarrow> i < length b \<and> v = b ! i"
  by (auto simp: ld8_def bytes_at_def)

section \<open>Lists\<close>

lemma take_drop_append3 [simp]:
  "length a = n \<Longrightarrow> take n (a @ b) = a" "length a = n \<Longrightarrow> drop n (a @ b) = b"
  by simp_all

lemma length_concat_const: "\<forall>b \<in> set bs. length b = n \<Longrightarrow> length (concat bs) = n * length bs"
  by (induction bs) simp_all

lemma filter_remove_mid: "distinct (a @ p # b) \<Longrightarrow> filter (\<lambda>q. q \<noteq> p) (a @ p # b) = a @ b"
  by (induction a) (auto simp: filter_id_conv)

lemma map_upd_id: "(\<And>x. x \<in> set xs \<Longrightarrow> f x = x) \<Longrightarrow> map f xs = xs"
  by (induction xs) auto

end
