(* ===== verification/Addresses.thy ===== *)
theory Addresses
  imports Prelude
begin

text \<open>
  IPv6 addresses as the daemon handles them: a \<open>struct in6_addr\<close> is its sixteen bytes, the
  address tests are the macros of \<open>src/bsd/netinet6/in6.h\<close>, and the comparison of two
  prefixes is the byte-and-mask loop that \<open>find_prefix\<close> and \<open>prefix_match\<close>
  (\<open>src/rtadvd.tproj/rtadvd.c\<close>) share. The lemmas show that this comparison is equality of
  the leading bits, and that \<open>prefixlen\<close> (\<open>src/rtadvd.tproj/if.c\<close>) inverts the netmask.
\<close>

type_synonym in6_addr = "byte list"

definition in6_ok :: "in6_addr \<Rightarrow> bool" where
  "in6_ok a \<longleftrightarrow> length a = 16"

definition in6addr_any :: in6_addr where
  "in6addr_any = replicate 16 0"

definition IN6_IS_ADDR_UNSPECIFIED :: "in6_addr \<Rightarrow> bool" where
  "IN6_IS_ADDR_UNSPECIFIED a \<longleftrightarrow> (\<forall>i < 16. a ! i = 0)"

definition IN6_IS_ADDR_LINKLOCAL :: "in6_addr \<Rightarrow> bool" where
  "IN6_IS_ADDR_LINKLOCAL a \<longleftrightarrow> a ! 0 = 0xfe \<and> a ! 1 AND 0xc0 = 0x80"

definition IN6_IS_ADDR_MULTICAST :: "in6_addr \<Rightarrow> bool" where
  "IN6_IS_ADDR_MULTICAST a \<longleftrightarrow> a ! 0 = 0xff"

definition prefix_cmp :: "in6_addr \<Rightarrow> in6_addr \<Rightarrow> nat \<Rightarrow> bool" where
  "prefix_cmp p q plen =
     (let bytelen = plen div 8;
          bitlen = plen mod 8;
          bitmask = (push_bit (8 - bitlen) 0xff :: byte)
      in take bytelen p = take bytelen q \<and>
         (bitlen = 0 \<or> p ! bytelen AND bitmask = q ! bytelen AND bitmask))"

definition prefix_match :: "in6_addr \<Rightarrow> nat \<Rightarrow> in6_addr \<Rightarrow> nat \<Rightarrow> bool" where
  "prefix_match p0 plen0 p1 plen1 = (if plen0 < plen1 then False else prefix_cmp p0 p1 plen1)"

fun prefixlen :: "byte list \<Rightarrow> int" where
  "prefixlen [] = 0"
| "prefixlen (b # bs) =
     (let rest = prefixlen bs;
          add = (\<lambda>n. if rest = -1 then -1 else n + rest)
      in if b = 0xff then add 8
         else if b = 0xfe then add 7
         else if b = 0xfc then add 6
         else if b = 0xf8 then add 5
         else if b = 0xf0 then add 4
         else if b = 0xe0 then add 3
         else if b = 0xc0 then add 2
         else if b = 0x80 then add 1
         else if b = 0x00 then add 0
         else -1)"

text \<open>The bits of an address, most significant first, and the netmask of a prefix length.\<close>

definition byte_bits :: "byte \<Rightarrow> bool list" where
  "byte_bits b = map (\<lambda>i. bit b (7 - i)) [0..<8]"

definition addr_bits :: "in6_addr \<Rightarrow> bool list" where
  "addr_bits a = concat (map byte_bits a)"

fun mask_bytes :: "nat \<Rightarrow> nat \<Rightarrow> byte list" where
  "mask_bytes 0 n = []"
| "mask_bytes (Suc k) n = (if 8 \<le> n then 0xff else push_bit (8 - n) 0xff) # mask_bytes k (n - 8)"

section \<open>Prefix comparison is equality of leading bits\<close>

lemma length_byte_bits [simp]: "length (byte_bits b) = 8"
  by (simp add: byte_bits_def)

lemma byte_bits_inject [simp]: "byte_bits a = byte_bits b \<longleftrightarrow> a = b"
proof
  assume eq: "byte_bits a = byte_bits b"
  show "a = b"
  proof (rule bit_word_eqI)
    fix n assume "n < LENGTH(8)"
    then have n: "7 - n < 8" "7 - (7 - n) = n" by simp_all
    have "byte_bits a ! (7 - n) = byte_bits b ! (7 - n)" using eq by simp
    then show "bit a n = bit b n"
      using n by (simp add: byte_bits_def)
  qed
qed simp

lemma take_byte_bits:
  assumes "k < 8" "k \<noteq> 0"
  shows "take k (byte_bits a) = take k (byte_bits b) \<longleftrightarrow>
    a AND push_bit (8 - k) 0xff = b AND push_bit (8 - k) 0xff"
proof -
  have m: "(0xff :: byte) = mask 8" by (simp add: mask_eq_exp_minus_1)
  have "take k (byte_bits a) = take k (byte_bits b) \<longleftrightarrow> (\<forall>i < k. bit a (7 - i) = bit b (7 - i))"
    using assms by (auto simp: byte_bits_def take_map list_eq_iff_nth_eq)
  also have "\<dots> \<longleftrightarrow> (\<forall>n. 8 - k \<le> n \<and> n < 8 \<longrightarrow> bit a n = bit b n)"
  proof safe
    fix n assume h: "\<forall>i < k. bit a (7 - i) = bit b (7 - i)" "8 - k \<le> n" "n < 8"
    then have "7 - n < k" "7 - (7 - n) = n" using assms by linarith+
    then show "bit a n \<Longrightarrow> bit b n" "bit b n \<Longrightarrow> bit a n" using h(1) by metis+
  next
    fix i assume "\<forall>n. 8 - k \<le> n \<and> n < 8 \<longrightarrow> bit a n = bit b n" "i < k"
    moreover have "8 - k \<le> 7 - i \<and> 7 - i < 8" using assms \<open>i < k\<close> by linarith
    ultimately show "bit a (7 - i) \<Longrightarrow> bit b (7 - i)" "bit b (7 - i) \<Longrightarrow> bit a (7 - i)" by blast+
  qed
  also have "\<dots> \<longleftrightarrow> a AND push_bit (8 - k) 0xff = b AND push_bit (8 - k) 0xff"
    unfolding m by (auto simp: bit_eq_iff bit_simps)
  finally show ?thesis .
qed

lemma prefix_cmp_Cons_long:
  "8 \<le> plen \<Longrightarrow> prefix_cmp (a # p) (b # q) plen \<longleftrightarrow> a = b \<and> prefix_cmp p q (plen - 8)"
proof -
  assume "8 \<le> plen"
  then obtain k where k: "plen = k + 8" using le_Suc_ex by (metis add.commute)
  then have "plen div 8 = Suc (k div 8)" "plen mod 8 = k mod 8" by simp_all
  then show ?thesis by (simp add: prefix_cmp_def k Let_def)
qed

lemma prefix_cmp_bits_gen:
  "length p = length q \<Longrightarrow> plen \<le> 8 * length p \<Longrightarrow>
   prefix_cmp p q plen \<longleftrightarrow> take plen (addr_bits p) = take plen (addr_bits q)"
proof (induction p q arbitrary: plen rule: list_induct2)
  case Nil
  then show ?case by (simp add: prefix_cmp_def)
next
  case (Cons a p b q)
  show ?case
  proof (cases "8 \<le> plen")
    case True
    with Cons show ?thesis
      by (simp add: prefix_cmp_Cons_long addr_bits_def)
  next
    case False
    then have "plen div 8 = 0" "plen mod 8 = plen" by simp_all
    with False show ?thesis
      by (cases "plen = 0") (simp_all add: prefix_cmp_def addr_bits_def take_byte_bits Let_def)
  qed
qed

lemma prefix_cmp_bits:
  "in6_ok p \<Longrightarrow> in6_ok q \<Longrightarrow> plen \<le> 128 \<Longrightarrow>
   prefix_cmp p q plen \<longleftrightarrow> take plen (addr_bits p) = take plen (addr_bits q)"
  by (rule prefix_cmp_bits_gen) (simp_all add: in6_ok_def)

lemma prefix_cmp_refl [simp]: "prefix_cmp p p plen"
  by (simp add: prefix_cmp_def Let_def)

lemma prefix_cmp_sym: "prefix_cmp p q plen = prefix_cmp q p plen"
  by (auto simp: prefix_cmp_def Let_def)

lemma prefix_cmp_trans: "prefix_cmp p q plen \<Longrightarrow> prefix_cmp q r plen \<Longrightarrow> prefix_cmp p r plen"
  by (auto simp: prefix_cmp_def Let_def)

section \<open>Prefix length of a netmask\<close>

lemma prefixlen_ge: "-1 \<le> prefixlen bs"
  by (induction bs) (auto simp: Let_def)

lemma prefixlen_le: "prefixlen bs \<le> 8 * int (length bs)"
  by (induction bs) (auto simp: Let_def)

lemma prefixlen_zeros [simp]: "prefixlen (replicate n 0) = 0"
  by (induction n) (simp_all add: Let_def)

lemma mask_bytes_0: "mask_bytes k 0 = replicate k 0"
  by (induction k) (simp_all add: push_bit_eq_mult)

lemma length_mask_bytes [simp]: "length (mask_bytes k n) = k"
  by (induction k arbitrary: n) simp_all

lemma prefixlen_mask_bytes: "n \<le> 8 * k \<Longrightarrow> prefixlen (mask_bytes k n) = int n"
proof (induction k arbitrary: n)
  case 0
  then show ?case by simp
next
  case (Suc k)
  show ?case
  proof (cases "8 \<le> n")
    case True
    with Suc show ?thesis by (simp add: Let_def)
  next
    case False
    then consider "n = 0" | "n = 1" | "n = 2" | "n = 3" | "n = 4" | "n = 5" | "n = 6" | "n = 7"
      by linarith
    then show ?thesis
      by cases (simp_all add: mask_bytes_0 Let_def push_bit_eq_mult)
  qed
qed

end
