(* ===== verification/Timers.thy ===== *)
theory Timers
  imports Prelude
begin

text \<open>
  The timer component of rtadvd (\<open>src/rtadvd.tproj/timer.c\<close>, \<open>timer.h\<close>): time values with
  the comparison macros and the two arithmetic functions, and the timer queue. A timer is
  a node of a doubly linked list headed by \<open>timer_head\<close>; here its address is \<open>tid\<close> and
  the links are the order of \<open>timer_list\<close>. The function pointers \<open>expire\<close> and \<open>update\<close>,
  each with its data pointer, are values of the type parameters \<open>'e\<close> and \<open>'u\<close>, and the
  functions they stand for are arguments of \<open>rtadvd_check_timer\<close>. The record \<open>timers\<close> is
  extensible: the daemon's state extends it, so a callback may change all of it.
  \<open>gettimeofday\<close> is the clock outside the program: its successive results are the
  sequence \<open>gtod\<close>.

  The locale \<open>timer_callbacks\<close> is the contract between the queue and the functions it
  calls; inside it the pointer-chasing loop is shown to return, to visit exactly the
  timers that were linked when it started, and to compute a waiting time that sleeps past
  no deadline.
\<close>

section \<open>Time values\<close>

datatype timeval = Timeval (tv_sec: int) (tv_usec: int)

abbreviation (input) MILLION :: int where
  "MILLION \<equiv> 1000000"

definition TIMEVAL_LT :: "timeval \<Rightarrow> timeval \<Rightarrow> bool" where
  "TIMEVAL_LT a b \<longleftrightarrow>
     tv_sec a < tv_sec b \<or> tv_sec a = tv_sec b \<and> tv_usec a < tv_usec b"

definition TIMEVAL_LEQ :: "timeval \<Rightarrow> timeval \<Rightarrow> bool" where
  "TIMEVAL_LEQ a b \<longleftrightarrow>
     tv_sec a < tv_sec b \<or> tv_sec a = tv_sec b \<and> tv_usec a \<le> tv_usec b"

definition TIMEVAL_EQUAL :: "timeval \<Rightarrow> timeval \<Rightarrow> bool" where
  "TIMEVAL_EQUAL a b \<longleftrightarrow> tv_sec a = tv_sec b \<and> tv_usec a = tv_usec b"

definition TIMEVAL_ADD :: "timeval \<Rightarrow> timeval \<Rightarrow> timeval" where
  "TIMEVAL_ADD a b =
     (let l = tv_usec a + tv_usec b
      in if l < MILLION then Timeval (tv_sec a + tv_sec b) l
         else Timeval (tv_sec a + tv_sec b + 1) (l - MILLION))"

definition TIMEVAL_SUB :: "timeval \<Rightarrow> timeval \<Rightarrow> timeval" where
  "TIMEVAL_SUB a b =
     (let l = tv_usec a - tv_usec b
      in if 0 \<le> l then Timeval (tv_sec a - tv_sec b) l
         else Timeval (tv_sec a - tv_sec b - 1) (MILLION + l))"

definition tm_max :: timeval where
  "tm_max = Timeval 0x7fffffff 0x7fffffff"

text \<open>The macros are the strict and the reflexive part of a linear order.\<close>

instantiation timeval :: linorder
begin

definition less_eq_timeval_def: "a \<le> b \<longleftrightarrow> TIMEVAL_LEQ a b"

definition less_timeval_def: "a < b \<longleftrightarrow> TIMEVAL_LT a b"

instance
  by standard
    (auto simp: less_eq_timeval_def less_timeval_def TIMEVAL_LEQ_def TIMEVAL_LT_def
      intro: timeval.expand)

end

text \<open>What a time value means: a number of microseconds; normal form: less than a second.\<close>

definition usecs :: "timeval \<Rightarrow> int" where
  "usecs t = tv_sec t * MILLION + tv_usec t"

definition tv_ok :: "timeval \<Rightarrow> bool" where
  "tv_ok t \<longleftrightarrow> 0 \<le> tv_usec t \<and> tv_usec t < MILLION"

definition tv_time :: "timeval \<Rightarrow> bool" where
  "tv_time t \<longleftrightarrow> tv_ok t \<and> 0 \<le> tv_sec t"

section \<open>The timer queue\<close>

record ('e, 'u) rtadvd_timer =
  tid :: nat
  tm :: timeval
  expire :: 'e
  update :: "'u option"

record ('e, 'u) timers =
  gtod :: "nat \<Rightarrow> timeval"
  gtod_calls :: nat
  timer_head_tm :: timeval
  timer_list :: "('e, 'u) rtadvd_timer list"
  timer_next_id :: nat

definition gettimeofday :: "('e, 'u, 'z) timers_scheme \<Rightarrow> timeval \<times> ('e, 'u, 'z) timers_scheme" where
  "gettimeofday s = (gtod s (gtod_calls s), s\<lparr>gtod_calls := Suc (gtod_calls s)\<rparr>)"

abbreviation timer_ids :: "('e, 'u, 'z) timers_scheme \<Rightarrow> nat list" where
  "timer_ids s \<equiv> map tid (timer_list s)"

definition timer_at :: "nat \<Rightarrow> ('e, 'u, 'z) timers_scheme \<Rightarrow> ('e, 'u) rtadvd_timer option" where
  "timer_at p s = find (\<lambda>t. tid t = p) (timer_list s)"

definition set_tm :: "nat \<Rightarrow> timeval \<Rightarrow> ('e, 'u, 'z) timers_scheme \<Rightarrow> ('e, 'u, 'z) timers_scheme" where
  "set_tm p v s =
     s\<lparr>timer_list := map (\<lambda>t. if tid t = p then t\<lparr>tm := v\<rparr> else t) (timer_list s)\<rparr>"

definition rtadvd_timer_init :: "('e, 'u, 'z) timers_scheme \<Rightarrow> ('e, 'u, 'z) timers_scheme" where
  "rtadvd_timer_init s = s\<lparr>timer_list := [], timer_head_tm := tm_max\<rparr>"

definition rtadvd_add_timer ::
    "'e option \<Rightarrow> 'u option \<Rightarrow> ('e, 'u, 'z) timers_scheme \<Rightarrow> (nat \<times> ('e, 'u, 'z) timers_scheme) result" where
  "rtadvd_add_timer timeout upd s =
     (case timeout of
        None \<Rightarrow> Inl (Exit 1)
      | Some e \<Rightarrow>
          let p = timer_next_id s;
              newtimer = \<lparr>tid = p, tm = tm_max, expire = e, update = upd\<rparr>
          in Inr (p, s\<lparr>timer_list := newtimer # timer_list s, timer_next_id := Suc p\<rparr>))"

definition rtadvd_remove_timer ::
    "nat option \<Rightarrow> ('e, 'u, 'z) timers_scheme \<Rightarrow> ('e, 'u, 'z) timers_scheme result" where
  "rtadvd_remove_timer ptr s =
     (case ptr of
        None \<Rightarrow> Inl NullDeref
      | Some p \<Rightarrow>
          if timer_at p s = None then Inl UseAfterFree
          else Inr (s\<lparr>timer_list := filter (\<lambda>t. tid t \<noteq> p) (timer_list s)\<rparr>))"

text \<open>\<open>if (TIMEVAL_LT(v, timer_head.tm)) timer_head.tm = v\<close>, in two functions of the source.\<close>

definition note_head :: "timeval \<Rightarrow> ('e, 'u, 'z) timers_scheme \<Rightarrow> ('e, 'u, 'z) timers_scheme" where
  "note_head v s = (if TIMEVAL_LT v (timer_head_tm s) then s\<lparr>timer_head_tm := v\<rparr> else s)"

definition rtadvd_set_timer ::
    "timeval \<Rightarrow> nat \<Rightarrow> ('e, 'u, 'z) timers_scheme \<Rightarrow> ('e, 'u, 'z) timers_scheme result" where
  "rtadvd_set_timer v p s =
     (let (now, s1) = gettimeofday s; t = TIMEVAL_ADD now v
      in if timer_at p s1 = None then Inl UseAfterFree
         else Inr (note_head t (set_tm p t s1)))"

definition rtadvd_timer_rest ::
    "nat \<Rightarrow> ('e, 'u, 'z) timers_scheme \<Rightarrow> (timeval \<times> ('e, 'u, 'z) timers_scheme) result" where
  "rtadvd_timer_rest p s =
     (let (now, s1) = gettimeofday s
      in case timer_at p s1 of
           None \<Rightarrow> Inl UseAfterFree
         | Some t \<Rightarrow>
             Inr (if TIMEVAL_LEQ (tm t) now then Timeval 0 0 else TIMEVAL_SUB (tm t) now, s1))"

text \<open>
  One pass of the loop of \<open>rtadvd_check_timer\<close>. The callback \<open>ef\<close> answers whether it
  returned a non-null timer; \<open>uf\<close> computes what the update function stores through its
  pointer.
\<close>

definition check_step ::
    "('e \<Rightarrow> ('e, 'u, 'z) timers_scheme \<Rightarrow> (bool \<times> ('e, 'u, 'z) timers_scheme) result) \<Rightarrow>
     ('u \<Rightarrow> ('e, 'u, 'z) timers_scheme \<Rightarrow> (timeval \<times> ('e, 'u, 'z) timers_scheme) result) \<Rightarrow>
     timeval \<Rightarrow> nat \<Rightarrow> ('e, 'u, 'z) timers_scheme \<Rightarrow> ('e, 'u, 'z) timers_scheme result" where
  "check_step ef uf now p s =
     (case timer_at p s of
        None \<Rightarrow> Inl UseAfterFree
      | Some t \<Rightarrow>
          if TIMEVAL_LEQ (tm t) now then
            bind_r (ef (expire t) s) (\<lambda>(alive, s1).
              if \<not> alive then Inr s1
              else case timer_at p s1 of
                     None \<Rightarrow> Inl UseAfterFree
                   | Some t1 \<Rightarrow>
                       bind_r (case update t1 of None \<Rightarrow> Inr (tm t1, s1) | Some u \<Rightarrow> uf u s1)
                         (\<lambda>(v, s2).
                           let v' = TIMEVAL_ADD v now
                           in Inr (note_head v' (set_tm p v' s2))))
          else Inr (note_head (tm t) s))"

text \<open>The address in \<open>tm->next\<close>; \<open>None\<close> is \<open>&timer_head\<close>.\<close>

fun succ_id :: "nat \<Rightarrow> nat list \<Rightarrow> nat option" where
  "succ_id p [] = None"
| "succ_id p [x] = None"
| "succ_id p (x # y # zs) = (if x = p then Some y else succ_id p (y # zs))"

definition first_id :: "nat list \<Rightarrow> nat option" where
  "first_id ps = (case ps of [] \<Rightarrow> None | p # _ \<Rightarrow> Some p)"

fun check_loop ::
    "('e \<Rightarrow> ('e, 'u, 'z) timers_scheme \<Rightarrow> (bool \<times> ('e, 'u, 'z) timers_scheme) result) \<Rightarrow>
     ('u \<Rightarrow> ('e, 'u, 'z) timers_scheme \<Rightarrow> (timeval \<times> ('e, 'u, 'z) timers_scheme) result) \<Rightarrow>
     timeval \<Rightarrow> nat \<Rightarrow> nat option \<Rightarrow> ('e, 'u, 'z) timers_scheme \<Rightarrow> ('e, 'u, 'z) timers_scheme result" where
  "check_loop ef uf now fuel None s = Inr s"
| "check_loop ef uf now 0 (Some p) s = Inl Diverge"
| "check_loop ef uf now (Suc fuel) (Some p) s =
     (let tm_next = succ_id p (timer_ids s)
      in bind_r (check_step ef uf now p s) (check_loop ef uf now fuel tm_next))"

definition rtadvd_check_timer ::
    "('e \<Rightarrow> ('e, 'u, 'z) timers_scheme \<Rightarrow> (bool \<times> ('e, 'u, 'z) timers_scheme) result) \<Rightarrow>
     ('u \<Rightarrow> ('e, 'u, 'z) timers_scheme \<Rightarrow> (timeval \<times> ('e, 'u, 'z) timers_scheme) result) \<Rightarrow>
     ('e, 'u, 'z) timers_scheme \<Rightarrow> (timeval option \<times> ('e, 'u, 'z) timers_scheme) result" where
  "rtadvd_check_timer ef uf s =
     (let (now, s1) = gettimeofday s;
          s2 = s1\<lparr>timer_head_tm := tm_max\<rparr>
      in bind_r (check_loop ef uf now (length (timer_list s2)) (first_id (timer_ids s2)) s2) (\<lambda>s3.
           Inr (if TIMEVAL_EQUAL tm_max (timer_head_tm s3) then None
                else if TIMEVAL_LT (timer_head_tm s3) now then Some (Timeval 0 0)
                else Some (TIMEVAL_SUB (timer_head_tm s3) now), s3)))"

text \<open>
  What the loop is meant to do: visit the timers linked at its start, in link order.
\<close>

fun visit_all ::
    "('e \<Rightarrow> ('e, 'u, 'z) timers_scheme \<Rightarrow> (bool \<times> ('e, 'u, 'z) timers_scheme) result) \<Rightarrow>
     ('u \<Rightarrow> ('e, 'u, 'z) timers_scheme \<Rightarrow> (timeval \<times> ('e, 'u, 'z) timers_scheme) result) \<Rightarrow>
     timeval \<Rightarrow> nat list \<Rightarrow> ('e, 'u, 'z) timers_scheme \<Rightarrow> ('e, 'u, 'z) timers_scheme result" where
  "visit_all ef uf now [] s = Inr s"
| "visit_all ef uf now (p # ps) s = bind_r (check_step ef uf now p s) (visit_all ef uf now ps)"

section \<open>Lemmas on time values\<close>

lemmas tv_defs = TIMEVAL_LT_def TIMEVAL_LEQ_def TIMEVAL_EQUAL_def TIMEVAL_ADD_def
  TIMEVAL_SUB_def tv_ok_def usecs_def Let_def

lemma TIMEVAL_LT_less [simp]: "TIMEVAL_LT a b \<longleftrightarrow> a < b"
  by (simp add: less_timeval_def)

lemma TIMEVAL_LEQ_le [simp]: "TIMEVAL_LEQ a b \<longleftrightarrow> a \<le> b"
  by (simp add: less_eq_timeval_def)

lemma TIMEVAL_EQUAL_eq [simp]: "TIMEVAL_EQUAL a b \<longleftrightarrow> a = b"
  by (cases a; cases b) (simp add: TIMEVAL_EQUAL_def)

lemma usecs_add [simp]: "usecs (TIMEVAL_ADD a b) = usecs a + usecs b"
  by (simp add: tv_defs algebra_simps)

lemma usecs_sub [simp]: "usecs (TIMEVAL_SUB a b) = usecs a - usecs b"
  by (simp add: tv_defs algebra_simps)

lemma tv_ok_add: "tv_ok a \<Longrightarrow> tv_ok b \<Longrightarrow> tv_ok (TIMEVAL_ADD a b)"
  by (simp add: tv_defs)

lemma tv_ok_sub: "tv_ok a \<Longrightarrow> tv_ok b \<Longrightarrow> tv_ok (TIMEVAL_SUB a b)"
  by (simp add: tv_defs)

lemma tv_ok_simp [simp]: "tv_ok (Timeval a b) \<longleftrightarrow> 0 \<le> b \<and> b < MILLION"
  by (simp add: tv_ok_def)

lemma usecs_simp [simp]: "usecs (Timeval a b) = a * MILLION + b"
  by (simp add: usecs_def)

lemma tv_le_usecs: "tv_ok a \<Longrightarrow> tv_ok b \<Longrightarrow> a \<le> b \<longleftrightarrow> usecs a \<le> usecs b"
  by (cases a; cases b) (auto simp: less_eq_timeval_def tv_defs simp del: TIMEVAL_LEQ_le)

lemma tv_less_usecs: "tv_ok a \<Longrightarrow> tv_ok b \<Longrightarrow> a < b \<longleftrightarrow> usecs a < usecs b"
  by (cases a; cases b) (auto simp: less_timeval_def tv_defs simp del: TIMEVAL_LT_less)

lemma tv_time_add: "tv_time a \<Longrightarrow> tv_time b \<Longrightarrow> tv_time (TIMEVAL_ADD a b)"
  by (auto simp: tv_time_def tv_defs)

lemma tv_timeD: "tv_time t \<Longrightarrow> tv_ok t" "tv_time t \<Longrightarrow> 0 \<le> usecs t"
  by (auto simp: tv_time_def tv_defs)

lemma tv_le_add: "tv_time a \<Longrightarrow> tv_time b \<Longrightarrow> b \<le> TIMEVAL_ADD a b"
  using tv_le_usecs [of b "TIMEVAL_ADD a b"] tv_time_add [of a b] tv_timeD by simp

section \<open>Lemmas on the queue\<close>

lemma gettimeofday_simps [simp]:
  "fst (gettimeofday s) = gtod s (gtod_calls s)"
  "timer_list (snd (gettimeofday s)) = timer_list s"
  "timer_head_tm (snd (gettimeofday s)) = timer_head_tm s"
  by (simp_all add: gettimeofday_def)

lemma find_eq_Some_distinct:
  "distinct (map f xs) \<Longrightarrow> find (\<lambda>x. f x = k) xs = Some x \<longleftrightarrow> x \<in> set xs \<and> f x = k"
  by (induction xs) auto

lemma timer_at_Some:
  "distinct (timer_ids s) \<Longrightarrow> timer_at p s = Some t \<longleftrightarrow> t \<in> set (timer_list s) \<and> tid t = p"
  by (simp add: timer_at_def find_eq_Some_distinct)

lemma timer_at_unique:
  "distinct (timer_ids s) \<Longrightarrow> timer_at p s = Some t \<Longrightarrow> t' \<in> set (timer_list s) \<Longrightarrow> tid t' = p \<Longrightarrow> t' = t"
  by (metis option.inject timer_at_Some)

lemma timer_at_None: "timer_at p s = None \<longleftrightarrow> p \<notin> set (timer_ids s)"
  by (auto simp: timer_at_def find_None_iff)

lemma timer_at_ex: "p \<in> set (timer_ids s) \<Longrightarrow> \<exists>t. timer_at p s = Some t"
  using timer_at_None [of p s] by (cases "timer_at p s") auto

lemma timer_at_list_cong: "timer_list s = timer_list s' \<Longrightarrow> timer_at p s = timer_at p s'"
  by (simp add: timer_at_def)

lemma set_tm_simps [simp]:
  "timer_ids (set_tm p v s) = timer_ids s"
  "timer_head_tm (set_tm p v s) = timer_head_tm s"
  "gtod (set_tm p v s) = gtod s"
  by (induction "timer_list s") (auto simp: set_tm_def)

lemma set_tm_mem:
  "t \<in> set (timer_list (set_tm p v s)) \<longleftrightarrow>
     t \<in> set (timer_list s) \<and> tid t \<noteq> p \<or> (\<exists>t0 \<in> set (timer_list s). tid t0 = p \<and> t = t0\<lparr>tm := v\<rparr>)"
  by (auto simp: set_tm_def)

lemma set_tm_same: "t \<in> set (timer_list (set_tm p v s)) \<Longrightarrow> tid t = p \<Longrightarrow> tm t = v"
  unfolding set_tm_mem by (elim disjE bexE conjE) simp_all

lemma set_tm_other:
  "tid t \<noteq> p \<Longrightarrow> t \<in> set (timer_list (set_tm p v s)) \<longleftrightarrow> t \<in> set (timer_list s)"
  unfolding set_tm_mem by (safe; simp)

lemma note_head_simps [simp]:
  "timer_list (note_head v s) = timer_list s"
  "timer_head_tm (note_head v s) = min v (timer_head_tm s)"
  by (auto simp: note_head_def min_def)

lemma note_head_eq: "note_head v s = s\<lparr>timer_head_tm := min v (timer_head_tm s)\<rparr>"
  by (auto simp: note_head_def min_def)

lemma succ_id_split:
  "distinct (pre @ p # rest) \<Longrightarrow> succ_id p (pre @ p # rest) = first_id rest"
proof (induction pre)
  case Nil
  then show ?case by (cases rest) (auto simp: first_id_def)
next
  case (Cons x pre)
  then have "x \<noteq> p" by auto
  with Cons show ?case by (cases pre) (auto simp: first_id_def)
qed

lemma first_id_simps [simp]: "first_id [] = None" "first_id (p # ps) = Some p"
  by (simp_all add: first_id_def)

section \<open>The contract of the callbacks\<close>

text \<open>
  \<open>cinv\<close> is the client's invariant on the whole state. An expiry function removes at most
  the timer it was called for, and then answers null; an update function yields a normal
  time value that is not negative; neither touches the head. The queue itself stores
  normal time values and moves the head.
\<close>

locale timer_callbacks =
  fixes expire_fn :: "'e \<Rightarrow> ('e, 'u, 'z) timers_scheme \<Rightarrow> (bool \<times> ('e, 'u, 'z) timers_scheme) result"
    and update_fn :: "'u \<Rightarrow> ('e, 'u, 'z) timers_scheme \<Rightarrow> (timeval \<times> ('e, 'u, 'z) timers_scheme) result"
    and cinv :: "('e, 'u, 'z) timers_scheme \<Rightarrow> bool"
  assumes cinv_distinct: "cinv s \<Longrightarrow> distinct (timer_ids s)"
    and cinv_tm: "cinv s \<Longrightarrow> t \<in> set (timer_list s) \<Longrightarrow> tv_time (tm t)"
    and cinv_gtod: "cinv s \<Longrightarrow> tv_time (gtod s n)"
    and cinv_tick: "cinv s \<Longrightarrow> cinv (s\<lparr>gtod_calls := n\<rparr>)"
    and cinv_head: "cinv s \<Longrightarrow> cinv (s\<lparr>timer_head_tm := v\<rparr>)"
    and cinv_set_tm: "cinv s \<Longrightarrow> tv_time v \<Longrightarrow> cinv (set_tm p v s)"
    and expire_ok: "cinv s \<Longrightarrow> timer_at p s = Some t \<Longrightarrow>
      \<exists>alive s'. expire_fn (expire t) s = Inr (alive, s') \<and> cinv s' \<and>
        timer_head_tm s' = timer_head_tm s \<and>
        (timer_list s' = timer_list s \<or>
         \<not> alive \<and> timer_list s' = filter (\<lambda>t. tid t \<noteq> p) (timer_list s))"
    and update_ok: "cinv s \<Longrightarrow> timer_at p s = Some t \<Longrightarrow> update t = Some u \<Longrightarrow>
      \<exists>v s'. update_fn u s = Inr (v, s') \<and> cinv s' \<and> tv_time v \<and>
        timer_head_tm s' = timer_head_tm s \<and> timer_list s' = timer_list s"
begin

text \<open>What one pass leaves of the state, in terms of what the later passes need.\<close>

definition step_post :: "timeval \<Rightarrow> nat \<Rightarrow> ('e, 'u, 'z) timers_scheme \<Rightarrow> ('e, 'u, 'z) timers_scheme \<Rightarrow> bool" where
  "step_post now p s s' \<longleftrightarrow> cinv s' \<and>
     (timer_ids s' = timer_ids s \<or> timer_ids s' = filter (\<lambda>q. q \<noteq> p) (timer_ids s)) \<and>
     (\<forall>t. tid t \<noteq> p \<longrightarrow> t \<in> set (timer_list s') \<longleftrightarrow> t \<in> set (timer_list s)) \<and>
     (\<forall>t \<in> set (timer_list s'). tid t = p \<longrightarrow> timer_head_tm s' \<le> tm t \<or> tm t \<le> now) \<and>
     timer_head_tm s' \<le> timer_head_tm s \<and>
     (timer_head_tm s' = timer_head_tm s \<or>
      (\<exists>t \<in> set (timer_list s'). tid t = p \<and> tm t = timer_head_tm s' \<and> now \<le> tm t))"

lemma step_post_idle:
  assumes "cinv s" "timer_at p s = Some t" "\<not> tm t \<le> now"
  shows "step_post now p s (note_head (tm t) s)"
proof -
  have "min (tm t) (timer_head_tm s) \<le> tm t'" if "t' \<in> set (timer_list s)" "tid t' = p" for t'
    using timer_at_unique [OF cinv_distinct [OF assms(1)] assms(2) that] by simp
  moreover have "t \<in> set (timer_list s)" "tid t = p"
    using assms cinv_distinct by (auto simp: timer_at_Some)
  moreover have "min (tm t) (timer_head_tm s) = tm t \<or> min (tm t) (timer_head_tm s) = timer_head_tm s"
    by (simp add: min_def)
  ultimately show ?thesis
    using cinv_head [OF assms(1)] assms(3) by (auto simp: step_post_def note_head_eq)
qed

lemma step_post_removed:
  assumes c: "cinv s" "cinv s'" and at: "timer_at p s = Some t" and le: "tm t \<le> now"
    and hd: "timer_head_tm s' = timer_head_tm s"
    and lst: "timer_list s' = timer_list s \<or> timer_list s' = filter (\<lambda>t. tid t \<noteq> p) (timer_list s)"
  shows "step_post now p s s'"
proof -
  have "tm t' \<le> now" if "t' \<in> set (timer_list s)" "tid t' = p" for t'
    using timer_at_unique [OF cinv_distinct [OF c(1)] at that] le by simp
  then show ?thesis
    using c hd lst by (auto simp: step_post_def filter_map o_def)
qed

lemma step_post_rearmed:
  assumes c: "cinv s" "cinv s'" and p: "p \<in> set (timer_ids s)" and v: "tv_time v" "now \<le> v"
    and hd: "timer_head_tm s' = timer_head_tm s" and lst: "timer_list s' = timer_list s"
  shows "step_post now p s (note_head v (set_tm p v s'))"
proof -
  let ?s = "note_head v (set_tm p v s')"
  have c': "cinv ?s"
    using c(2) v by (auto simp: note_head_eq intro: cinv_head cinv_set_tm)
  have ids: "timer_ids ?s = timer_ids s"
    using lst by simp
  have same: "tm t = v" if "t \<in> set (timer_list ?s)" "tid t = p" for t
    using set_tm_same that by simp
  have other: "t \<in> set (timer_list ?s) \<longleftrightarrow> t \<in> set (timer_list s)" if "tid t \<noteq> p" for t
    using set_tm_other [OF that, of v s'] lst by simp
  have hd': "timer_head_tm ?s = min v (timer_head_tm s)"
    using hd by simp
  obtain t0 where t0: "t0 \<in> set (timer_list s')" "tid t0 = p"
    using p lst by auto
  have mem: "t0\<lparr>tm := v\<rparr> \<in> set (timer_list ?s)"
    using t0 by (auto simp: set_tm_mem)
  have low: "\<forall>t \<in> set (timer_list ?s). tid t = p \<longrightarrow> timer_head_tm ?s \<le> tm t \<or> tm t \<le> now"
    using same unfolding hd' by simp
  have hit: "timer_head_tm ?s = timer_head_tm s \<or>
      (\<exists>t \<in> set (timer_list ?s). tid t = p \<and> tm t = timer_head_tm ?s \<and> now \<le> tm t)"
  proof (cases "v \<le> timer_head_tm s")
    case True
    then have "timer_head_tm ?s = v" unfolding hd' by (simp add: min_def)
    then show ?thesis
      using bexI [OF _ mem, of "\<lambda>t. tid t = p \<and> tm t = v \<and> now \<le> tm t"] t0(2) v(2) by simp
  next
    case False
    then show ?thesis unfolding hd' by (simp add: min_def)
  qed
  show ?thesis
    unfolding step_post_def using c' ids other low hit hd' by simp
qed

lemma check_step_ok:
  assumes c: "cinv s" and p: "p \<in> set (timer_ids s)" and now: "tv_time now"
  shows "\<exists>s'. check_step expire_fn update_fn now p s = Inr s' \<and> step_post now p s s'"
proof -
  obtain t where at: "timer_at p s = Some t"
    using timer_at_ex [OF p] by blast
  show ?thesis
  proof (cases "tm t \<le> now")
    case False
    with step_post_idle [OF c at False] at show ?thesis
      by (simp add: check_step_def)
  next
    case True
    obtain alive s1 where ex: "expire_fn (expire t) s = Inr (alive, s1)"
      and c1: "cinv s1" and hd1: "timer_head_tm s1 = timer_head_tm s"
      and l1: "timer_list s1 = timer_list s \<or>
        \<not> alive \<and> timer_list s1 = filter (\<lambda>t. tid t \<noteq> p) (timer_list s)"
      using expire_ok [OF c at] by blast
    show ?thesis
    proof (cases alive)
      case False
      with l1 step_post_removed [OF c c1 at True hd1] at ex True show ?thesis
        by (auto simp: check_step_def)
    next
      case alive: True
      with l1 have l1: "timer_list s1 = timer_list s" by simp
      then have at1: "timer_at p s1 = Some t"
        using at by (simp add: timer_at_def)
      obtain v s2 where up: "(case update t of None \<Rightarrow> Inr (tm t, s1) | Some u \<Rightarrow> update_fn u s1) = Inr (v, s2)"
        and c2: "cinv s2" and v: "tv_time v" and hd2: "timer_head_tm s2 = timer_head_tm s1"
        and l2: "timer_list s2 = timer_list s1"
      proof (cases "update t")
        case None
        have "tv_time (tm t)"
          using cinv_tm [OF c1] at1 cinv_distinct [OF c1] by (auto simp: timer_at_Some)
        with None c1 that show ?thesis by simp
      next
        case (Some u)
        with update_ok [OF c1 at1 Some] that show ?thesis by auto
      qed
      have "tv_time (TIMEVAL_ADD v now)" "now \<le> TIMEVAL_ADD v now"
        using v now by (auto intro: tv_time_add tv_le_add)
      from step_post_rearmed [OF c c2 p this] l1 l2 hd1 hd2
      show ?thesis
        using at ex True alive at1 up by (simp add: check_step_def Let_def)
    qed
  qed
qed

lemma step_post_ids:
  assumes "step_post now p s s'" "cinv s" "timer_ids s = pre @ p # rest"
  shows "timer_ids s' = pre @ p # rest \<or> timer_ids s' = pre @ rest"
proof -
  have "filter (\<lambda>q. q \<noteq> p) (pre @ p # rest) = pre @ rest"
    using cinv_distinct [OF assms(2)] assms(3) by (intro filter_remove_mid) simp
  moreover have "timer_ids s' = timer_ids s \<or> timer_ids s' = filter (\<lambda>q. q \<noteq> p) (timer_ids s)"
    using assms(1) unfolding step_post_def by (elim conjE)
  ultimately show ?thesis
    using assms(3) by simp
qed

lemma check_loop_visit:
  "cinv s \<Longrightarrow> tv_time now \<Longrightarrow> timer_ids s = pre @ rem \<Longrightarrow> length rem \<le> n \<Longrightarrow>
   check_loop expire_fn update_fn now n (first_id rem) s = visit_all expire_fn update_fn now rem s"
proof (induction rem arbitrary: pre s n)
  case Nil
  then show ?case by simp
next
  case (Cons p rest)
  from Cons.prems obtain m where n: "n = Suc m" "length rest \<le> m"
    by (cases n) auto
  have dist: "distinct (pre @ p # rest)"
    using cinv_distinct [OF Cons.prems(1)] Cons.prems(3) by simp
  have "p \<in> set (timer_ids s)"
    using Cons.prems(3) by simp
  from check_step_ok [OF Cons.prems(1) this Cons.prems(2)]
  obtain s' where st: "check_step expire_fn update_fn now p s = Inr s'"
    and po: "step_post now p s s'" by blast
  have c': "cinv s'" using po by (simp add: step_post_def)
  from step_post_ids [OF po Cons.prems(1,3)]
  have "check_loop expire_fn update_fn now m (first_id rest) s' =
      visit_all expire_fn update_fn now rest s'"
    using Cons.IH [OF c' Cons.prems(2), of "pre @ [p]" m] Cons.IH [OF c' Cons.prems(2), of pre m] n
    by auto
  then show ?case
    using st n(1) succ_id_split [OF dist] Cons.prems(3) by simp
qed

text \<open>The timers in \<open>D\<close> have been visited: the head is the least of their deadlines.\<close>

definition visited :: "timeval \<Rightarrow> nat set \<Rightarrow> ('e, 'u, 'z) timers_scheme \<Rightarrow> bool" where
  "visited now D s \<longleftrightarrow>
     (\<forall>t \<in> set (timer_list s). tid t \<in> D \<longrightarrow> timer_head_tm s \<le> tm t \<or> tm t \<le> now) \<and>
     timer_head_tm s \<le> tm_max \<and>
     (timer_head_tm s = tm_max \<or>
      (\<exists>t \<in> set (timer_list s). tid t \<in> D \<and> tm t = timer_head_tm s \<and> now \<le> tm t))"

lemma visited_step:
  assumes "visited now D s" "step_post now p s s'" "p \<notin> D"
  shows "visited now (insert p D) s'"
proof -
  have same: "t \<in> set (timer_list s') \<longleftrightarrow> t \<in> set (timer_list s)" if "tid t \<in> D" for t
    using assms(2,3) that by (metis step_post_def)
  have hd: "timer_head_tm s' \<le> timer_head_tm s"
    using assms(2) by (simp add: step_post_def)
  have old: "timer_head_tm s' \<le> tm t \<or> tm t \<le> now" if "t \<in> set (timer_list s')" "tid t \<in> D" for t
    using assms(1) that same hd by (meson order_trans visited_def)
  have new: "timer_head_tm s' \<le> tm t \<or> tm t \<le> now" if "t \<in> set (timer_list s')" "tid t = p" for t
    using assms(2) that by (auto simp: step_post_def)
  have "timer_head_tm s' = tm_max \<or>
      (\<exists>t \<in> set (timer_list s'). tid t \<in> insert p D \<and> tm t = timer_head_tm s' \<and> now \<le> tm t)"
    using assms(1,2) same by (metis insertCI step_post_def visited_def)
  moreover have "timer_head_tm s' \<le> tm_max"
    using assms(1) hd by (meson order_trans visited_def)
  ultimately show ?thesis
    using old new by (auto simp: visited_def)
qed

lemma visit_all_ok:
  "cinv s \<Longrightarrow> tv_time now \<Longrightarrow> timer_ids s = pre @ rem \<Longrightarrow> set pre \<subseteq> D \<Longrightarrow> D \<inter> set rem = {} \<Longrightarrow>
   visited now D s \<Longrightarrow>
   \<exists>s'. visit_all expire_fn update_fn now rem s = Inr s' \<and> cinv s' \<and>
     visited now (set (timer_ids s')) s'"
proof (induction rem arbitrary: pre D s)
  case Nil
  then have "visited now (set (timer_ids s)) s"
    by (auto simp: visited_def)
  with Nil.prems(1) show ?case by simp
next
  case (Cons p rest)
  have dist: "distinct (pre @ p # rest)"
    using cinv_distinct [OF Cons.prems(1)] Cons.prems(3) by simp
  have "p \<in> set (timer_ids s)"
    using Cons.prems(3) by simp
  from check_step_ok [OF Cons.prems(1) this Cons.prems(2)]
  obtain s' where st: "check_step expire_fn update_fn now p s = Inr s'"
    and po: "step_post now p s s'" by blast
  have c': "cinv s'" using po by (simp add: step_post_def)
  have D: "insert p D \<inter> set rest = {}" "p \<notin> D"
    using Cons.prems(5) dist by auto
  have v': "visited now (insert p D) s'"
    using visited_step [OF Cons.prems(6) po D(2)] .
  have pre: "set (pre @ [p]) \<subseteq> insert p D" "set pre \<subseteq> insert p D"
    using Cons.prems(4) by auto
  from step_post_ids [OF po Cons.prems(1,3)]
  have "\<exists>s''. visit_all expire_fn update_fn now rest s' = Inr s'' \<and> cinv s'' \<and>
      visited now (set (timer_ids s'')) s''"
    using Cons.IH [OF c' Cons.prems(2) _ pre(1) D(1) v'] Cons.IH [OF c' Cons.prems(2) _ pre(2) D(1) v']
    by auto
  with st show ?case by simp
qed

text \<open>The whole function: it returns, and the time it returns sleeps past no deadline.\<close>

definition next_wait :: "timeval \<Rightarrow> ('e, 'u, 'z) timers_scheme \<Rightarrow> timeval option \<Rightarrow> bool" where
  "next_wait now s r \<longleftrightarrow>
     (case r of
        None \<Rightarrow> \<forall>t \<in> set (timer_list s). tm_max \<le> tm t \<or> tm t \<le> now
      | Some d \<Rightarrow> tv_ok d \<and>
          (\<forall>t \<in> set (timer_list s). tm t \<le> now \<or> usecs now + usecs d \<le> usecs (tm t)) \<and>
          (\<exists>t \<in> set (timer_list s). tm t < tm_max \<and> now \<le> tm t \<and> usecs d = usecs (tm t) - usecs now))"

lemma check_timer_eq:
  assumes c: "cinv s" and now: "now = fst (gettimeofday s)"
  shows "rtadvd_check_timer expire_fn update_fn s =
    bind_r (visit_all expire_fn update_fn now (timer_ids s)
              ((snd (gettimeofday s))\<lparr>timer_head_tm := tm_max\<rparr>)) (\<lambda>s3.
      Inr (if tm_max = timer_head_tm s3 then None
           else if timer_head_tm s3 < now then Some (Timeval 0 0)
           else Some (TIMEVAL_SUB (timer_head_tm s3) now), s3))"
proof -
  let ?s2 = "(snd (gettimeofday s))\<lparr>timer_head_tm := tm_max\<rparr>"
  have c2: "cinv ?s2" using c by (simp add: gettimeofday_def cinv_tick cinv_head)
  have "tv_time now" using c now by (simp add: cinv_gtod)
  from check_loop_visit [OF c2 this, of "[]" "timer_ids s" "length (timer_list s)"]
  show ?thesis
    using now by (simp add: rtadvd_check_timer_def gettimeofday_def Let_def cong: if_cong)
qed

lemma check_timer_ok:
  assumes c: "cinv s" and now: "now = fst (gettimeofday s)"
  shows "\<exists>r s'. rtadvd_check_timer expire_fn update_fn s = Inr (r, s') \<and> cinv s' \<and> next_wait now s' r"
proof -
  let ?s2 = "(snd (gettimeofday s))\<lparr>timer_head_tm := tm_max\<rparr>"
  have c2: "cinv ?s2" using c by (simp add: gettimeofday_def cinv_tick cinv_head)
  have ntime: "tv_time now" using c now by (simp add: cinv_gtod)
  then have nok: "tv_ok now" by (rule tv_timeD)
  have "visited now {} ?s2" by (simp add: visited_def)
  then obtain s3 where v: "visit_all expire_fn update_fn now (timer_ids s) ?s2 = Inr s3"
    and c3: "cinv s3" and vis: "visited now (set (timer_ids s3)) s3"
    using visit_all_ok [OF c2 ntime, of "[]" "timer_ids s" "{}"] by auto
  let ?h = "timer_head_tm s3"
  have low: "\<forall>t \<in> set (timer_list s3). ?h \<le> tm t \<or> tm t \<le> now"
    using vis by (auto simp: visited_def)
  have hit: "?h = tm_max \<or> (\<exists>t \<in> set (timer_list s3). tm t = ?h \<and> now \<le> tm t)"
    using vis by (auto simp: visited_def)
  have ok: "\<forall>t \<in> set (timer_list s3). tv_ok (tm t)"
    using cinv_tm [OF c3] tv_timeD by blast
  have max: "?h \<le> tm_max"
    using vis by (simp add: visited_def)
  have "next_wait now s3 (if tm_max = ?h then None
      else if ?h < now then Some (Timeval 0 0) else Some (TIMEVAL_SUB ?h now))"
  proof (cases "tm_max = ?h")
    case True
    with low show ?thesis by (auto simp: next_wait_def)
  next
    case False
    with hit obtain t where t: "t \<in> set (timer_list s3)" "tm t = ?h" "now \<le> ?h" by auto
    from False max have "?h < tm_max" by simp
    have hok: "tv_ok ?h" using ok t by auto
    have "usecs ?h \<le> usecs (tm u)" if "u \<in> set (timer_list s3)" "\<not> tm u \<le> now" for u
      using low that ok hok by (auto simp: tv_le_usecs)
    moreover have "usecs now \<le> usecs (tm u)" if "u \<in> set (timer_list s3)" "\<not> tm u \<le> now" for u
      using that ok nok by (auto simp: tv_le_usecs)
    ultimately show ?thesis
      using False t \<open>?h < tm_max\<close> tv_ok_sub [OF hok nok] by (auto simp: next_wait_def intro!: bexI [of _ t])
  qed
  with v c3 show ?thesis
    by (simp add: check_timer_eq [OF c now])
qed

end

section \<open>Callbacks that leave nothing overdue\<close>

text \<open>
  A stronger contract: an expiry function that answers null has removed its timer, or the
  object of the timer is \<open>stopped\<close>; and it achieves something, \<open>fired\<close>. Neither the queue nor the
  later callbacks undo this. Then no deadline is left behind: every timer that was due has
  fired, and all that are linked lie at or behind the end of the wait, unless they are stopped.
\<close>

locale live_callbacks = timer_callbacks expire_fn update_fn cinv
  for expire_fn :: "'e \<Rightarrow> ('e, 'u, 'z) timers_scheme \<Rightarrow> (bool \<times> ('e, 'u, 'z) timers_scheme) result"
    and update_fn :: "'u \<Rightarrow> ('e, 'u, 'z) timers_scheme \<Rightarrow> (timeval \<times> ('e, 'u, 'z) timers_scheme) result"
    and cinv :: "('e, 'u, 'z) timers_scheme \<Rightarrow> bool" +
  fixes fired stopped :: "'e \<Rightarrow> ('e, 'u, 'z) timers_scheme \<Rightarrow> bool"
  assumes null_removed: "cinv s \<Longrightarrow> timer_at p s = Some t \<Longrightarrow> expire_fn (expire t) s = Inr (False, s') \<Longrightarrow>
      p \<notin> set (timer_ids s') \<or> stopped (expire t) s'"
    and fires: "cinv s \<Longrightarrow> timer_at p s = Some t \<Longrightarrow> expire_fn (expire t) s = Inr (alive, s') \<Longrightarrow> fired (expire t) s'"
    and fired_expire: "cinv s \<Longrightarrow> timer_at p s = Some t \<Longrightarrow> expire_fn (expire t) s = Inr (alive, s') \<Longrightarrow>
      (fired e s \<longrightarrow> fired e s') \<and> (stopped e s \<longrightarrow> stopped e s')"
    and fired_update: "cinv s \<Longrightarrow> timer_at p s = Some t \<Longrightarrow> update t = Some u \<Longrightarrow> update_fn u s = Inr (v, s') \<Longrightarrow>
      (fired e s \<longrightarrow> fired e s') \<and> (stopped e s \<longrightarrow> stopped e s')"
    and fired_store: "fired e (s\<lparr>timer_head_tm := v\<rparr>) = fired e s" "fired e (set_tm p v s) = fired e s"
    and stopped_store: "stopped e (s\<lparr>timer_head_tm := v\<rparr>) = stopped e s" "stopped e (set_tm p v s) = stopped e s"
begin

definition live_post :: "timeval \<Rightarrow> nat \<Rightarrow> ('e, 'u, 'z) timers_scheme \<Rightarrow> ('e, 'u, 'z) timers_scheme \<Rightarrow> bool" where
  "live_post now p s s' \<longleftrightarrow>
     (\<forall>t \<in> set (timer_list s'). tid t = p \<longrightarrow> now \<le> tm t \<and> timer_head_tm s' \<le> tm t \<or> stopped (expire t) s') \<and>
     (\<forall>t. timer_at p s = Some t \<longrightarrow> (if tm t \<le> now then fired (expire t) s' else t \<in> set (timer_list s'))) \<and>
     (\<forall>e. (fired e s \<longrightarrow> fired e s') \<and> (stopped e s \<longrightarrow> stopped e s'))"

lemma rearm_live:
  assumes c: "cinv s1" and at: "timer_at p s1 = Some t" and now: "tv_time now"
    and up: "(case update t of None \<Rightarrow> Inr (tm t, s1) | Some u \<Rightarrow> update_fn u s1) = Inr (v, s2)"
  shows "now \<le> TIMEVAL_ADD v now \<and> (\<forall>e. (fired e s1 \<longrightarrow> fired e s2) \<and> (stopped e s1 \<longrightarrow> stopped e s2))"
proof (cases "update t")
  case None
  have "tv_time (tm t)" using cinv_tm [OF c] at cinv_distinct [OF c] by (auto simp: timer_at_Some)
  with None up now show ?thesis by (auto intro: tv_le_add)
next
  case (Some u)
  with up update_ok [OF c at Some] have "tv_time v" by auto
  with Some up now show ?thesis using fired_update [OF c at Some] by (auto intro: tv_le_add)
qed

lemma check_step_live:
  assumes c: "cinv s" and p: "timer_at p s = Some t" and now: "tv_time now"
    and st: "check_step expire_fn update_fn now p s = Inr s'"
  shows "live_post now p s s'"
proof (cases "tm t \<le> now")
  case False
  then have s': "s' = note_head (tm t) s" using st p by (simp add: check_step_def)
  have "t' = t" if "t' \<in> set (timer_list s)" "tid t' = p" for t'
    using timer_at_unique [OF cinv_distinct [OF c] p that] .
  moreover have "t \<in> set (timer_list s)" using p cinv_distinct [OF c] by (simp add: timer_at_Some)
  moreover have "fired e s' = fired e s" "stopped e s' = stopped e s" for e
    unfolding s' note_head_eq fired_store stopped_store by (rule refl)+
  ultimately show ?thesis using False p unfolding live_post_def s' by auto
next
  case True
  obtain alive s1 where ex: "expire_fn (expire t) s = Inr (alive, s1)" and c1: "cinv s1"
    and l1: "timer_list s1 = timer_list s \<or> \<not> alive \<and> timer_list s1 = filter (\<lambda>t. tid t \<noteq> p) (timer_list s)"
    using expire_ok [OF c p] by blast
  have f: "fired (expire t) s1" "\<And>e. fired e s \<Longrightarrow> fired e s1" "\<And>e. stopped e s \<Longrightarrow> stopped e s1" using fires [OF c p ex] fired_expire [OF c p ex] by auto
  show ?thesis
  proof (cases alive)
    case False
    then have "s' = s1" using st p True ex by (simp add: check_step_def)
    moreover have "t' = t" if "t' \<in> set (timer_list s1)" "tid t' = p" for t'
      using l1 that timer_at_unique [OF cinv_distinct [OF c] p, of t'] by auto
    moreover have "p \<notin> set (timer_ids s1) \<or> stopped (expire t) s1" using null_removed [OF c p] ex False by simp
    ultimately show ?thesis using f p True by (auto simp: live_post_def)
  next
    case alive: True
    have at1: "timer_at p s1 = Some t" using l1 alive p by (simp add: timer_at_def)
    obtain v s2 where up: "(case update t of None \<Rightarrow> Inr (tm t, s1) | Some u \<Rightarrow> update_fn u s1) = Inr (v, s2)"
      and s': "s' = note_head (TIMEVAL_ADD v now) (set_tm p (TIMEVAL_ADD v now) s2)"
      using st p True ex alive at1 by (auto simp: check_step_def res_simps Let_def)
    note r = rearm_live [OF c1 at1 now up]
    have "tm t' = TIMEVAL_ADD v now" if "t' \<in> set (timer_list s')" "tid t' = p" for t'
      using that set_tm_same unfolding s' by simp
    moreover have "fired e s' = fired e s2" "stopped e s' = stopped e s2" for e
      unfolding s' note_head_eq fired_store stopped_store by (rule refl)+
    ultimately show ?thesis using r f p True unfolding live_post_def by (auto simp: s')
  qed
qed

text \<open>\<open>T\<close> are the timers linked at the start, and those with address in \<open>D\<close> have been visited.\<close>

definition live_upto :: "timeval \<Rightarrow> ('e, 'u) rtadvd_timer set \<Rightarrow> nat set \<Rightarrow> ('e, 'u, 'z) timers_scheme \<Rightarrow> bool" where
  "live_upto now T D s \<longleftrightarrow>
     (\<forall>t \<in> set (timer_list s). tid t \<in> D \<longrightarrow> now \<le> tm t \<and> timer_head_tm s \<le> tm t \<or> stopped (expire t) s) \<and>
     (\<forall>t \<in> T. if tid t \<in> D \<and> tm t \<le> now then fired (expire t) s else t \<in> set (timer_list s))"

lemma live_upto_step:
  assumes "live_upto now T D s" "step_post now p s s'" "live_post now p s s'" "p \<notin> D" "cinv s"
  shows "live_upto now T (insert p D) s'"
proof -
  have same: "t \<in> set (timer_list s') \<longleftrightarrow> t \<in> set (timer_list s)" if "tid t \<noteq> p" for t
    using assms(2) that by (simp add: step_post_def)
  have hd: "timer_head_tm s' \<le> timer_head_tm s" using assms(2) by (simp add: step_post_def)
  have "now \<le> tm t \<and> timer_head_tm s' \<le> tm t \<or> stopped (expire t) s'" if "t \<in> set (timer_list s')" "tid t \<in> insert p D" for t
  proof (cases "tid t = p")
    case True
    then show ?thesis using assms(3) that(1) unfolding live_post_def by blast
  next
    case False
    then have "now \<le> tm t \<and> timer_head_tm s \<le> tm t \<or> stopped (expire t) s"
      using assms(1) that same [OF False] unfolding live_upto_def by blast
    moreover have "stopped (expire t) s \<Longrightarrow> stopped (expire t) s'" using assms(3) by (simp add: live_post_def)
    ultimately show ?thesis using hd by (meson order_trans)
  qed
  moreover have "if tid t \<in> insert p D \<and> tm t \<le> now then fired (expire t) s' else t \<in> set (timer_list s')" if "t \<in> T" for t
  proof (cases "tid t = p")
    case True
    then have "t \<in> set (timer_list s)" using assms(1,4) that by (simp add: live_upto_def)
    then have "timer_at p s = Some t" using cinv_distinct [OF assms(5)] True by (simp add: timer_at_Some)
    then show ?thesis using assms(3) True unfolding live_post_def by simp
  next
    case False
    then show ?thesis using assms(1,3) that same [OF False] unfolding live_upto_def live_post_def by (auto split: if_splits)
  qed
  ultimately show ?thesis unfolding live_upto_def by blast
qed

lemma visit_all_live:
  "cinv s \<Longrightarrow> tv_time now \<Longrightarrow> timer_ids s = pre @ rem \<Longrightarrow> set pre \<subseteq> D \<Longrightarrow> D \<inter> set rem = {} \<Longrightarrow>
   live_upto now T D s \<Longrightarrow> visit_all expire_fn update_fn now rem s = Inr s' \<Longrightarrow>
   live_upto now T (D \<union> set rem) s' \<and> set (timer_ids s') \<subseteq> D \<union> set rem"
proof (induction rem arbitrary: pre D s)
  case (Cons p rest)
  have dist: "distinct (pre @ p # rest)"
    using cinv_distinct [OF Cons.prems(1)] Cons.prems(3) by simp
  have p: "p \<in> set (timer_ids s)" using Cons.prems(3) by simp
  obtain t where t: "timer_at p s = Some t" using timer_at_ex [OF p] by blast
  obtain s1 where st: "check_step expire_fn update_fn now p s = Inr s1" and po: "step_post now p s s1"
    using check_step_ok [OF Cons.prems(1) p Cons.prems(2)] by blast
  have lv: "live_post now p s s1" by (rule check_step_live [OF Cons.prems(1) t Cons.prems(2) st])
  have c1: "cinv s1" using po by (simp add: step_post_def)
  have D: "insert p D \<inter> set rest = {}" "p \<notin> D" using Cons.prems(5) dist by auto
  have up: "live_upto now T (insert p D) s1" by (rule live_upto_step [OF Cons.prems(6) po lv D(2) Cons.prems(1)])
  have pre: "set (pre @ [p]) \<subseteq> insert p D" "set pre \<subseteq> insert p D" using Cons.prems(4) by auto
  have v: "visit_all expire_fn update_fn now rest s1 = Inr s'" using Cons.prems(7) st by simp
  have "live_upto now T (insert p D \<union> set rest) s' \<and> set (timer_ids s') \<subseteq> insert p D \<union> set rest"
    using step_post_ids [OF po Cons.prems(1,3)] Cons.IH [OF c1 Cons.prems(2) _ pre(1) D(1) up v]
      Cons.IH [OF c1 Cons.prems(2) _ pre(2) D(1) up v] by auto
  then show ?case by simp
qed auto

lemma check_timer_live:
  assumes c: "cinv s" and now: "now = fst (gettimeofday s)"
  shows "\<exists>r s'. rtadvd_check_timer expire_fn update_fn s = Inr (r, s') \<and> cinv s' \<and>
    (\<forall>t \<in> set (timer_list s). if tm t \<le> now then fired (expire t) s' else t \<in> set (timer_list s')) \<and>
    (case r of
       None \<Rightarrow> \<forall>t \<in> set (timer_list s'). tm_max \<le> tm t \<or> stopped (expire t) s'
     | Some d \<Rightarrow> tv_ok d \<and> (\<forall>t \<in> set (timer_list s'). usecs now + usecs d \<le> usecs (tm t) \<or> stopped (expire t) s') \<and>
         (\<exists>t \<in> set (timer_list s'). usecs d = usecs (tm t) - usecs now))"
proof -
  let ?s2 = "(snd (gettimeofday s))\<lparr>timer_head_tm := tm_max\<rparr>"
  have c2: "cinv ?s2" using c by (simp add: gettimeofday_def cinv_tick cinv_head)
  have ntime: "tv_time now" using c now by (simp add: cinv_gtod)
  obtain r s' where rs: "rtadvd_check_timer expire_fn update_fn s = Inr (r, s')" "cinv s'" "next_wait now s' r"
    using check_timer_ok [OF c now] by blast
  then have v: "visit_all expire_fn update_fn now (timer_ids s) ?s2 = Inr s'"
    and r: "r = (if tm_max = timer_head_tm s' then None else if timer_head_tm s' < now then Some (Timeval 0 0)
      else Some (TIMEVAL_SUB (timer_head_tm s') now))"
    unfolding check_timer_eq [OF c now] by (auto simp: res_simps)
  have "live_upto now (set (timer_list s)) {} ?s2" by (simp add: live_upto_def)
  then have up: "live_upto now (set (timer_list s)) (set (timer_ids s)) s'" "set (timer_ids s') \<subseteq> set (timer_ids s)"
    using visit_all_live [OF c2 ntime, of "[]" "timer_ids s" "{}"] v by auto
  then have low: "now \<le> tm t" "timer_head_tm s' \<le> tm t" if "t \<in> set (timer_list s')" "\<not> stopped (expire t) s'" for t
    using that by (auto simp: live_upto_def)
  have all: "if tm t \<le> now then fired (expire t) s' else t \<in> set (timer_list s')" if "t \<in> set (timer_list s)" for t
    using up(1) that by (auto simp: live_upto_def split: if_splits)
  have ok: "tv_ok (tm t)" if "t \<in> set (timer_list s')" for t using cinv_tm [OF rs(2) that] tv_timeD by blast
  have "case r of
       None \<Rightarrow> \<forall>t \<in> set (timer_list s'). tm_max \<le> tm t \<or> stopped (expire t) s'
     | Some d \<Rightarrow> tv_ok d \<and> (\<forall>t \<in> set (timer_list s'). usecs now + usecs d \<le> usecs (tm t) \<or> stopped (expire t) s') \<and>
         (\<exists>t \<in> set (timer_list s'). usecs d = usecs (tm t) - usecs now)"
  proof (cases r)
    case None
    with r low(2) show ?thesis by (auto split: if_splits)
  next
    case (Some d)
    from rs(3) Some obtain t where t: "t \<in> set (timer_list s')" "usecs d = usecs (tm t) - usecs now" "tv_ok d"
      by (auto simp: next_wait_def)
    have "usecs now + usecs d \<le> usecs (tm u)" if u: "u \<in> set (timer_list s')" "\<not> stopped (expire u) s'" for u
    proof (cases "tm u \<le> now")
      case True
      with low [OF u] have "tm u = now" "timer_head_tm s' \<le> now" by auto
      moreover then have "usecs d = 0" using r Some by (auto split: if_splits)
      ultimately show ?thesis by simp
    next
      case False
      with rs(3) Some u show ?thesis by (auto simp: next_wait_def)
    qed
    with Some t show ?thesis by fastforce
  qed
  with rs(1,2) all show ?thesis by blast
qed

end

end
