(* ===== verification/Rainfo.thy ===== *)
theory Rainfo
  imports Addresses Timers
begin

text \<open>
  The data of an advertising interface (\<open>src/rtadvd.tproj/rtadvd.h\<close>): advertised prefixes,
  routes, and \<open>struct rainfo\<close> itself. The circular lists headed by \<open>prefix\<close>, \<open>route\<close>,
  \<open>rdnss_list\<close> and \<open>dnssl_list\<close> are HOL lists in link order, a node that other objects
  point to (a prefix or an interface, from a timer) carries its address as \<open>pfx_id\<close> or
  \<open>rai_id\<close>, and a pointer to a timer is its address or \<open>None\<close> for null. The back pointer of a prefix to
  its interface is the list it is in.
\<close>

datatype prefix_origin = PREFIX_FROM_KERNEL | PREFIX_FROM_CONFIG | PREFIX_FROM_DYNAMIC

record prefix =
  pfx_id :: nat
  pfx_timer :: "nat option"
  validlifetime :: u32
  vltimeexpire :: int
  preflifetime :: u32
  pltimeexpire :: int
  onlinkflg :: u32
  autoconfflg :: u32
  pfx_prefixlen :: nat
  origin :: prefix_origin
  pfx_prefix :: in6_addr

record rtinfo =
  ltime :: u32
  rti_rtpref :: u32
  rti_prefixlen :: nat
  rti_prefix :: in6_addr

record sockaddr_dl =
  sdl_index :: int
  sdl_type :: byte
  sdl_lladdr :: "byte list"

record rainfo =
  rai_id :: nat
  rai_timer :: "nat option"
  initcounter :: int
  lastsent :: timeval
  waiting :: int
  ifindex :: int
  advlinkopt :: bool
  sdl :: "sockaddr_dl option"
  ifname :: string
  phymtu :: int
  lifetime :: u16
  maxinterval :: u32
  mininterval :: u32
  managedflg :: int
  otherflg :: int
  rtpref :: int
  linkmtu :: u32
  reachabletime :: u32
  retranstimer :: u32
  hoplimit :: u32
  prefix_list :: "prefix list"
  pfxs :: int
  clockskew :: int
  route_list :: "rtinfo list"
  routes :: int
  rdnss_list :: "in6_addr list"
  rdnss_length :: int
  rdnss_lifetime :: u32
  dnssl_list :: "string list"
  dnssl_length :: int
  dnssl_lifetime :: u32
  dnssl_option_length :: u32
  capport :: "string option"
  capport_length :: u32
  capport_option_length :: u32
  pref64_specified :: bool
  pref64_prefix_length :: byte
  pref64_lifetime_plc :: u16
  pref64_addr :: in6_addr
  ra_datalen :: nat
  ra_data :: "byte list option"
  raoutput :: nat
  rainput :: nat
  rainconsistent :: nat
  rsinput :: nat
  soliciter :: "in6_addr list"

definition find_prefix :: "rainfo \<Rightarrow> in6_addr \<Rightarrow> nat \<Rightarrow> prefix option" where
  "find_prefix rai p plen =
     find (\<lambda>pp. plen = pfx_prefixlen pp \<and> prefix_cmp p (pfx_prefix pp) plen) (prefix_list rai)"

text \<open>A prefix as an address and a length; what the list promises about each of its nodes.\<close>

definition prefix_ok :: "prefix \<Rightarrow> bool" where
  "prefix_ok pp \<longleftrightarrow> in6_ok (pfx_prefix pp) \<and> pfx_prefixlen pp \<le> 128"

definition same_prefix :: "in6_addr \<Rightarrow> nat \<Rightarrow> prefix \<Rightarrow> bool" where
  "same_prefix p plen pp \<longleftrightarrow>
     pfx_prefixlen pp = plen \<and> take plen (addr_bits (pfx_prefix pp)) = take plen (addr_bits p)"

section \<open>Lookup\<close>

lemma find_prefix_Some:
  "find_prefix rai p plen = Some pp \<Longrightarrow> pp \<in> set (prefix_list rai) \<and> pfx_prefixlen pp = plen \<and>
     prefix_cmp p (pfx_prefix pp) plen"
  by (auto simp: find_prefix_def find_Some_iff)

lemma find_prefix_None:
  "find_prefix rai p plen = None \<longleftrightarrow>
     (\<forall>pp \<in> set (prefix_list rai). \<not> (pfx_prefixlen pp = plen \<and> prefix_cmp p (pfx_prefix pp) plen))"
  by (auto simp: find_prefix_def find_None_iff)

lemma same_prefix_cmp:
  "prefix_ok pp \<Longrightarrow> in6_ok p \<Longrightarrow>
   same_prefix p plen pp \<longleftrightarrow> pfx_prefixlen pp = plen \<and> prefix_cmp p (pfx_prefix pp) plen"
  unfolding same_prefix_def prefix_ok_def using prefix_cmp_bits by metis

lemma find_cong_on: "(\<And>x. x \<in> set xs \<Longrightarrow> P x = Q x) \<Longrightarrow> find P xs = find Q xs"
  by (induction xs) auto

lemma find_prefix_spec:
  assumes "\<forall>pp \<in> set (prefix_list rai). prefix_ok pp" "in6_ok p"
  shows "find_prefix rai p plen = find (same_prefix p plen) (prefix_list rai)"
  unfolding find_prefix_def using assms same_prefix_cmp by (intro find_cong_on) metis

end
