(* ===== verification/Tlv.thy ===== *)
theory Tlv
  imports Prelude
begin

text \<open>
  Buffers of messages that each carry their own length: neighbour discovery options
  (\<open>nd6_options\<close>), prefix control operations (\<open>do_rr\<close>) and the walkers over them share one
  shape, \<open>next += len\<close>. \<open>tlv_split\<close> is what such a buffer means: the list of its messages,
  or nothing when a header or a body does not fit or a length is zero. The locale
  \<open>tlv_format\<close> states what a message format promises, namely that the length is in the
  header and covers it, and proves once that splitting inverts concatenation.
\<close>

function tlv_split :: "nat \<Rightarrow> (byte list \<Rightarrow> nat) \<Rightarrow> byte list \<Rightarrow> byte list list option" where
  "tlv_split hdr mlen bs =
     (if bs = [] then Some []
      else if length bs < hdr \<or> mlen bs = 0 \<or> length bs < mlen bs then None
      else map_option ((#) (take (mlen bs) bs)) (tlv_split hdr mlen (drop (mlen bs) bs)))"
  by pat_completeness auto
termination
  by (relation "measure (\<lambda>(h, m, bs). length bs)") (auto simp: not_less)

declare tlv_split.simps [simp del]

locale tlv_format =
  fixes hdr :: nat
    and mlen :: "byte list \<Rightarrow> nat"
  assumes hdr_pos: "0 < hdr"
    and mlen_local: "hdr \<le> length bs \<Longrightarrow> mlen (bs @ cs) = mlen bs"
begin

definition msg_ok :: "byte list \<Rightarrow> bool" where
  "msg_ok m \<longleftrightarrow> hdr \<le> length m \<and> mlen m = length m"

lemma split_concat: "(\<forall>m \<in> set ms. msg_ok m) \<Longrightarrow> tlv_split hdr mlen (concat ms) = Some ms"
proof (induction ms)
  case Nil
  then show ?case by (simp add: tlv_split.simps)
next
  case (Cons m ms)
  then have m: "hdr \<le> length m" "mlen m = length m" "0 < length m"
    using hdr_pos by (auto simp: msg_ok_def)
  then have "mlen (m @ concat ms) = length m" by (simp add: mlen_local)
  with m Cons show ?case
    by (simp add: tlv_split.simps [of hdr mlen "m @ concat ms"])
qed

lemma split_sound:
  "tlv_split hdr mlen bs = Some ms \<Longrightarrow> concat ms = bs \<and> (\<forall>m \<in> set ms. 0 < length m)"
proof (induction bs arbitrary: ms rule: length_induct)
  case (1 bs)
  show ?case
  proof (cases "bs = []")
    case True
    with "1.prems" show ?thesis by (simp add: tlv_split.simps)
  next
    case False
    with "1.prems" obtain ms' where ms': "tlv_split hdr mlen (drop (mlen bs) bs) = Some ms'"
      and ms: "ms = take (mlen bs) bs # ms'" and n: "0 < mlen bs" "mlen bs \<le> length bs"
      by (auto simp: tlv_split.simps [of hdr mlen bs] split: if_splits)
    have "length (drop (mlen bs) bs) < length bs"
      using n by simp
    then have "concat ms' = drop (mlen bs) bs \<and> (\<forall>m \<in> set ms'. 0 < length m)"
      using "1.IH" ms' by blast
    then show ?thesis
      using ms n by auto
  qed
qed

lemma split_msg_ok:
  assumes "tlv_split hdr mlen bs = Some ms"
    and cover: "\<And>b. hdr \<le> length b \<Longrightarrow> mlen b \<noteq> 0 \<Longrightarrow> hdr \<le> mlen b"
  shows "\<forall>m \<in> set ms. msg_ok m"
  using assms(1)
proof (induction bs arbitrary: ms rule: length_induct)
  case (1 bs)
  show ?case
  proof (cases "bs = []")
    case True
    with "1.prems" show ?thesis by (simp add: tlv_split.simps)
  next
    case False
    with "1.prems" obtain ms' where ms': "tlv_split hdr mlen (drop (mlen bs) bs) = Some ms'"
      and ms: "ms = take (mlen bs) bs # ms'"
      and n: "hdr \<le> length bs" "0 < mlen bs" "mlen bs \<le> length bs"
      by (auto simp: tlv_split.simps [of hdr mlen bs] split: if_splits)
    have "mlen (take (mlen bs) bs) = mlen bs"
      using mlen_local [of "take (mlen bs) bs" "drop (mlen bs) bs"] n cover [of bs] by simp
    then have "msg_ok (take (mlen bs) bs)"
      using n cover [of bs] by (simp add: msg_ok_def)
    moreover have "length (drop (mlen bs) bs) < length bs"
      using n by simp
    then have "\<forall>m \<in> set ms'. msg_ok m"
      using "1.IH" ms' by blast
    ultimately show ?thesis
      using ms by simp
  qed
qed

end

end
