(* ===== verification/Ndopts.thy ===== *)
theory Ndopts
  imports Tlv
begin

text \<open>
  Neighbour discovery options (\<open>src/rtadvd.tproj/rtadvd.c\<close>, \<open>nd6_options\<close> and
  \<open>free_ndopts\<close>). The bytes behind the ICMPv6 header are a buffer of options, each with
  its length in units of eight bytes in its second byte. An option is kept as its bytes,
  where the code keeps a pointer into the buffer. A null pointer in \<open>union nd_opts\<close> is
  \<open>None\<close>. The lemmas show that the loop ends on every input, reads inside the buffer,
  accepts exactly the concatenations of well-formed options, and which options it keeps.
\<close>

abbreviation (input) ND_OPT_SOURCE_LINKADDR :: byte where "ND_OPT_SOURCE_LINKADDR \<equiv> 1"
abbreviation (input) ND_OPT_TARGET_LINKADDR :: byte where "ND_OPT_TARGET_LINKADDR \<equiv> 2"
abbreviation (input) ND_OPT_PREFIX_INFORMATION :: byte where "ND_OPT_PREFIX_INFORMATION \<equiv> 3"
abbreviation (input) ND_OPT_REDIRECTED_HEADER :: byte where "ND_OPT_REDIRECTED_HEADER \<equiv> 4"
abbreviation (input) ND_OPT_MTU :: byte where "ND_OPT_MTU \<equiv> 5"

abbreviation (input) NDOPT_FLAG_SRCLINKADDR :: u32 where "NDOPT_FLAG_SRCLINKADDR \<equiv> 0x1"
abbreviation (input) NDOPT_FLAG_TGTLINKADDR :: u32 where "NDOPT_FLAG_TGTLINKADDR \<equiv> 0x2"
abbreviation (input) NDOPT_FLAG_PREFIXINFO :: u32 where "NDOPT_FLAG_PREFIXINFO \<equiv> 0x4"
abbreviation (input) NDOPT_FLAG_RDHDR :: u32 where "NDOPT_FLAG_RDHDR \<equiv> 0x8"
abbreviation (input) NDOPT_FLAG_MTU :: u32 where "NDOPT_FLAG_MTU \<equiv> 0x10"

definition ndopt_flags :: "u32 list" where
  "ndopt_flags = [0, NDOPT_FLAG_SRCLINKADDR, NDOPT_FLAG_TGTLINKADDR,
     NDOPT_FLAG_PREFIXINFO, NDOPT_FLAG_RDHDR, NDOPT_FLAG_MTU]"

record nd_opts =
  nd_opts_src_lladdr :: "byte list option"
  nd_opts_mtu :: "byte list option"
  nd_opts_pi :: "byte list option"
  nd_opts_list :: "byte list list"

definition nd_opts_zero :: nd_opts where
  "nd_opts_zero = \<lparr>nd_opts_src_lladdr = None, nd_opts_mtu = None, nd_opts_pi = None, nd_opts_list = []\<rparr>"

text \<open>
  The part of the loop's body behind the length checks, for the option \<open>hdr\<close> of \<open>optlen\<close>
  bytes: \<open>continue\<close> keeps \<open>ndopts\<close> as it is.
\<close>

definition nd6_option :: "u32 \<Rightarrow> byte list \<Rightarrow> nd_opts \<Rightarrow> nd_opts" where
  "nd6_option optflags hdr ndopts =
     (let nd_opt_type = hdr ! 0; optlen = length hdr
      in if nd_opt_type > ND_OPT_MTU then ndopts
         else if ndopt_flags ! unat nd_opt_type AND optflags = 0 then ndopts
         else if (nd_opt_type = ND_OPT_MTU \<and> optlen \<noteq> 8) \<or>
                 (nd_opt_type = ND_OPT_PREFIX_INFORMATION \<and> optlen \<noteq> 32) then ndopts
         else if nd_opt_type = ND_OPT_TARGET_LINKADDR \<or> nd_opt_type = ND_OPT_REDIRECTED_HEADER then ndopts
         else if nd_opt_type = ND_OPT_SOURCE_LINKADDR then ndopts\<lparr>nd_opts_src_lladdr := Some hdr\<rparr>
         else if nd_opt_type = ND_OPT_MTU then ndopts\<lparr>nd_opts_mtu := Some hdr\<rparr>
         else if nd_opt_type = ND_OPT_PREFIX_INFORMATION then
           (case nd_opts_pi ndopts of
              None \<Rightarrow> ndopts\<lparr>nd_opts_pi := Some hdr\<rparr>
            | Some _ \<Rightarrow> ndopts\<lparr>nd_opts_list := hdr # nd_opts_list ndopts\<rparr>)
         else ndopts)"

text \<open>
  \<open>bs\<close> is the rest of the buffer: \<open>limit\<close> is its length and \<open>hdr\<close> its start. \<open>None\<close> is the
  label \<open>bad\<close> and the result \<open>-1\<close>, where the options collected so far are freed.
\<close>

function nd6_options_loop :: "u32 \<Rightarrow> byte list \<Rightarrow> nd_opts \<Rightarrow> nd_opts option" where
  "nd6_options_loop optflags bs ndopts =
     (if \<not> 0 < length bs then Some ndopts
      else if length bs < 2 then None
      else if bs ! 1 = 0 then None
      else let optlen = 8 * unat (bs ! 1)
           in if length bs < optlen then None
              else nd6_options_loop optflags (drop optlen bs) (nd6_option optflags (take optlen bs) ndopts))"
  by pat_completeness auto
termination
  by (relation "measure (\<lambda>(fl, bs, nd). length bs)") (auto simp: unat_gt_0)

declare nd6_options_loop.simps [simp del]

definition nd6_options :: "byte list \<Rightarrow> u32 \<Rightarrow> nd_opts option" where
  "nd6_options bs optflags = nd6_options_loop optflags bs nd_opts_zero"

definition free_ndopts :: "nd_opts \<Rightarrow> nd_opts" where
  "free_ndopts ndopts = ndopts\<lparr>nd_opts_list := []\<rparr>"

section \<open>Options as self-delimiting messages\<close>

definition opt_len :: "byte list \<Rightarrow> nat" where
  "opt_len bs = 8 * unat (bs ! 1)"

interpretation opts: tlv_format 2 opt_len
  by unfold_locales (auto simp: opt_len_def nth_append)

lemma opt_len_cover: "2 \<le> length b \<Longrightarrow> opt_len b \<noteq> 0 \<Longrightarrow> 2 \<le> opt_len b"
  by (simp add: opt_len_def)

lemma nd6_options_loop_eq:
  "nd6_options_loop fl bs nd =
     (if bs = [] then Some nd
      else if length bs < 2 \<or> opt_len bs = 0 \<or> length bs < opt_len bs then None
      else nd6_options_loop fl (drop (opt_len bs) bs) (nd6_option fl (take (opt_len bs) bs) nd))"
  by (subst nd6_options_loop.simps) (auto simp: opt_len_def Let_def unat_eq_0)

lemma nd6_options_loop_split:
  "nd6_options_loop fl bs nd = map_option (\<lambda>os. fold (nd6_option fl) os nd) (tlv_split 2 opt_len bs)"
proof (induction bs arbitrary: nd rule: length_induct)
  case (1 bs)
  show ?case
  proof (cases "bs = [] \<or> length bs < 2 \<or> opt_len bs = 0 \<or> length bs < opt_len bs")
    case True
    then show ?thesis
      by (auto simp: nd6_options_loop_eq [of fl bs] tlv_split.simps [of 2 opt_len bs])
  next
    case False
    then have "length (drop (opt_len bs) bs) < length bs" by simp
    with "1.IH" False show ?thesis
      by (simp add: nd6_options_loop_eq [of fl bs] tlv_split.simps [of 2 opt_len bs]
          option.map_comp o_def)
  qed
qed

lemma nd6_options_split:
  "nd6_options bs fl = map_option (\<lambda>os. fold (nd6_option fl) os nd_opts_zero) (tlv_split 2 opt_len bs)"
  by (simp add: nd6_options_def nd6_options_loop_split)

lemma nd6_options_concat:
  "\<forall>m \<in> set ms. opts.msg_ok m \<Longrightarrow>
   nd6_options (concat ms) fl = Some (fold (nd6_option fl) ms nd_opts_zero)"
  by (simp add: nd6_options_split opts.split_concat)

text \<open>Which prefix information options survive: the first one apart, the others reversed.\<close>

definition is_pi :: "byte list \<Rightarrow> bool" where
  "is_pi hdr \<longleftrightarrow> hdr ! 0 = ND_OPT_PREFIX_INFORMATION \<and> length hdr = 32"

lemma nd6_option_pi:
  assumes "fl AND NDOPT_FLAG_PREFIXINFO \<noteq> 0"
  shows "nd_opts_pi (nd6_option fl h o0) =
      (if is_pi h \<and> nd_opts_pi o0 = None then Some h else nd_opts_pi o0)"
    and "nd_opts_list (nd6_option fl h o0) =
      (if is_pi h \<and> nd_opts_pi o0 \<noteq> None then h # nd_opts_list o0 else nd_opts_list o0)"
  using assms
  by (auto simp: nd6_option_def is_pi_def ndopt_flags_def Let_def and.commute split: option.splits)

lemma fold_nd6_option_pi_Some:
  "fl AND NDOPT_FLAG_PREFIXINFO \<noteq> 0 \<Longrightarrow> nd_opts_pi o0 = Some p \<Longrightarrow>
   nd_opts_pi (fold (nd6_option fl) os o0) = Some p \<and>
   nd_opts_list (fold (nd6_option fl) os o0) = rev (filter is_pi os) @ nd_opts_list o0"
  by (induction os arbitrary: o0) (simp_all add: nd6_option_pi)

lemma fold_nd6_option_pi:
  "fl AND NDOPT_FLAG_PREFIXINFO \<noteq> 0 \<Longrightarrow> nd_opts_pi o0 = None \<Longrightarrow> nd_opts_list o0 = [] \<Longrightarrow>
   (case filter is_pi os of
      [] \<Rightarrow> nd_opts_pi (fold (nd6_option fl) os o0) = None \<and> nd_opts_list (fold (nd6_option fl) os o0) = []
    | h # hs \<Rightarrow> nd_opts_pi (fold (nd6_option fl) os o0) = Some h \<and>
        nd_opts_list (fold (nd6_option fl) os o0) = rev hs)"
proof (induction os arbitrary: o0)
  case Nil
  then show ?case by simp
next
  case (Cons h os)
  show ?case
  proof (cases "is_pi h")
    case True
    with Cons.prems fold_nd6_option_pi_Some [of fl "nd6_option fl h o0" h os] show ?thesis
      by (simp add: nd6_option_pi)
  next
    case False
    with Cons.prems Cons.IH [of "nd6_option fl h o0"] show ?thesis
      by (simp add: nd6_option_pi split: list.splits)
  qed
qed

end
