(* ===== verification/Packet.thy ===== *)
theory Packet
  imports Rainfo Ndopts
begin

text \<open>
  Construction of the router advertisement (\<open>src/rtadvd.tproj/config.c\<close>, \<open>make_packet\<close> and
  \<open>encode_domain\<close>; \<open>src/rtadvd.tproj/if.c\<close>, \<open>lladdropt_length\<close> and \<open>lladdropt_fill\<close>). Each
  option the function writes is a definition of its own; \<open>make_packet\<close> first computes the
  packet's length, then lays the options out, and compares. A write past the computed
  length stops as \<open>OutOfBounds\<close>, and a packet that is too short as \<open>Exit 1\<close>, the check at the
  end of the C function.

  The lemmas show that neither happens for an interface that satisfies \<open>rainfo_wf\<close>, that an
  encoded domain list fits the space reserved for it, and that the packet's options are
  read back by \<open>nd6_options\<close>.
\<close>

abbreviation (input) ND_ROUTER_ADVERT :: byte where "ND_ROUTER_ADVERT \<equiv> 134"
abbreviation (input) ND_OPT_ROUTE_INFO :: byte where "ND_OPT_ROUTE_INFO \<equiv> 24"
abbreviation (input) ND_OPT_RDNSS :: byte where "ND_OPT_RDNSS \<equiv> 25"
abbreviation (input) ND_OPT_DNSSL :: byte where "ND_OPT_DNSSL \<equiv> 31"
abbreviation (input) ND_OPT_CAPTIVE_PORTAL :: byte where "ND_OPT_CAPTIVE_PORTAL \<equiv> 37"
abbreviation (input) ND_OPT_PREF64 :: byte where "ND_OPT_PREF64 \<equiv> 38"
abbreviation (input) ND_OPT_PI_FLAG_ONLINK :: byte where "ND_OPT_PI_FLAG_ONLINK \<equiv> 0x80"
abbreviation (input) ND_OPT_PI_FLAG_AUTO :: byte where "ND_OPT_PI_FLAG_AUTO \<equiv> 0x40"
abbreviation (input) ND_RA_FLAG_MANAGED :: byte where "ND_RA_FLAG_MANAGED \<equiv> 0x80"
abbreviation (input) ND_RA_FLAG_OTHER :: byte where "ND_RA_FLAG_OTHER \<equiv> 0x40"
abbreviation (input) IFT_ETHER :: byte where "IFT_ETHER \<equiv> 6"
abbreviation (input) ETHER_ADDR_LEN :: nat where "ETHER_ADDR_LEN \<equiv> 6"

section \<open>The link-layer address option\<close>

definition ROUNDUP8 :: "nat \<Rightarrow> nat" where
  "ROUNDUP8 a = 1 + ((a - 1) OR 7)"

definition lladdropt_length :: "sockaddr_dl \<Rightarrow> nat" where
  "lladdropt_length d = (if sdl_type d = IFT_ETHER then ROUNDUP8 (ETHER_ADDR_LEN + 2) else 0)"

definition lladdropt_fill :: "sockaddr_dl \<Rightarrow> byte list result" where
  "lladdropt_fill d =
     (if sdl_type d = IFT_ETHER then
        if length (sdl_lladdr d) < ETHER_ADDR_LEN then Inl OutOfBounds
        else Inr ([ND_OPT_SOURCE_LINKADDR, of_nat (drop_bit 3 (ROUNDUP8 (ETHER_ADDR_LEN + 2)))] @
                  take ETHER_ADDR_LEN (sdl_lladdr d))
      else Inl (Exit 1))"

section \<open>Domain names\<close>

text \<open>The labels \<open>strsep(&input, ".")\<close> returns, the empty ones included.\<close>

fun strsep_dots :: "string \<Rightarrow> string list" where
  "strsep_dots [] = [[]]"
| "strsep_dots (c # cs) =
     (if c = CHR ''.'' then [] # strsep_dots cs
      else case strsep_dots cs of [] \<Rightarrow> [[c]] | l # ls \<Rightarrow> (c # l) # ls)"

definition encode_label :: "string \<Rightarrow> byte list" where
  "encode_label label =
     (let label_len = length label AND 0x3f
      in if label_len > 0 then of_nat label_len # map of_char (take label_len label) else [])"

definition encode_domain :: "string \<Rightarrow> byte list" where
  "encode_domain domain = concat (map encode_label (strsep_dots domain)) @ [0]"

section \<open>The options of an advertisement\<close>

definition ra_header :: "rainfo \<Rightarrow> byte list" where
  "ra_header rai =
     [ND_ROUTER_ADVERT, 0, 0, 0,
      ucast (0xff AND hoplimit rai),
      (word_of_int (rtpref rai) OR
       (if managedflg rai \<noteq> 0 then ND_RA_FLAG_MANAGED else 0)) OR
       (if otherflg rai \<noteq> 0 then ND_RA_FLAG_OTHER else 0)] @
     be16 (lifetime rai) @ be32 (reachabletime rai) @ be32 (retranstimer rai)"

definition mtu_option :: "rainfo \<Rightarrow> byte list" where
  "mtu_option rai = [ND_OPT_MTU, 1, 0, 0] @ be32 (linkmtu rai)"

definition pi_lifetimes :: "timeval \<Rightarrow> prefix \<Rightarrow> u32 \<times> u32" where
  "pi_lifetimes now pfx =
     (let vltime =
            (if pfx_timer pfx \<noteq> None then 0
             else if vltimeexpire pfx = 0 then validlifetime pfx
             else if vltimeexpire pfx > tv_sec now then word_of_int (vltimeexpire pfx - tv_sec now) else 0);
          pltime =
            (if pfx_timer pfx \<noteq> None then 0
             else if pltimeexpire pfx = 0 then preflifetime pfx
             else if pltimeexpire pfx > tv_sec now then word_of_int (pltimeexpire pfx - tv_sec now) else 0)
      in (vltime, if vltime < pltime then vltime else pltime))"

definition prefix_option :: "timeval \<Rightarrow> prefix \<Rightarrow> byte list" where
  "prefix_option now pfx =
     (let (vltime, pltime) = pi_lifetimes now pfx
      in [ND_OPT_PREFIX_INFORMATION, 4, of_nat (pfx_prefixlen pfx),
          (if onlinkflg pfx \<noteq> 0 then ND_OPT_PI_FLAG_ONLINK else 0) OR
          (if autoconfflg pfx \<noteq> 0 then ND_OPT_PI_FLAG_AUTO else 0)] @
         be32 vltime @ be32 pltime @ be32 0 @ pfx_prefix pfx)"

text \<open>The clock is read once for each prefix whose lifetime is decremented in real time.\<close>

definition reads_clock :: "prefix \<Rightarrow> bool" where
  "reads_clock pfx \<longleftrightarrow> pfx_timer pfx = None \<and> (vltimeexpire pfx \<noteq> 0 \<or> pltimeexpire pfx \<noteq> 0)"

fun prefix_options :: "prefix list \<Rightarrow> ('e, 'u, 'z) timers_scheme \<Rightarrow> byte list list \<times> ('e, 'u, 'z) timers_scheme" where
  "prefix_options [] s = ([], s)"
| "prefix_options (pfx # ps) s =
     (let (now, s1) = (if reads_clock pfx then gettimeofday s else (Timeval 0 0, s));
          (os, s2) = prefix_options ps s1
      in (prefix_option now pfx # os, s2))"

definition rti_psize :: "rtinfo \<Rightarrow> nat" where
  "rti_psize rti = drop_bit 6 (rti_prefixlen rti + 0x3f)"

definition route_option :: "rtinfo \<Rightarrow> byte list" where
  "route_option rti =
     [ND_OPT_ROUTE_INFO, 1 + of_nat (rti_psize rti), of_nat (rti_prefixlen rti),
      ucast (0xff AND rti_rtpref rti)] @
     be32 (ltime rti) @ take (rti_psize rti * 8) (rti_prefix rti)"

definition rdnss_option :: "rainfo \<Rightarrow> byte list" where
  "rdnss_option rai =
     [ND_OPT_RDNSS, word_of_int (1 + rdnss_length rai * 2), 0, 0] @
     be32 (rdnss_lifetime rai) @ concat (rdnss_list rai)"

definition dnssl_option :: "rainfo \<Rightarrow> byte list result" where
  "dnssl_option rai =
     (let optlen = unat (dnssl_option_length rai);
          body = [ND_OPT_DNSSL, ucast (drop_bit 3 (dnssl_option_length rai)), 0, 0] @
                 be32 (dnssl_lifetime rai) @ concat (map encode_domain (dnssl_list rai))
      in if optlen < length body then Inl OutOfBounds
         else Inr (body @ replicate (optlen - length body) 0))"

definition capport_option :: "rainfo \<Rightarrow> string \<Rightarrow> byte list" where
  "capport_option rai url =
     [ND_OPT_CAPTIVE_PORTAL, ucast (drop_bit 3 (capport_option_length rai))] @
     map of_char (take (unat (capport_length rai)) url) @
     replicate (unat (capport_option_length rai - 2 - capport_length rai)) 0"

definition pref64_option :: "rainfo \<Rightarrow> byte list" where
  "pref64_option rai =
     (let prefix_length_bytes = pref64_prefix_length rai div 8;
          zero_bytes = 12 - prefix_length_bytes
      in [ND_OPT_PREF64, 2] @ be16 (pref64_lifetime_plc rai) @
         take (unat prefix_length_bytes) (pref64_addr rai) @ replicate (unat zero_bytes) 0)"

section \<open>The packet\<close>

text \<open>The length computed before the buffer is allocated.\<close>

definition packet_length :: "rainfo \<Rightarrow> nat \<Rightarrow> int" where
  "packet_length rai lladdroptlen =
     16 + (if advlinkopt rai then int lladdroptlen else 0)
     + (if pfxs rai \<noteq> 0 then 32 * pfxs rai else 0)
     + (if linkmtu rai \<noteq> 0 then 8 else 0)
     + (\<Sum>rti\<leftarrow>route_list rai. 8 + int (rti_psize rti) * 8)
     + (if rdnss_length rai > 0 then 8 + 16 * rdnss_length rai else 0)
     + (if dnssl_length rai > 0 then uint (dnssl_option_length rai) else 0)
     + (if capport_option_length rai \<noteq> 0 then uint (capport_option_length rai) else 0)
     + (if pref64_specified rai then 16 else 0)"

text \<open>The options in the order they are written; \<open>rai\<close> has \<open>advlinkopt\<close> already settled.\<close>

definition packet_options ::
    "rainfo \<Rightarrow> ('e, 'u, 'z) timers_scheme \<Rightarrow> (byte list list \<times> ('e, 'u, 'z) timers_scheme) result" where
  "packet_options rai s =
     bind_r (if advlinkopt rai then
               (case sdl rai of None \<Rightarrow> Inl NullDeref | Some d \<Rightarrow> bind_r (lladdropt_fill d) (\<lambda>b. Inr [b]))
             else Inr []) (\<lambda>ll.
     bind_r (if dnssl_length rai > 0 then bind_r (dnssl_option rai) (\<lambda>b. Inr [b]) else Inr []) (\<lambda>dnssl.
       let (pis, s') = prefix_options (prefix_list rai) s
       in Inr (ll
               @ (if linkmtu rai \<noteq> 0 then [mtu_option rai] else [])
               @ pis
               @ map route_option (route_list rai)
               @ (if rdnss_length rai > 0 then [rdnss_option rai] else [])
               @ dnssl
               @ (case capport rai of None \<Rightarrow> [] | Some url \<Rightarrow> [capport_option rai url])
               @ (if pref64_specified rai then [pref64_option rai] else []), s')))"

definition make_packet ::
    "rainfo \<Rightarrow> ('e, 'u, 'z) timers_scheme \<Rightarrow> (rainfo \<times> ('e, 'u, 'z) timers_scheme) result" where
  "make_packet rainfo s =
     bind_r (if advlinkopt rainfo then
               (case sdl rainfo of None \<Rightarrow> Inl NullDeref | Some d \<Rightarrow> Inr (lladdropt_length d))
             else Inr 0) (\<lambda>lladdroptlen.
     let rai = (if advlinkopt rainfo \<and> lladdroptlen = 0 then rainfo\<lparr>advlinkopt := False\<rparr> else rainfo);
         packlen = packet_length rai lladdroptlen
     in bind_r (packet_options rai s) (\<lambda>(os, s').
          let buf = ra_header rai @ concat os
          in if packlen < int (length buf) then Inl OutOfBounds
             else if packlen \<noteq> int (length buf) then Inl (Exit 1)
             else Inr (rai\<lparr>ra_data := Some buf, ra_datalen := nat packlen\<rparr>, s')))"

section \<open>Well-formed interfaces\<close>

definition sdl_ok :: "sockaddr_dl \<Rightarrow> bool" where
  "sdl_ok d \<longleftrightarrow> (sdl_type d = IFT_ETHER \<longrightarrow> ETHER_ADDR_LEN \<le> length (sdl_lladdr d))"

definition route_ok :: "rtinfo \<Rightarrow> bool" where
  "route_ok rti \<longleftrightarrow> in6_ok (rti_prefix rti) \<and> rti_prefixlen rti \<le> 128"

definition capport_ok :: "rainfo \<Rightarrow> bool" where
  "capport_ok rai \<longleftrightarrow>
     (case capport rai of
        None \<Rightarrow> capport_option_length rai = 0
      | Some url \<Rightarrow> length url < 2 ^ 31 \<and> capport_length rai = of_nat (length url) \<and>
          capport_option_length rai =
            of_nat (2 + length url + (8 - (2 + length url) mod 8)))"

definition dnssl_ok :: "rainfo \<Rightarrow> bool" where
  "dnssl_ok rai \<longleftrightarrow> dnssl_length rai > 0 \<longrightarrow>
     dnssl_option_length rai AND 7 = 0 \<and>
     8 + sum_list (map (\<lambda>d. length d + 2) (dnssl_list rai)) \<le> unat (dnssl_option_length rai)"

definition pref64_ok :: "rainfo \<Rightarrow> bool" where
  "pref64_ok rai \<longleftrightarrow> pref64_specified rai \<longrightarrow>
     in6_ok (pref64_addr rai) \<and> pref64_prefix_length rai \<in> {32, 40, 48, 56, 64, 96}"

text \<open>
  What the functions of \<open>config.c\<close> and \<open>rtadvd.c\<close> keep true of every interface on \<open>ralist\<close>.
\<close>

definition rainfo_wf :: "rainfo \<Rightarrow> bool" where
  "rainfo_wf rai \<longleftrightarrow>
     pfxs rai = int (length (prefix_list rai)) \<and>
     (\<forall>pp \<in> set (prefix_list rai). prefix_ok pp) \<and>
     (\<forall>rti \<in> set (route_list rai). route_ok rti) \<and>
     rdnss_length rai = int (length (rdnss_list rai)) \<and>
     (\<forall>a \<in> set (rdnss_list rai). in6_ok a) \<and>
     (advlinkopt rai \<longrightarrow> (\<exists>d. sdl rai = Some d \<and> sdl_ok d)) \<and>
     dnssl_ok rai \<and> capport_ok rai \<and> pref64_ok rai"

section \<open>Lengths of the options\<close>

lemma ROUNDUP8_ether [simp]: "ROUNDUP8 (ETHER_ADDR_LEN + 2) = 8" "ROUNDUP8 8 = 8"
  by (simp_all add: ROUNDUP8_def)

lemma nat_and_63: "(n::nat) AND 0x3f = n mod 64"
  using and_exp_eq_0_iff_not_bit [of n 0] take_bit_eq_mask [of 6 n]
  by (simp add: take_bit_eq_mod mask_eq_exp_minus_1)

lemma length_encode_label: "length (encode_label l) \<le> (if l = [] then 0 else Suc (length l))"
  by (auto simp: encode_label_def Let_def nat_and_63)

lemma strsep_dots_length: "(\<Sum>l\<leftarrow>strsep_dots d. Suc (length l)) = Suc (length d)"
  by (induction d rule: strsep_dots.induct) (auto split: list.splits)

lemma length_encode_domain: "length (encode_domain d) \<le> length d + 2"
proof -
  have "length (concat (map encode_label ls)) \<le> (\<Sum>l\<leftarrow>ls. Suc (length l))" for ls
  proof (induction ls)
    case (Cons l ls)
    then show ?case using length_encode_label [of l] by (auto split: if_splits)
  qed simp
  from this [of "strsep_dots d"] show ?thesis
    by (simp add: encode_domain_def strsep_dots_length)
qed

lemma length_encode_domains:
  "length (concat (map encode_domain ds)) \<le> (\<Sum>d\<leftarrow>ds. length d + 2)"
proof (induction ds)
  case (Cons d ds)
  then show ?case using length_encode_domain [of d] by simp
qed simp

lemma length_ra_header [simp]: "length (ra_header rai) = 16"
  by (simp add: ra_header_def)

lemma length_mtu_option [simp]: "length (mtu_option rai) = 8"
  by (simp add: mtu_option_def)

lemma length_prefix_option: "in6_ok (pfx_prefix pfx) \<Longrightarrow> length (prefix_option now pfx) = 32"
  by (simp add: prefix_option_def in6_ok_def split: prod.splits)

lemma rti_psize_le: "rti_prefixlen rti \<le> 128 \<Longrightarrow> rti_psize rti \<le> 2"
  by (simp add: rti_psize_def drop_bit_eq_div)

lemma length_route_option: "route_ok rti \<Longrightarrow> length (route_option rti) = 8 + rti_psize rti * 8"
  using rti_psize_le [of rti] by (simp add: route_option_def route_ok_def in6_ok_def)

lemma length_rdnss_option:
  "\<forall>a \<in> set (rdnss_list rai). in6_ok a \<Longrightarrow> length (rdnss_option rai) = 8 + 16 * length (rdnss_list rai)"
  by (simp add: rdnss_option_def in6_ok_def length_concat_const)

lemma dnssl_option_fits:
  assumes "dnssl_ok rai" "dnssl_length rai > 0"
  shows "\<exists>b. dnssl_option rai = Inr b \<and> length b = unat (dnssl_option_length rai)"
  using assms length_encode_domains [of "dnssl_list rai"]
  by (auto simp: dnssl_option_def dnssl_ok_def Let_def)

lemma length_capport_option:
  assumes "capport_ok rai" "capport rai = Some url"
  shows "length (capport_option rai url) = unat (capport_option_length rai)"
    and "capport_option_length rai \<noteq> 0"
proof -
  define n where "n = length url"
  define z where "z = 8 - (2 + n) mod 8"
  have n: "n < 2 ^ 31" and c: "capport_length rai = of_nat n"
    and m: "capport_option_length rai = of_nat (2 + n + z)"
    using assms by (simp_all add: capport_ok_def n_def z_def)
  have z: "0 < z" "z \<le> 8" by (simp_all add: z_def)
  have u: "unat (capport_length rai) = n" "unat (capport_option_length rai) = 2 + n + z"
    unfolding c m by (rule unat_of_nat_u32, use n z in simp)+
  have "capport_option_length rai - 2 - capport_length rai = of_nat z"
    unfolding c m by simp
  then have uz: "unat (capport_option_length rai - 2 - capport_length rai) = z"
    using z by (simp add: unat_of_nat_u32)
  show "length (capport_option rai url) = unat (capport_option_length rai)"
    by (simp add: capport_option_def u uz n_def)
  show "capport_option_length rai \<noteq> 0"
    using u(2) by auto
qed

lemma length_pref64_option:
  assumes "pref64_ok rai" "pref64_specified rai"
  shows "length (pref64_option rai) = 16"
  using assms by (auto simp: pref64_ok_def pref64_option_def in6_ok_def Let_def)

lemma prefix_options_length [simp]: "length (fst (prefix_options ps s)) = length ps"
  by (induction ps arbitrary: s) (simp_all add: Let_def case_prod_unfold)

lemma prefix_options_mem:
  "b \<in> set (fst (prefix_options ps s)) \<Longrightarrow> \<exists>now. \<exists>pfx \<in> set ps. b = prefix_option now pfx"
  by (induction ps arbitrary: s) (simp, simp add: Let_def case_prod_unfold, blast)

lemma length_prefix_options:
  assumes "\<forall>pp \<in> set ps. prefix_ok pp"
  shows "length (concat (fst (prefix_options ps s))) = 32 * length ps"
proof -
  have "length b = 32" if "b \<in> set (fst (prefix_options ps s))" for b
    using prefix_options_mem [OF that] assms by (auto simp: prefix_ok_def length_prefix_option)
  then show ?thesis
    using length_concat_const [of "fst (prefix_options ps s)" 32] by simp
qed

lemma length_route_options:
  "\<forall>rti \<in> set rs. route_ok rti \<Longrightarrow>
   int (length (concat (map route_option rs))) = (\<Sum>rti\<leftarrow>rs. 8 + int (rti_psize rti) * 8)"
  by (induction rs) (simp_all add: length_route_option)

section \<open>The packet is as long as computed\<close>

text \<open>The interface as the option writer sees it, after \<open>advlinkopt\<close> is settled.\<close>

definition settled :: "rainfo \<Rightarrow> rainfo" where
  "settled rai =
     (case sdl rai of
        Some d \<Rightarrow> if advlinkopt rai \<and> lladdropt_length d = 0 then rai\<lparr>advlinkopt := False\<rparr> else rai
      | None \<Rightarrow> rai)"

lemma settled_simps [simp]:
  "prefix_list (settled rai) = prefix_list rai" "pfxs (settled rai) = pfxs rai"
  "linkmtu (settled rai) = linkmtu rai" "rainfo_wf rai \<Longrightarrow> rainfo_wf (settled rai)"
  by (auto simp: settled_def rainfo_wf_def dnssl_ok_def capport_ok_def pref64_ok_def
      split: option.splits)

lemma packet_options_ok:
  assumes wf: "rainfo_wf rai" and ll: "\<And>d. advlinkopt rai \<Longrightarrow> sdl rai = Some d \<Longrightarrow> sdl_type d = IFT_ETHER"
  shows "\<exists>os s'. packet_options rai s = Inr (os, s') \<and>
    16 + int (length (concat os)) = packet_length rai (if advlinkopt rai then 8 else 0)"
proof -
  define mt where "mt = (if linkmtu rai \<noteq> 0 then [mtu_option rai] else [])"
  define pis where "pis = fst (prefix_options (prefix_list rai) s)"
  define rts where "rts = map route_option (route_list rai)"
  define rds where "rds = (if rdnss_length rai > 0 then [rdnss_option rai] else [])"
  define cps where "cps = (case capport rai of None \<Rightarrow> [] | Some url \<Rightarrow> [capport_option rai url])"
  define p64 where "p64 = (if pref64_specified rai then [pref64_option rai] else [])"
  have l_mt: "int (length (concat mt)) = (if linkmtu rai \<noteq> 0 then 8 else 0)"
    by (simp add: mt_def)
  have l_pi: "int (length (concat pis)) = (if pfxs rai \<noteq> 0 then 32 * pfxs rai else 0)"
    using wf length_prefix_options [of "prefix_list rai" s] by (simp add: rainfo_wf_def pis_def)
  have l_rt: "int (length (concat rts)) = (\<Sum>rti\<leftarrow>route_list rai. 8 + int (rti_psize rti) * 8)"
    using wf unfolding rts_def by (intro length_route_options) (simp add: rainfo_wf_def)
  have l_rd: "int (length (concat rds)) = (if rdnss_length rai > 0 then 8 + 16 * rdnss_length rai else 0)"
    using wf by (simp add: rainfo_wf_def rds_def length_rdnss_option)
  have l_cp: "int (length (concat cps)) =
      (if capport_option_length rai \<noteq> 0 then uint (capport_option_length rai) else 0)"
  proof (cases "capport rai")
    case None
    with wf show ?thesis by (simp add: rainfo_wf_def capport_ok_def cps_def)
  next
    case (Some u)
    have "capport_ok rai" using wf by (simp add: rainfo_wf_def)
    from length_capport_option [OF this Some] Some show ?thesis by (simp add: cps_def)
  qed
  have l_p64: "int (length (concat p64)) = (if pref64_specified rai then 16 else 0)"
    using wf by (simp add: p64_def rainfo_wf_def length_pref64_option)
  obtain ll where ll: "(if advlinkopt rai then
       (case sdl rai of None \<Rightarrow> Inl NullDeref | Some d \<Rightarrow> bind_r (lladdropt_fill d) (\<lambda>b. Inr [b]))
     else Inr []) = Inr ll" "int (length (concat ll)) = (if advlinkopt rai then 8 else 0)"
    using wf ll by (cases "advlinkopt rai") (auto simp: rainfo_wf_def sdl_ok_def lladdropt_fill_def)
  obtain dn where dn: "(if dnssl_length rai > 0 then bind_r (dnssl_option rai) (\<lambda>b. Inr [b]) else Inr []) = Inr dn"
    "int (length (concat dn)) = (if dnssl_length rai > 0 then uint (dnssl_option_length rai) else 0)"
    using wf dnssl_option_fits [of rai] by (cases "dnssl_length rai > 0") (auto simp: rainfo_wf_def)
  have eq: "packet_options rai s =
      Inr (ll @ mt @ pis @ rts @ rds @ dn @ cps @ p64, snd (prefix_options (prefix_list rai) s))"
    unfolding packet_options_def ll(1) dn(1) bind_r.simps case_prod_unfold Let_def
      mt_def pis_def rts_def rds_def cps_def p64_def ..
  have "16 + int (length (concat (ll @ mt @ pis @ rts @ rds @ dn @ cps @ p64))) =
      packet_length rai (if advlinkopt rai then 8 else 0)"
    unfolding packet_length_def concat_append length_append of_nat_add
      l_mt l_pi l_rt l_rd l_cp l_p64 ll(2) dn(2) by simp
  with eq show ?thesis by blast
qed

lemma make_packet_ok:
  assumes wf: "rainfo_wf rai"
  shows "\<exists>os s'. packet_options (settled rai) s = Inr (os, s') \<and>
    make_packet rai s =
      Inr ((settled rai)\<lparr>ra_data := Some (ra_header (settled rai) @ concat os),
             ra_datalen := 16 + length (concat os)\<rparr>, s')"
proof -
  have eth: "sdl_type d = IFT_ETHER" if "advlinkopt (settled rai)" "sdl (settled rai) = Some d" for d
    using that by (auto simp: settled_def lladdropt_length_def split: option.splits if_splits)
  have wf': "rainfo_wf (settled rai)" using wf by simp
  from packet_options_ok [OF wf' eth] obtain os s' where
    os: "packet_options (settled rai) s = Inr (os, s')"
    and len: "16 + int (length (concat os)) =
      packet_length (settled rai) (if advlinkopt (settled rai) then 8 else 0)"
    by blast
  show ?thesis
  proof (cases "advlinkopt rai")
    case True
    with wf obtain d where d: "sdl rai = Some d" by (auto simp: rainfo_wf_def)
    have l: "lladdropt_length d = (if advlinkopt (settled rai) then 8 else 0)"
      using d True by (auto simp: settled_def lladdropt_length_def)
    have st: "settled rai = (if lladdropt_length d = 0 then rai\<lparr>advlinkopt := False\<rparr> else rai)"
      using d True by (simp add: settled_def)
    have "make_packet rai s =
        (let packlen = packet_length (settled rai) (lladdropt_length d)
         in bind_r (packet_options (settled rai) s) (\<lambda>(os, s').
           let buf = ra_header (settled rai) @ concat os
           in if packlen < int (length buf) then Inl OutOfBounds
              else if packlen \<noteq> int (length buf) then Inl (Exit 1)
              else Inr ((settled rai)\<lparr>ra_data := Some buf, ra_datalen := nat packlen\<rparr>, s')))"
      using d True unfolding st by (cases "lladdropt_length d = 0") (simp_all add: make_packet_def Let_def)
    moreover have "packet_length (settled rai) (lladdropt_length d) = int (16 + length (concat os))"
      using len l by simp
    ultimately show ?thesis
      using os by (simp add: Let_def del: of_nat_add)
  next
    case False
    then have st: "settled rai = rai" by (simp add: settled_def split: option.splits)
    moreover have "packet_length rai 0 = int (16 + length (concat os))"
      using len st False by simp
    ultimately show ?thesis
      using False os by (simp add: make_packet_def Let_def del: of_nat_add)
  qed
qed

section \<open>The options are read back\<close>

text \<open>An option's length fits its length byte: at most 255 units of eight bytes.\<close>

definition options_small :: "rainfo \<Rightarrow> bool" where
  "options_small rai \<longleftrightarrow>
     rdnss_length rai \<le> 127 \<and>
     (dnssl_length rai > 0 \<longrightarrow> dnssl_option_length rai < 2048) \<and>
     capport_option_length rai < 2048"

lemma msg_ok_opt: "opts.msg_ok b \<longleftrightarrow> 2 \<le> length b \<and> 8 * unat (b ! 1) = length b"
  by (simp add: opts.msg_ok_def opt_len_def)

lemma msg_ok_lladdr: "lladdropt_fill d = Inr b \<Longrightarrow> opts.msg_ok b \<and> \<not> is_pi b"
  by (auto simp: lladdropt_fill_def msg_ok_opt is_pi_def drop_bit_eq_div split: if_splits)

lemma msg_ok_mtu: "opts.msg_ok (mtu_option rai) \<and> \<not> is_pi (mtu_option rai)"
  by (simp add: mtu_option_def msg_ok_opt is_pi_def)

lemma msg_ok_prefix: "prefix_ok pfx \<Longrightarrow> opts.msg_ok (prefix_option now pfx) \<and> is_pi (prefix_option now pfx)"
  by (simp add: msg_ok_opt is_pi_def prefix_ok_def length_prefix_option)
    (simp add: prefix_option_def split: prod.splits)

lemma msg_ok_route: "route_ok rti \<Longrightarrow> opts.msg_ok (route_option rti) \<and> \<not> is_pi (route_option rti)"
proof -
  assume rt: "route_ok rti"
  then have "rti_psize rti \<le> 2" by (simp add: route_ok_def rti_psize_le)
  then have "unat (1 + of_nat (rti_psize rti) :: byte) = 1 + rti_psize rti"
    using unat_of_nat_byte [of "1 + rti_psize rti"] by simp
  then show ?thesis
    by (simp add: msg_ok_opt is_pi_def length_route_option [OF rt]) (simp add: route_option_def)
qed

lemma msg_ok_rdnss:
  assumes "rainfo_wf rai" "rdnss_length rai \<le> 127"
  shows "opts.msg_ok (rdnss_option rai) \<and> \<not> is_pi (rdnss_option rai)"
proof -
  let ?n = "length (rdnss_list rai)"
  have n: "rdnss_length rai = int ?n" "\<forall>a \<in> set (rdnss_list rai). in6_ok a"
    using assms(1) by (auto simp: rainfo_wf_def)
  then have "word_of_int (1 + rdnss_length rai * 2) = (of_nat (1 + 2 * ?n) :: byte)" by simp
  then have "unat (word_of_int (1 + rdnss_length rai * 2) :: byte) = unat (of_nat (1 + 2 * ?n) :: byte)"
    by (rule arg_cong)
  also have "\<dots> = 1 + 2 * ?n"
    using assms(2) n(1) by (intro unat_of_nat_byte) simp
  finally have "unat (word_of_int (1 + rdnss_length rai * 2) :: byte) = 1 + 2 * ?n" .
  then show ?thesis
    by (simp add: msg_ok_opt is_pi_def length_rdnss_option [OF n(2)]) (simp add: rdnss_option_def)
qed

text \<open>A length byte that holds an eighth of a 32-bit length.\<close>

lemma unat_len_byte:
  fixes w :: u32
  assumes "w < 2048" "8 dvd unat w"
  shows "8 * unat (ucast (drop_bit 3 w) :: byte) = unat w"
proof -
  have "unat w < 2048" using assms(1) by (simp add: word_less_nat_alt)
  moreover have "unat (drop_bit 3 w) = unat w div 8"
    unfolding unat_drop_bit_eq by (simp add: drop_bit_eq_div)
  ultimately have "unat (ucast (drop_bit 3 w) :: byte) = unat w div 8"
    by (simp add: take_bit_eq_mod unsigned_ucast_eq)
  then show ?thesis using assms(2) by simp
qed

lemma msg_ok_dnssl:
  assumes "dnssl_ok rai" "dnssl_length rai > 0" "dnssl_option_length rai < 2048"
    and b: "dnssl_option rai = Inr b"
  shows "opts.msg_ok b \<and> \<not> is_pi b"
proof -
  let ?w = "dnssl_option_length rai"
  have len: "length b = unat ?w"
    using dnssl_option_fits [OF assms(1,2)] b by simp
  have hd: "b ! 0 = ND_OPT_DNSSL" "b ! 1 = ucast (drop_bit 3 ?w)" "8 \<le> length b"
    using b by (auto simp: dnssl_option_def Let_def split: if_splits)
  have "take_bit 3 ?w = 0"
    using assms(1,2) by (simp add: dnssl_ok_def take_bit_eq_mask mask_eq_exp_minus_1)
  then have "take_bit 3 (unat ?w) = 0"
    using unsigned_take_bit_eq [of 3 ?w, where ?'a = nat] by simp
  then have "8 dvd unat ?w"
    by (simp add: take_bit_eq_mod mod_eq_0_iff_dvd)
  with unat_len_byte [OF assms(3)] hd len show ?thesis
    by (simp add: msg_ok_opt is_pi_def)
qed

lemma msg_ok_capport:
  assumes "capport_ok rai" "capport rai = Some u" "capport_option_length rai < 2048"
  shows "opts.msg_ok (capport_option rai u) \<and> \<not> is_pi (capport_option rai u)"
proof -
  let ?w = "capport_option_length rai" and ?m = "2 + length u + (8 - (2 + length u) mod 8)"
  have n: "length u < 2 ^ 31" "?w = of_nat ?m"
    using assms(1,2) by (auto simp: capport_ok_def)
  have "?m < 2 ^ 32"
    using n(1) by simp
  then have w: "unat ?w = ?m"
    using n(2) unat_of_nat_u32 by metis
  have "8 dvd ?m" by presburger
  then have "8 * unat (ucast (drop_bit 3 ?w) :: byte) = unat ?w"
    using w by (intro unat_len_byte [OF assms(3)]) simp
  then show ?thesis
    using w by (simp add: msg_ok_opt is_pi_def length_capport_option [OF assms(1,2)])
      (simp add: capport_option_def)
qed

lemma msg_ok_pref64:
  "pref64_ok rai \<Longrightarrow> pref64_specified rai \<Longrightarrow>
   opts.msg_ok (pref64_option rai) \<and> \<not> is_pi (pref64_option rai)"
  by (simp add: msg_ok_opt is_pi_def length_pref64_option) (simp add: pref64_option_def Let_def)

lemma packet_options_msgs:
  assumes wf: "rainfo_wf rai" and small: "options_small rai"
    and os: "packet_options rai s = Inr (os, s')"
  shows "\<forall>b \<in> set os. opts.msg_ok b"
    and "filter is_pi os = fst (prefix_options (prefix_list rai) s)"
proof -
  obtain ll dn where ll: "(if advlinkopt rai then
       (case sdl rai of None \<Rightarrow> Inl NullDeref | Some d \<Rightarrow> bind_r (lladdropt_fill d) (\<lambda>b. Inr [b]))
     else Inr []) = Inr ll"
    and dn: "(if dnssl_length rai > 0 then bind_r (dnssl_option rai) (\<lambda>b. Inr [b]) else Inr []) = Inr dn"
    and eq: "os = ll @ (if linkmtu rai \<noteq> 0 then [mtu_option rai] else [])
      @ fst (prefix_options (prefix_list rai) s) @ map route_option (route_list rai)
      @ (if rdnss_length rai > 0 then [rdnss_option rai] else []) @ dn
      @ (case capport rai of None \<Rightarrow> [] | Some url \<Rightarrow> [capport_option rai url])
      @ (if pref64_specified rai then [pref64_option rai] else [])"
    using os unfolding packet_options_def bind_r_Inr_iff by (auto simp: case_prod_unfold Let_def)
  have 1: "\<forall>b \<in> set ll. opts.msg_ok b \<and> \<not> is_pi b"
    using ll by (auto simp: res_simps msg_ok_lladdr split: if_splits option.splits)
  have 2: "\<forall>b \<in> set dn. opts.msg_ok b \<and> \<not> is_pi b"
    using dn wf small by (auto simp: res_simps rainfo_wf_def options_small_def dest: msg_ok_dnssl split: if_splits)
  have 3: "\<forall>b \<in> set (fst (prefix_options (prefix_list rai) s)). opts.msg_ok b \<and> is_pi b"
    using prefix_options_mem [of _ "prefix_list rai" s] wf msg_ok_prefix by (fastforce simp: rainfo_wf_def)
  have 4: "\<forall>b \<in> set (map route_option (route_list rai)). opts.msg_ok b \<and> \<not> is_pi b"
    using wf by (auto simp: rainfo_wf_def msg_ok_route)
  have 5: "\<forall>b \<in> set (if rdnss_length rai > 0 then [rdnss_option rai] else []). opts.msg_ok b \<and> \<not> is_pi b"
    using wf small by (auto simp: options_small_def msg_ok_rdnss)
  have 6: "\<forall>b \<in> set (case capport rai of None \<Rightarrow> [] | Some url \<Rightarrow> [capport_option rai url]).
      opts.msg_ok b \<and> \<not> is_pi b"
    using wf small by (auto simp: rainfo_wf_def options_small_def msg_ok_capport split: option.splits)
  have 7: "\<forall>b \<in> set (if pref64_specified rai then [pref64_option rai] else []). opts.msg_ok b \<and> \<not> is_pi b"
    using wf by (auto simp: rainfo_wf_def msg_ok_pref64)
  have 8: "\<forall>b \<in> set (if linkmtu rai \<noteq> 0 then [mtu_option rai] else []). opts.msg_ok b \<and> \<not> is_pi b"
    by (auto simp: msg_ok_mtu)
  show "\<forall>b \<in> set os. opts.msg_ok b"
    unfolding eq set_append using 1 2 3 4 5 6 7 8 by blast
  have none: "filter is_pi xs = []" if "\<forall>b \<in> set xs. opts.msg_ok b \<and> \<not> is_pi b" for xs
    using that by (simp add: filter_empty_conv)
  have all: "filter is_pi xs = xs" if "\<forall>b \<in> set xs. opts.msg_ok b \<and> is_pi b" for xs
    using that by (simp add: filter_id_conv)
  show "filter is_pi os = fst (prefix_options (prefix_list rai) s)"
    unfolding eq filter_append none [OF 1] none [OF 2] all [OF 3] none [OF 4] none [OF 5]
      none [OF 6] none [OF 7] none [OF 8] by simp
qed

lemma options_small_settled [simp]: "options_small (settled rai) = options_small rai"
  by (simp add: options_small_def settled_def split: option.splits)

section \<open>The fields of a prefix information option\<close>

definition pi_prefix_len :: "byte list \<Rightarrow> nat" where
  "pi_prefix_len pinfo = unat (pinfo ! 2)"

definition pi_valid_time :: "byte list \<Rightarrow> u32" where
  "pi_valid_time pinfo = rd32 (drop 4 pinfo)"

definition pi_preferred_time :: "byte list \<Rightarrow> u32" where
  "pi_preferred_time pinfo = rd32 (drop 8 pinfo)"

definition pi_prefix :: "byte list \<Rightarrow> in6_addr" where
  "pi_prefix pinfo = take 16 (drop 16 pinfo)"

lemma prefix_option_fields:
  assumes "prefix_ok pfx"
  shows "pi_prefix_len (prefix_option now pfx) = pfx_prefixlen pfx"
    and "pi_valid_time (prefix_option now pfx) = fst (pi_lifetimes now pfx)"
    and "pi_preferred_time (prefix_option now pfx) = snd (pi_lifetimes now pfx)"
    and "pi_prefix (prefix_option now pfx) = pfx_prefix pfx"
proof -
  have *: "pfx_prefixlen pfx < 256" "length (pfx_prefix pfx) = 16"
    using assms by (auto simp: prefix_ok_def in6_ok_def)
  show "pi_prefix_len (prefix_option now pfx) = pfx_prefixlen pfx"
    using * by (simp add: pi_prefix_len_def prefix_option_def case_prod_unfold Let_def unat_of_nat_byte)
  show "pi_valid_time (prefix_option now pfx) = fst (pi_lifetimes now pfx)"
    by (simp add: pi_valid_time_def prefix_option_def case_prod_unfold Let_def be_simps)
  show "pi_preferred_time (prefix_option now pfx) = snd (pi_lifetimes now pfx)"
    by (simp add: pi_preferred_time_def prefix_option_def case_prod_unfold Let_def be_simps)
  show "pi_prefix (prefix_option now pfx) = pfx_prefix pfx"
    using * by (simp add: pi_prefix_def prefix_option_def case_prod_unfold Let_def)
qed

end
