(* ===== verification/Rtmsg.thy ===== *)
theory Rtmsg
  imports Tlv Rainfo
begin

text \<open>
  Messages of the routing socket and of the \<open>NET_RT_IFLIST\<close> sysctl (\<open>src/rtadvd.tproj/if.c\<close>).
  A buffer is the list of its bytes up to \<open>lim\<close>; a pointer into it is the rest of the buffer
  from there. The offsets are those of \<open>struct rt_msghdr\<close> (92 bytes), \<open>struct ifa_msghdr\<close>
  (20 bytes), \<open>struct if_msghdr\<close> (112 bytes), \<open>struct sockaddr_in6\<close> and \<open>struct sockaddr_dl\<close> on
  64-bit machines.

  The lemmas show that on a buffer of complete messages \<open>get_next_msg\<close> finds the first
  message its filter and address checks accept, and that \<open>parse_iflist\<close> collects every
  interface of a list without duplicates, but does not end when an index occurs twice.
\<close>

abbreviation (input) RTM_ADD :: byte where "RTM_ADD \<equiv> 0x1"
abbreviation (input) RTM_DELETE :: byte where "RTM_DELETE \<equiv> 0x2"
abbreviation (input) RTM_GET :: byte where "RTM_GET \<equiv> 0x4"
abbreviation (input) RTM_NEWADDR :: byte where "RTM_NEWADDR \<equiv> 0xc"
abbreviation (input) RTM_DELADDR :: byte where "RTM_DELADDR \<equiv> 0xd"
abbreviation (input) RTM_IFINFO :: byte where "RTM_IFINFO \<equiv> 0xe"
abbreviation (input) AF_INET :: byte where "AF_INET \<equiv> 2"
abbreviation (input) AF_LINK :: byte where "AF_LINK \<equiv> 18"
abbreviation (input) AF_INET6 :: byte where "AF_INET6 \<equiv> 30"
abbreviation (input) RTAX_DST :: nat where "RTAX_DST \<equiv> 0"
abbreviation (input) RTAX_GATEWAY :: nat where "RTAX_GATEWAY \<equiv> 1"
abbreviation (input) RTAX_NETMASK :: nat where "RTAX_NETMASK \<equiv> 2"
abbreviation (input) RTAX_IFP :: nat where "RTAX_IFP \<equiv> 4"
abbreviation (input) RTAX_IFA :: nat where "RTAX_IFA \<equiv> 5"
abbreviation (input) RTAX_MAX :: nat where "RTAX_MAX \<equiv> 8"

section \<open>The addresses of a message\<close>

definition ROUNDUP :: "nat \<Rightarrow> nat \<Rightarrow> nat" where
  "ROUNDUP a sz = (if a AND (sz - 1) \<noteq> 0 then 1 + (a OR (sz - 1)) else a)"

definition NEXT_SA :: "byte list \<Rightarrow> byte list result" where
  "NEXT_SA ap = bind_r (ld8 ap 0) (\<lambda>sa_len.
     Inr (drop (if sa_len \<noteq> 0 then ROUNDUP (unat sa_len) 4 else 4) ap))"

fun rtaddrs_loop :: "nat list \<Rightarrow> u32 \<Rightarrow> byte list \<Rightarrow> byte list option list result" where
  "rtaddrs_loop [] addrs sa = Inr []"
| "rtaddrs_loop (i # is) addrs sa =
     (if addrs AND push_bit i 1 \<noteq> 0 then
        bind_r (NEXT_SA sa) (\<lambda>sa'. bind_r (rtaddrs_loop is addrs sa') (\<lambda>r. Inr (Some sa # r)))
      else bind_r (rtaddrs_loop is addrs sa) (\<lambda>r. Inr (None # r)))"

definition get_rtaddrs :: "u32 \<Rightarrow> byte list \<Rightarrow> byte list option list result" where
  "get_rtaddrs addrs sa = rtaddrs_loop [0..<RTAX_MAX] addrs sa"

section \<open>Routing messages\<close>

definition rtmsg_type :: "byte list \<Rightarrow> byte result" where
  "rtmsg_type buf = ld8 buf 3"

definition rtmsg_len :: "byte list \<Rightarrow> u16 result" where
  "rtmsg_len buf = ld16 buf 0"

text \<open>\<open>IN6_IS_ADDR_LINKLOCAL(&SIN6(sa)->sin6_addr) || IN6_IS_ADDR_MULTICAST(...)\<close>\<close>

definition sin6_local :: "byte list \<Rightarrow> bool result" where
  "sin6_local sa = bind_r (bytes_at sa 8 2) (\<lambda>a. Inr (IN6_IS_ADDR_LINKLOCAL a \<or> IN6_IS_ADDR_MULTICAST a))"

text \<open>The address checks on a \<open>RTM_GET\<close>, \<open>RTM_ADD\<close> or \<open>RTM_DELETE\<close> message.\<close>

definition route_checks :: "nat \<Rightarrow> byte list option list \<Rightarrow> bool result" where
  "route_checks idx rti_info =
     (case rti_info ! RTAX_DST of
        None \<Rightarrow> Inr False
      | Some dst \<Rightarrow>
          bind_r (ld8 dst 1) (\<lambda>dst_family.
          if dst_family \<noteq> AF_INET6 then Inr False
          else bind_r (sin6_local dst) (\<lambda>local.
          if local then Inr False
          else case rti_info ! RTAX_GATEWAY of
                 None \<Rightarrow> Inr False
               | Some gw \<Rightarrow>
                   bind_r (ld8 gw 1) (\<lambda>gw_family.
                   if gw_family \<noteq> AF_LINK then Inr False
                   else bind_r (if idx \<noteq> 0 then bind_r (ld16 gw 2) (\<lambda>i. Inr (unat i \<noteq> idx)) else Inr False) (\<lambda>other.
                   if other then Inr False
                   else Inr (rti_info ! RTAX_NETMASK \<noteq> None))))))"

definition rtm_route_match :: "nat \<Rightarrow> byte list \<Rightarrow> bool result" where
  "rtm_route_match idx rtm =
     bind_r (ld32 rtm 12) (\<lambda>addrs. bind_r (get_rtaddrs addrs (drop 92 rtm)) (route_checks idx))"

text \<open>The address checks on a \<open>RTM_NEWADDR\<close> or \<open>RTM_DELADDR\<close> message.\<close>

definition ifam_checks :: "nat \<Rightarrow> byte list \<Rightarrow> byte list option list \<Rightarrow> bool result" where
  "ifam_checks idx ifam rti_info =
     (case rti_info ! RTAX_IFA of
        None \<Rightarrow> Inr False
      | Some ifa \<Rightarrow>
          bind_r (ld8 ifa 1) (\<lambda>sa_family.
          if sa_family \<noteq> AF_INET \<and> sa_family \<noteq> AF_INET6 then Inr False
          else bind_r (if sa_family = AF_INET6 then sin6_local ifa else Inr False) (\<lambda>local.
          if local then Inr False
          else if idx \<noteq> 0 then bind_r (ld16 ifam 12) (\<lambda>i. Inr (unat i = idx))
          else Inr True)))"

definition ifam_match :: "nat \<Rightarrow> byte list \<Rightarrow> bool result" where
  "ifam_match idx ifam =
     bind_r (ld32 ifam 4) (\<lambda>addrs. bind_r (get_rtaddrs addrs (drop 20 ifam)) (ifam_checks idx ifam))"

text \<open>One pass of the loop of \<open>get_next_msg\<close>: whether the message is found.\<close>

definition rtm_match :: "nat \<Rightarrow> u32 \<Rightarrow> byte list \<Rightarrow> bool result" where
  "rtm_match idx flt rtm =
     bind_r (ld8 rtm 3) (\<lambda>rtm_type.
     if 32 \<le> rtm_type then Inl BadShift
     else if push_bit (unat rtm_type) 1 AND flt = 0 then Inr False
     else if rtm_type = RTM_GET \<or> rtm_type = RTM_ADD \<or> rtm_type = RTM_DELETE then rtm_route_match idx rtm
     else if rtm_type = RTM_NEWADDR \<or> rtm_type = RTM_DELADDR then ifam_match idx rtm
     else Inr (rtm_type = RTM_IFINFO))"

text \<open>The message found and the value of \<open>*lenp\<close>; zero when there is none.\<close>

function get_next_msg :: "nat \<Rightarrow> u32 \<Rightarrow> byte list \<Rightarrow> (byte list \<times> nat) result" where
  "get_next_msg idx flt rtm =
     (if rtm = [] then Inr (rtm, 0)
      else case ld16 rtm 0 of
             Inl e \<Rightarrow> Inl e
           | Inr rtm_msglen \<Rightarrow>
               if rtm_msglen = 0 then Inr (rtm, 0)
               else case rtm_match idx flt rtm of
                      Inl e \<Rightarrow> Inl e
                    | Inr found \<Rightarrow>
                        if found then Inr (rtm, unat rtm_msglen)
                        else get_next_msg idx flt (drop (unat rtm_msglen) rtm))"
  by pat_completeness auto
termination
  by (relation "measure (\<lambda>(i, f, b). length b)") (auto simp: unat_gt_0)

declare get_next_msg.simps [simp del]

section \<open>Fields of a message\<close>

definition rtm_addr :: "nat \<Rightarrow> byte list \<Rightarrow> byte list result" where
  "rtm_addr i rtm =
     bind_r (ld32 rtm 12) (\<lambda>addrs.
     bind_r (get_rtaddrs addrs (drop 92 rtm)) (\<lambda>rti_info.
     case rti_info ! i of None \<Rightarrow> Inl NullDeref | Some sa \<Rightarrow> Inr sa))"

definition get_addr :: "byte list \<Rightarrow> in6_addr result" where
  "get_addr buf = bind_r (rtm_addr RTAX_DST buf) (\<lambda>sa. bytes_at sa 8 16)"

definition get_rtm_ifindex :: "byte list \<Rightarrow> int result" where
  "get_rtm_ifindex buf = bind_r (rtm_addr RTAX_GATEWAY buf) (\<lambda>sa. bind_r (ld16 sa 2) (\<lambda>i. Inr (uint i)))"

definition get_ifm_ifindex :: "byte list \<Rightarrow> int result" where
  "get_ifm_ifindex buf = bind_r (ld16 buf 12) (\<lambda>i. Inr (uint i))"

definition get_ifam_ifindex :: "byte list \<Rightarrow> int result" where
  "get_ifam_ifindex buf = bind_r (ld16 buf 12) (\<lambda>i. Inr (uint i))"

definition get_ifm_flags :: "byte list \<Rightarrow> u32 result" where
  "get_ifm_flags buf = ld32 buf 8"

definition get_prefixlen :: "byte list \<Rightarrow> int result" where
  "get_prefixlen buf =
     bind_r (rtm_addr RTAX_NETMASK buf) (\<lambda>sa.
     bind_r (ld8 sa 0) (\<lambda>sa_len.
     if unat sa_len \<le> 8 then Inr (prefixlen [])
     else bind_r (bytes_at sa 8 (unat sa_len - 8)) (\<lambda>p. Inr (prefixlen p))))"

section \<open>A message is read inside its own bytes\<close>

lemma rtaddrs_loop_append:
  assumes "rtaddrs_loop is addrs sa = Inr r" "sa' = sa @ c \<or> sa = []"
  shows "rtaddrs_loop is addrs sa' = Inr (map (map_option (\<lambda>x. x @ c)) r) \<and> length r = length is"
  using assms
proof (induction "is" arbitrary: sa sa' r)
  case (Cons i "is")
  show ?case
  proof (cases "addrs AND push_bit i 1 = 0")
    case True
    with Cons.prems obtain r1 where r1: "rtaddrs_loop is addrs sa = Inr r1" "r = None # r1"
      by (auto simp: res_simps)
    from Cons.IH [OF r1(1) Cons.prems(2)] r1 True show ?thesis by simp
  next
    case False
    with Cons.prems(1) obtain sa1 r1 where n: "NEXT_SA sa = Inr sa1" "rtaddrs_loop is addrs sa1 = Inr r1" "r = Some sa # r1"
      by (auto simp: res_simps)
    then obtain l where l: "ld8 sa 0 = Inr l" "sa1 = drop (if l \<noteq> 0 then ROUNDUP (unat l) 4 else 4) sa"
      by (auto simp: NEXT_SA_def res_simps)
    then have "sa \<noteq> []" by (auto simp: ld8_Inr)
    with Cons.prems(2) have sa': "sa' = sa @ c" by simp
    define k where "k = (if l \<noteq> 0 then ROUNDUP (unat l) 4 else 4)"
    have n': "NEXT_SA sa' = Inr (drop k sa')"
      using le_r_D [OF ld_append(1) l(1)] by (simp add: NEXT_SA_def k_def sa')
    have "drop k sa' = sa1 @ c \<or> sa1 = []"
      using l(2) sa' by (cases "k \<le> length sa") (auto simp: k_def)
    from Cons.IH [OF n(2) this] n n' sa' False show ?thesis by simp
  qed
qed simp

lemma get_rtaddrs_append:
  assumes "get_rtaddrs addrs (drop k b) = Inr r"
  shows "get_rtaddrs addrs (drop k (b @ c)) = Inr (map (map_option (\<lambda>x. x @ c)) r)" "length r = RTAX_MAX"
proof -
  have "drop k (b @ c) = drop k b @ c \<or> drop k b = []" by (cases "k \<le> length b") auto
  from rtaddrs_loop_append [OF assms [unfolded get_rtaddrs_def] this]
  show "get_rtaddrs addrs (drop k (b @ c)) = Inr (map (map_option (\<lambda>x. x @ c)) r)" "length r = RTAX_MAX"
    by (simp_all add: get_rtaddrs_def)
qed

lemma sin6_local_append [le_r_intros]: "le_r (sin6_local sa) (sin6_local (sa @ c))"
  unfolding sin6_local_def by (intro le_r_intros)

lemma route_checks_append:
  assumes "length r = RTAX_MAX"
  shows "le_r (route_checks idx r) (route_checks idx (map (map_option (\<lambda>x. x @ c)) r))"
  using assms unfolding route_checks_def
  by (cases "r ! RTAX_DST"; cases "r ! RTAX_GATEWAY") (auto intro!: le_r_intros)

lemma ifam_checks_append:
  assumes "length r = RTAX_MAX"
  shows "le_r (ifam_checks idx m r) (ifam_checks idx (m @ c) (map (map_option (\<lambda>x. x @ c)) r))"
  using assms unfolding ifam_checks_def
  by (cases "r ! RTAX_IFA") (auto intro!: le_r_intros)

lemma le_r_rtaddrs:
  assumes "\<And>r. length r = RTAX_MAX \<Longrightarrow> le_r (f r) (g (map (map_option (\<lambda>x. x @ c)) r))"
  shows "le_r (bind_r (get_rtaddrs addrs (drop k b)) f) (bind_r (get_rtaddrs addrs (drop k (b @ c))) g)"
proof (cases "get_rtaddrs addrs (drop k b)")
  case (Inr r)
  with get_rtaddrs_append(1) [OF Inr, of c] get_rtaddrs_append(2) [OF Inr] assms show ?thesis by simp
qed (simp add: le_r_def)

lemma rtm_route_match_append [le_r_intros]: "le_r (rtm_route_match idx m) (rtm_route_match idx (m @ c))"
  unfolding rtm_route_match_def by (intro le_r_intros le_r_rtaddrs route_checks_append)

lemma ifam_match_append [le_r_intros]: "le_r (ifam_match idx m) (ifam_match idx (m @ c))"
  unfolding ifam_match_def by (intro le_r_intros le_r_rtaddrs ifam_checks_append)

lemma rtm_match_append: "le_r (rtm_match idx flt m) (rtm_match idx flt (m @ c))"
  unfolding rtm_match_def by (intro le_r_intros)

section \<open>The next message\<close>

definition rtm_msglen :: "byte list \<Rightarrow> nat" where
  "rtm_msglen bs = unat (rd16 (rev (take 2 bs)))"

interpretation rtmsgs: tlv_format 4 rtm_msglen
  by unfold_locales (auto simp: rtm_msglen_def)

lemma ld16_msglen: "2 \<le> length b \<Longrightarrow> \<exists>w. ld16 b 0 = Inr w \<and> unat w = rtm_msglen b"
  by (simp add: ld16_def bytes_at_def rtm_msglen_def)

lemma get_next_msg_concat:
  assumes "\<forall>m \<in> set ms. rtmsgs.msg_ok m \<and> returns (rtm_match idx flt m)"
  shows "get_next_msg idx flt (concat ms) =
    (case dropWhile (\<lambda>m. rtm_match idx flt m = Inr False) ms of
       [] \<Rightarrow> Inr ([], 0) | m # rest \<Rightarrow> Inr (concat (m # rest), length m))"
  using assms
proof (induction ms)
  case Nil
  then show ?case by (simp add: get_next_msg.simps)
next
  case (Cons m ms)
  then have m: "4 \<le> length m" "rtm_msglen m = length m" by (auto simp: rtmsgs.msg_ok_def)
  obtain found where f: "rtm_match idx flt m = Inr found"
    using Cons.prems by (auto simp: returns_iff)
  then have f': "rtm_match idx flt (m @ concat ms) = Inr found"
    using le_r_D [OF rtm_match_append] by blast
  have "rtm_msglen (m @ concat ms) = length m" using m by (simp add: rtm_msglen_def)
  then obtain w where w: "ld16 (m @ concat ms) 0 = Inr w" "unat w = length m"
    using ld16_msglen [of "m @ concat ms"] m(1) by auto
  have "w \<noteq> 0" "m \<noteq> []" using w(2) m(1) by auto
  then show ?case
    using Cons f f' w by (cases found) (simp_all add: get_next_msg.simps [of idx flt "m @ concat ms"])
qed

section \<open>The interface list\<close>

record if_msghdr =
  ifm_index :: int
  ifm_flags :: u32

text \<open>
  The inner loop over the addresses of an interface: \<open>None\<close> is the early return of the
  whole function on a zero length.
\<close>

function skip_ifam :: "byte list \<Rightarrow> byte list option result" where
  "skip_ifam ifam =
     (if ifam = [] then Inr (Some ifam)
      else case ld16 ifam 0 of
             Inl e \<Rightarrow> Inl e
           | Inr ifam_msglen \<Rightarrow>
               if ifam_msglen = 0 then Inr None
               else case ld8 ifam 3 of
                      Inl e \<Rightarrow> Inl e
                    | Inr ifam_type \<Rightarrow>
                        if ifam_type \<noteq> RTM_NEWADDR then Inr (Some ifam)
                        else skip_ifam (drop (unat ifam_msglen) ifam))"
  by pat_completeness auto
termination
  by (relation "measure length") (auto simp: unat_gt_0)

declare skip_ifam.simps [simp del]

fun parse_iflist_loop :: "nat \<Rightarrow> byte list \<Rightarrow> if_msghdr list \<Rightarrow> if_msghdr list result" where
  "parse_iflist_loop 0 ifm ifl = (if ifm = [] then Inr ifl else Inl Diverge)"
| "parse_iflist_loop (Suc fuel) ifm ifl =
     (if ifm = [] then Inr ifl
      else bind_r (ld16 ifm 0) (\<lambda>msglen.
        if msglen = 0 then Inr ifl
        else bind_r (ld8 ifm 3) (\<lambda>typ.
          if typ = RTM_IFINFO then
            bind_r (ld16 ifm 12) (\<lambda>index.
            bind_r (ld32 ifm 8) (\<lambda>flags.
              if find (\<lambda>e. ifm_index e = uint index) ifl \<noteq> None
              then parse_iflist_loop fuel ifm ifl
              else let ifl' = ifl @ [\<lparr>ifm_index = uint index, ifm_flags = flags\<rparr>]
                   in bind_r (skip_ifam (drop (unat msglen) ifm)) (\<lambda>next.
                        case next of
                          None \<Rightarrow> Inr ifl'
                        | Some ifm' \<Rightarrow> parse_iflist_loop fuel ifm' ifl')))
          else Inl (Exit 1))))"

text \<open>
  Every pass that does not repeat consumes a message of at least one byte, so the length
  of the buffer is enough fuel.
\<close>

definition parse_iflist :: "byte list \<Rightarrow> if_msghdr list \<Rightarrow> if_msghdr list result" where
  "parse_iflist buf ifl = parse_iflist_loop (length buf) buf ifl"

definition purge_iflist :: "if_msghdr list \<Rightarrow> if_msghdr list" where
  "purge_iflist ifl = []"

text \<open>\<open>iflist\<close> is what the sysctl of \<open>get_iflist\<close> yields; \<open>None\<close> is its failure.\<close>

definition init_iflist :: "byte list option \<Rightarrow> if_msghdr list \<Rightarrow> if_msghdr list result" where
  "init_iflist iflist ifl =
     (case iflist of
        None \<Rightarrow> Inl (Exit 1)
      | Some buf \<Rightarrow> parse_iflist buf (purge_iflist ifl))"

section \<open>The link-layer address of an interface\<close>

text \<open>
  The search of \<open>if_nametosdl\<close>: the offset where the loop stops and the variable \<open>sdl\<close>, which
  keeps the last link-layer address seen.
\<close>

definition sdl_probe :: "string \<Rightarrow> byte list \<Rightarrow> byte list option \<Rightarrow> (byte list option \<times> bool) result" where
  "sdl_probe name ifm lla =
     bind_r (ld8 ifm 3) (\<lambda>typ.
     if typ \<noteq> RTM_IFINFO then Inr (lla, False)
     else bind_r (ld32 ifm 4) (\<lambda>addrs.
     bind_r (get_rtaddrs addrs (drop 112 ifm)) (\<lambda>rti_info.
     case rti_info ! RTAX_IFP of
       None \<Rightarrow> Inr (lla, False)
     | Some sa \<Rightarrow>
         bind_r (ld8 sa 1) (\<lambda>family.
         if family \<noteq> AF_LINK then Inr (lla, False)
         else bind_r (ld8 sa 5) (\<lambda>nlen.
         if length name \<noteq> unat nlen then Inr (Some sa, False)
         else bind_r (bytes_at sa 8 (unat nlen)) (\<lambda>nm. Inr (Some sa, nm = map of_char name)))))))"

fun if_nametosdl_loop :: "nat \<Rightarrow> string \<Rightarrow> byte list \<Rightarrow> nat \<Rightarrow> byte list option \<Rightarrow> (nat \<times> byte list option) result" where
  "if_nametosdl_loop 0 name buf pos lla = (if pos < length buf then Inl Diverge else Inr (pos, lla))"
| "if_nametosdl_loop (Suc fuel) name buf pos lla =
     (if \<not> pos < length buf then Inr (pos, lla)
      else bind_r (sdl_probe name (drop pos buf) lla) (\<lambda>(lla', same).
        if same then Inr (pos, lla')
        else bind_r (ld16 (drop pos buf) 0) (\<lambda>msglen.
          if_nametosdl_loop fuel name buf (pos + unat msglen) lla')))"

definition sdl_copy :: "byte list \<Rightarrow> sockaddr_dl result" where
  "sdl_copy sa =
     bind_r (ld8 sa 0) (\<lambda>sdl_len.
     bind_r (bytes_at sa 0 (unat sdl_len)) (\<lambda>d.
     bind_r (ld16 d 2) (\<lambda>index. bind_r (ld8 d 4) (\<lambda>typ. bind_r (ld8 d 5) (\<lambda>nlen.
     Inr \<lparr>sdl_index = uint index, sdl_type = typ, sdl_lladdr = drop (8 + unat nlen) d\<rparr>)))))"

definition if_nametosdl :: "byte list option \<Rightarrow> string \<Rightarrow> sockaddr_dl option result" where
  "if_nametosdl iflist name =
     (case iflist of
        None \<Rightarrow> Inr None
      | Some buf \<Rightarrow>
          bind_r (if_nametosdl_loop (length buf) name buf 0 None) (\<lambda>(next, lla).
          if next = length buf then Inr None
          else case lla of None \<Rightarrow> Inr None | Some sa \<Rightarrow> bind_r (sdl_copy sa) (\<lambda>d. Inr (Some d))))"

section \<open>Parsing the interface list\<close>

definition ifm_of :: "byte list \<Rightarrow> if_msghdr" where
  "ifm_of m = \<lparr>ifm_index = uint (rd16 (rev (take 2 (drop 12 m)))), ifm_flags = le32 (take 4 (drop 8 m))\<rparr>"

definition ifinfo_ok :: "byte list \<Rightarrow> bool" where
  "ifinfo_ok m \<longleftrightarrow> rtmsgs.msg_ok m \<and> m ! 3 = RTM_IFINFO \<and> 14 \<le> length m"

definition ifam_ok :: "byte list \<Rightarrow> bool" where
  "ifam_ok m \<longleftrightarrow> rtmsgs.msg_ok m \<and> m ! 3 = RTM_NEWADDR"

lemma msg_loads:
  assumes "rtmsgs.msg_ok m"
  shows "\<exists>w. ld16 (m @ c) 0 = Inr w \<and> unat w = length m \<and> w \<noteq> 0" "ld8 (m @ c) 3 = Inr (m ! 3)"
proof -
  have m: "4 \<le> length m" "rtm_msglen m = length m" using assms by (auto simp: rtmsgs.msg_ok_def)
  have "rtm_msglen (m @ c) = length m" using m by (simp add: rtm_msglen_def)
  then obtain w where w: "ld16 (m @ c) 0 = Inr w" "unat w = length m"
    using ld16_msglen [of "m @ c"] m(1) by auto
  moreover have "w \<noteq> 0" using w(2) m(1) by auto
  ultimately show "\<exists>w. ld16 (m @ c) 0 = Inr w \<and> unat w = length m \<and> w \<noteq> 0" by blast
  show "ld8 (m @ c) 3 = Inr (m ! 3)" using m(1) by (simp add: ld8_Inr nth_append)
qed

lemma msg_ok_nonempty [simp]: "rtmsgs.msg_ok m \<Longrightarrow> m \<noteq> []"
  by (auto simp: rtmsgs.msg_ok_def)

lemma skip_ifam_concat:
  assumes "\<forall>a \<in> set as. ifam_ok a" and "rest = [] \<or> (\<exists>m c. rest = m @ c \<and> ifinfo_ok m)"
  shows "skip_ifam (concat as @ rest) = Inr (Some rest)"
  using assms(1)
proof (induction as)
  case Nil
  from assms(2) show ?case
  proof (elim disjE exE conjE)
    fix m c assume "rest = m @ c" "ifinfo_ok m"
    then show ?thesis using msg_loads [of m c]
      by (auto simp: skip_ifam.simps [of "m @ c"] ifinfo_ok_def)
  qed (simp add: skip_ifam.simps)
next
  case (Cons a as)
  then have "rtmsgs.msg_ok a" "a ! 3 = RTM_NEWADDR" by (auto simp: ifam_ok_def)
  with msg_loads [of a "concat as @ rest"] Cons show ?case
    by (auto simp: skip_ifam.simps [of "a @ concat as @ rest"])
qed

lemma ifinfo_loads:
  assumes "ifinfo_ok m"
  shows "ld16 (m @ c) 12 = Inr (rd16 (rev (take 2 (drop 12 m))))" "ld32 (m @ c) 8 = Inr (le32 (take 4 (drop 8 m)))"
  using assms by (auto simp: ifinfo_ok_def ld16_def ld32_def bytes_at_def)

type_synonym if_group = "byte list \<times> byte list list"

definition group_bytes :: "if_group \<Rightarrow> byte list" where
  "group_bytes g = fst g @ concat (snd g)"

definition group_ok :: "if_group \<Rightarrow> bool" where
  "group_ok g \<longleftrightarrow> ifinfo_ok (fst g) \<and> (\<forall>a \<in> set (snd g). ifam_ok a)"

text \<open>One interface that is not in the list yet, with its address messages.\<close>

lemma parse_iflist_group:
  assumes g: "group_ok g" and rest: "rest = [] \<or> (\<exists>m c. rest = m @ c \<and> ifinfo_ok m)"
    and new: "ifm_index (ifm_of (fst g)) \<notin> ifm_index ` set ifl"
  shows "parse_iflist_loop (Suc fuel) (group_bytes g @ rest) ifl = parse_iflist_loop fuel rest (ifl @ [ifm_of (fst g)])"
proof -
  obtain m as where m_as: "g = (m, as)" by (cases g)
  then have m: "ifinfo_ok m" "rtmsgs.msg_ok m" "m ! 3 = RTM_IFINFO" "m \<noteq> []" and as: "\<forall>a \<in> set as. ifam_ok a"
    using g by (auto simp: group_ok_def ifinfo_ok_def)
  let ?c = "concat as @ rest"
  have sk: "skip_ifam ?c = Inr (Some rest)" by (rule skip_ifam_concat [OF as rest])
  obtain w where w: "ld16 (m @ ?c) 0 = Inr w" "unat w = length m" "w \<noteq> 0"
    using msg_loads(1) [OF m(2), of ?c] by blast
  have "find (\<lambda>e. ifm_index e = uint (rd16 (rev (take 2 (drop 12 m))))) ifl = None"
    using new m_as by (auto simp: find_None_iff ifm_of_def image_iff)
  then show ?thesis
    using w msg_loads(2) [OF m(2), of ?c] m(3,4) ifinfo_loads [OF m(1), of ?c] sk
    by (simp add: Let_def ifm_of_def m_as group_bytes_def)
qed

lemma groups_start: "\<forall>g \<in> set gs. group_ok g \<Longrightarrow>
  concat (map group_bytes gs) = [] \<or> (\<exists>m c. concat (map group_bytes gs) = m @ c \<and> ifinfo_ok m)"
  by (cases gs) (auto simp: group_bytes_def group_ok_def)

lemma parse_iflist_groups:
  assumes "\<forall>g \<in> set gs. group_ok g" "length gs \<le> fuel"
    "distinct (map ifm_index (ifl @ map (\<lambda>g. ifm_of (fst g)) gs))"
  shows "parse_iflist_loop fuel (concat (map group_bytes gs)) ifl = Inr (ifl @ map (\<lambda>g. ifm_of (fst g)) gs)"
  using assms
proof (induction gs arbitrary: ifl fuel)
  case Nil
  then show ?case by (cases fuel) simp_all
next
  case (Cons g gs)
  obtain f where f: "fuel = Suc f" "length gs \<le> f" using Cons.prems(2) by (cases fuel) auto
  have "distinct (map ifm_index ((ifl @ [ifm_of (fst g)]) @ map (\<lambda>g. ifm_of (fst g)) gs))"
    using Cons.prems(3) by simp
  moreover have "ifm_index (ifm_of (fst g)) \<notin> ifm_index ` set ifl" using Cons.prems(3) by auto
  moreover have "group_ok g" "\<forall>g \<in> set gs. group_ok g" using Cons.prems(1) by simp_all
  ultimately show ?case
    using Cons.IH [of f "ifl @ [ifm_of (fst g)]"] parse_iflist_group [OF _ groups_start, of g gs ifl f] f
    by (simp del: parse_iflist_loop.simps)
qed

lemma parse_iflist_duplicate:
  assumes "ifinfo_ok m" "ifm_index (ifm_of m) \<in> ifm_index ` set ifl"
  shows "parse_iflist_loop fuel (m @ c) ifl = Inl Diverge"
proof (induction fuel)
  case 0
  then show ?case using assms by (auto simp: ifinfo_ok_def)
next
  case (Suc fuel)
  have m: "rtmsgs.msg_ok m" "m ! 3 = RTM_IFINFO" using assms(1) by (auto simp: ifinfo_ok_def)
  have "find (\<lambda>e. ifm_index e = uint (rd16 (rev (take 2 (drop 12 m))))) ifl \<noteq> None"
    using assms(2) by (auto simp: find_None_iff ifm_of_def)
  moreover obtain w where "ld16 (m @ c) 0 = Inr w" "w \<noteq> 0" using msg_loads(1) [OF m(1)] by blast
  moreover have "m \<noteq> []" using m(1) by simp
  ultimately show ?case
    using msg_loads(2) [OF m(1), of c] m(2) ifinfo_loads [OF assms(1), of c] Suc by simp
qed

lemma parse_iflist_repeated:
  assumes "\<forall>g \<in> set gs. group_ok g" "ifinfo_ok m"
    "ifm_index (ifm_of m) \<in> ifm_index ` (set ifl \<union> (\<lambda>g. ifm_of (fst g)) ` set gs)"
  shows "parse_iflist_loop fuel (concat (map group_bytes gs) @ m @ c) ifl = Inl Diverge"
  using assms
proof (induction gs arbitrary: ifl fuel)
  case Nil
  then show ?case using parse_iflist_duplicate [of m ifl fuel c] by (simp del: parse_iflist_loop.simps)
next
  case (Cons g gs)
  let ?rest = "concat (map group_bytes gs) @ m @ c"
  have g: "group_ok g" "ifinfo_ok (fst g)" using Cons.prems(1) by (auto simp: group_ok_def)
  have rest: "\<exists>m c. ?rest = m @ c \<and> ifinfo_ok m"
    using groups_start [of gs] Cons.prems(1,2) by (metis append.assoc append.left_neutral list.set_intros(2))
  show ?case
  proof (cases "ifm_index (ifm_of (fst g)) \<in> ifm_index ` set ifl")
    case True
    from parse_iflist_duplicate [OF g(2) True] show ?thesis by (simp add: group_bytes_def del: parse_iflist_loop.simps)
  next
    case False
    note step = parse_iflist_group [OF g(1) disjI2 [OF rest] False]
    show ?thesis
    proof (cases fuel)
      case 0
      then show ?thesis using g(2) by (simp add: group_bytes_def ifinfo_ok_def)
    next
      case (Suc f)
      have "parse_iflist_loop f ?rest (ifl @ [ifm_of (fst g)]) = Inl Diverge"
        using Cons.prems by (intro Cons.IH) auto
      then show ?thesis using step [of f] Suc by (simp del: parse_iflist_loop.simps)
    qed
  qed
qed

lemma group_fuel: "\<forall>g \<in> set gs. group_ok g \<Longrightarrow> length gs \<le> length (concat (map group_bytes gs))"
proof (induction gs)
  case (Cons g gs)
  then have "1 \<le> length (group_bytes g)" by (auto simp: group_ok_def group_bytes_def ifinfo_ok_def Suc_le_eq)
  with Cons show ?case by (simp del: length_concat length_greater_0_conv)
qed simp

end
