(* ===== verification/Daemon.thy ===== *)
theory Daemon
  imports Packet Rtmsg
begin

text \<open>
  The running daemon (\<open>src/rtadvd.tproj/rtadvd.c\<close>, and the prefix functions of
  \<open>config.c\<close>). Its state extends the timer queue with the advertising interfaces
  \<open>ralist\<close>, the interface table \<open>ifilist\<close> of \<open>if.c\<close>, the packets handed to \<open>sendmsg\<close>, and what
  the environment answers: the numbers \<open>random()\<close> yields, the flags the \<open>SIOCGIFFLAGS\<close>
  requests of \<open>if_getflags\<close> yield (\<open>None\<close> for a failure), the interface lists the sysctl of
  \<open>get_iflist\<close> yields, and the interface indices \<open>if_indextoname\<close> knows. The two expiry functions of the source, \<open>ra_timeout\<close> and
  \<open>prefix_timeout\<close>, and the update function \<open>ra_timer_update\<close>, each with its data pointer,
  are the constructors of \<open>expire_cb\<close> and \<open>update_cb\<close>.

  \<open>dinv\<close> is the invariant of the state; every operation keeps it. It interprets the
  contract of the timer queue for the daemon's own callbacks, so the main loop's call of
  \<open>rtadvd_check_timer\<close> returns and uses no freed object.
\<close>

section \<open>State\<close>

datatype expire_cb = Ra_timeout nat | Prefix_timeout nat

datatype update_cb = Ra_timer_update nat

text \<open>A renumbering request handed to the kernel, and the progress of renumbering commands.\<close>

record in6_rrenumreq =
  irr_code :: nat
  irr_ifindex :: int
  irr_m_len :: byte
  irr_m_minlen :: byte
  irr_m_maxlen :: byte
  irr_matchprefix :: in6_addr
  irr_u_uselen :: byte
  irr_u_keeplen :: byte
  irr_raf_mask_onlink :: bool
  irr_raf_mask_auto :: bool
  irr_vltime :: u32
  irr_pltime :: u32
  irr_raf_onlink :: bool
  irr_raf_auto :: bool
  irr_rrf_decrvalid :: bool
  irr_rrf_decrprefd :: bool
  irr_useprefix :: "in6_addr option"

record rr_operation =
  rro_seqnum :: "64 word"
  rro_segnum_bits :: "64 word list"

record rtadvd = "(expire_cb, update_cb) timers" +
  rand :: "nat \<Rightarrow> int"
  rand_calls :: nat
  ralist :: "rainfo list"
  ifilist :: "if_msghdr list"
  next_addr :: nat
  sent :: "(int \<times> byte list) list"
  kflags :: "nat \<Rightarrow> u32 option"
  kflags_calls :: nat
  indextoname :: "int \<Rightarrow> bool"
  sflag :: bool
  accept_rr :: bool
  kiflist :: "nat \<Rightarrow> byte list option"
  kiflist_calls :: nat
  rro :: rr_operation
  renumreqs :: "in6_rrenumreq list"

abbreviation (input) IFF_UP :: u32 where "IFF_UP \<equiv> 1"
abbreviation (input) MAX_INITIAL_RTR_ADVERT_INTERVAL :: int where "MAX_INITIAL_RTR_ADVERT_INTERVAL \<equiv> 16"
abbreviation (input) MAX_INITIAL_RTR_ADVERTISEMENTS :: int where "MAX_INITIAL_RTR_ADVERTISEMENTS \<equiv> 3"
abbreviation (input) MIN_DELAY_BETWEEN_RAS :: int where "MIN_DELAY_BETWEEN_RAS \<equiv> 3"
abbreviation (input) MAX_RA_DELAY_TIME :: int where "MAX_RA_DELAY_TIME \<equiv> 500000"

definition random :: "rtadvd \<Rightarrow> int \<times> rtadvd" where
  "random s = (rand s (rand_calls s), s\<lparr>rand_calls := Suc (rand_calls s)\<rparr>)"

definition rai_at :: "nat \<Rightarrow> rtadvd \<Rightarrow> rainfo option" where
  "rai_at r s = find (\<lambda>rai. rai_id rai = r) (ralist s)"

definition rai_upd :: "nat \<Rightarrow> (rainfo \<Rightarrow> rainfo) \<Rightarrow> rtadvd \<Rightarrow> rtadvd" where
  "rai_upd r f s = s\<lparr>ralist := map (\<lambda>rai. if rai_id rai = r then f rai else rai) (ralist s)\<rparr>"

definition if_indextorainfo :: "int \<Rightarrow> rtadvd \<Rightarrow> rainfo option" where
  "if_indextorainfo idx s = find (\<lambda>rai. ifindex rai = idx) (ralist s)"

definition get_interface_entry :: "int \<Rightarrow> rtadvd \<Rightarrow> if_msghdr option" where
  "get_interface_entry if_index s = find (\<lambda>ifm. ifm_index ifm = if_index) (ifilist s)"

text \<open>\<open>prefix->rainfo\<close>: the interface whose list holds the node.\<close>

definition prefix_rainfo :: "nat \<Rightarrow> rtadvd \<Rightarrow> (rainfo \<times> prefix) option" where
  "prefix_rainfo p s =
     (case find (\<lambda>rai. p \<in> set (map pfx_id (prefix_list rai))) (ralist s) of
        None \<Rightarrow> None
      | Some rai \<Rightarrow>
          (case find (\<lambda>pp. pfx_id pp = p) (prefix_list rai) of
             None \<Rightarrow> None
           | Some pp \<Rightarrow> Some (rai, pp)))"

section \<open>Sending\<close>

definition ra_output :: "nat \<Rightarrow> rtadvd \<Rightarrow> rtadvd result" where
  "ra_output r s =
     (case rai_at r s of
        None \<Rightarrow> Inl UseAfterFree
      | Some rainfo \<Rightarrow>
          (case get_interface_entry (ifindex rainfo) s of
             None \<Rightarrow> Inr s
           | Some ifm \<Rightarrow>
               if ifm_flags ifm AND IFF_UP = 0 then Inr s
               else bind_r (make_packet rainfo s) (\<lambda>(rai, s1).
                 let s2 = s1\<lparr>sent := sent s1 @ [(ifindex rai, the (ra_data rai))]\<rparr>;
                     (now, s3) = gettimeofday s2
                 in Inr (rai_upd r (\<lambda>_. rai\<lparr>
                      initcounter := (if initcounter rai < MAX_INITIAL_RTR_ADVERTISEMENTS
                                      then initcounter rai + 1 else initcounter rai),
                      raoutput := raoutput rai + 1,
                      soliciter := [],
                      lastsent := now,
                      waiting := 0\<rparr>) s3))))"

definition ra_timeout :: "nat \<Rightarrow> rtadvd \<Rightarrow> (bool \<times> rtadvd) result" where
  "ra_timeout r s =
     bind_r (ra_output r s) (\<lambda>s1.
       case rai_at r s1 of
         None \<Rightarrow> Inl UseAfterFree
       | Some rai \<Rightarrow> Inr (rai_timer rai \<noteq> None, s1))"

definition ra_timer_update :: "nat \<Rightarrow> rtadvd \<Rightarrow> (timeval \<times> rtadvd) result" where
  "ra_timer_update r s =
     (case rai_at r s of
        None \<Rightarrow> Inl UseAfterFree
      | Some rai \<Rightarrow>
          let (rnd, s1) = random s
          in if maxinterval rai - mininterval rai = 0 then Inl DivByZero
             else let interval0 = uint (mininterval rai) + rnd mod uint (maxinterval rai - mininterval rai);
                      interval = (if initcounter rai < MAX_INITIAL_RTR_ADVERTISEMENTS \<and>
                                     interval0 > MAX_INITIAL_RTR_ADVERT_INTERVAL
                                  then MAX_INITIAL_RTR_ADVERT_INTERVAL else interval0)
                  in Inr (Timeval (if initcounter rai = 0 then 0 else interval) 0, s1))"

definition set_short_delay :: "nat \<Rightarrow> rtadvd \<Rightarrow> rtadvd result" where
  "set_short_delay r s =
     (case rai_at r s of
        None \<Rightarrow> Inl UseAfterFree
      | Some rai \<Rightarrow>
          (case rai_timer rai of
             None \<Rightarrow> Inr s
           | Some t \<Rightarrow>
               let (rnd, s1) = random s;
                   delay = Timeval 0 (rnd mod MAX_RA_DELAY_TIME)
               in bind_r (rtadvd_timer_rest t s1) (\<lambda>(rest, s2).
                  let interval = (if TIMEVAL_LT rest delay then rest else delay);
                      (now, s3) = gettimeofday s2;
                      tm_tmp = TIMEVAL_SUB now (lastsent rai);
                      min_delay = Timeval MIN_DELAY_BETWEEN_RAS 0;
                      interval' = (if TIMEVAL_LT tm_tmp min_delay
                                   then TIMEVAL_ADD (TIMEVAL_SUB min_delay tm_tmp) interval
                                   else interval)
                  in rtadvd_set_timer interval' t s3)))"

section \<open>Prefixes\<close>

abbreviation (input) DEF_ADVVALIDLIFETIME :: u32 where "DEF_ADVVALIDLIFETIME \<equiv> 2592000"
abbreviation (input) DEF_ADVPREFERREDLIFETIME :: u32 where "DEF_ADVPREFERREDLIFETIME \<equiv> 604800"
abbreviation (input) prefix_timo :: int where "prefix_timo \<equiv> 60 * 120"

record in6_prefixreq =
  ipr_prefix :: in6_addr
  ipr_plen :: nat
  ipr_vltime :: u32
  ipr_pltime :: u32
  ipr_raf_onlink :: u32
  ipr_raf_auto :: u32

definition init_prefix :: "in6_prefixreq \<Rightarrow> in6_prefixreq" where
  "init_prefix ipr = ipr\<lparr>ipr_vltime := DEF_ADVVALIDLIFETIME, ipr_pltime := DEF_ADVPREFERREDLIFETIME,
     ipr_raf_onlink := 1, ipr_raf_auto := 1\<rparr>"

definition add_prefix :: "nat \<Rightarrow> in6_prefixreq \<Rightarrow> rtadvd \<Rightarrow> rtadvd result" where
  "add_prefix r ipr s =
     (let p = next_addr s;
          prefix = \<lparr>pfx_id = p, pfx_timer = None, validlifetime = ipr_vltime ipr, vltimeexpire = 0,
            preflifetime = ipr_pltime ipr, pltimeexpire = 0, onlinkflg = ipr_raf_onlink ipr,
            autoconfflg = ipr_raf_auto ipr, pfx_prefixlen = ipr_plen ipr,
            origin = PREFIX_FROM_DYNAMIC, pfx_prefix = ipr_prefix ipr\<rparr>;
          s1 = rai_upd r (\<lambda>rai. rai\<lparr>prefix_list := prefix # prefix_list rai, ra_data := None,
                                     pfxs := pfxs rai + 1\<rparr>) (s\<lparr>next_addr := Suc p\<rparr>)
      in case rai_at r s1 of
           None \<Rightarrow> Inl UseAfterFree
         | Some rai \<Rightarrow>
             bind_r (make_packet rai s1) (\<lambda>(rai', s2). Inr (rai_upd r (\<lambda>_. rai') s2)))"

definition make_prefix :: "nat \<Rightarrow> int \<Rightarrow> in6_addr \<Rightarrow> nat \<Rightarrow> rtadvd \<Rightarrow> rtadvd result" where
  "make_prefix r idx addr plen s =
     (if \<not> indextoname s idx then Inl (Exit 1)
      else let ipr = \<lparr>ipr_prefix = addr, ipr_plen = plen mod 256, ipr_vltime = 0, ipr_pltime = 0,
                      ipr_raf_onlink = 0, ipr_raf_auto = 0\<rparr>
           in add_prefix r (init_prefix ipr) s)"

definition delete_prefix :: "nat \<Rightarrow> rtadvd \<Rightarrow> rtadvd result" where
  "delete_prefix p s =
     (case prefix_rainfo p s of
        None \<Rightarrow> Inl UseAfterFree
      | Some (rai, prefix) \<Rightarrow>
          bind_r (if pfx_timer prefix \<noteq> None then rtadvd_remove_timer (pfx_timer prefix) s else Inr s) (\<lambda>s1.
            Inr (rai_upd (rai_id rai) (\<lambda>rai. rai\<lparr>prefix_list := filter (\<lambda>pp. pfx_id pp \<noteq> p) (prefix_list rai),
                                                 pfxs := pfxs rai - 1\<rparr>) s1)))"

definition prefix_timeout :: "nat \<Rightarrow> rtadvd \<Rightarrow> (bool \<times> rtadvd) result" where
  "prefix_timeout p s = bind_r (delete_prefix p s) (\<lambda>s1. Inr (False, s1))"

definition set_pfx_timer :: "nat \<Rightarrow> nat option \<Rightarrow> rainfo \<Rightarrow> rainfo" where
  "set_pfx_timer p t rai =
     rai\<lparr>prefix_list := map (\<lambda>pp. if pfx_id pp = p then pp\<lparr>pfx_timer := t\<rparr> else pp) (prefix_list rai)\<rparr>"

definition invalidate_prefix :: "nat \<Rightarrow> rtadvd \<Rightarrow> rtadvd result" where
  "invalidate_prefix p s =
     (case prefix_rainfo p s of
        None \<Rightarrow> Inl UseAfterFree
      | Some (rai, prefix) \<Rightarrow>
          if pfx_timer prefix \<noteq> None then Inl (Exit 1)
          else bind_r (rtadvd_add_timer (Some (Prefix_timeout p)) None s) (\<lambda>(t, s1).
            rtadvd_set_timer (Timeval prefix_timo 0) t
              (rai_upd (rai_id rai) (set_pfx_timer p (Some t)) s1)))"

definition update_prefix :: "nat \<Rightarrow> rtadvd \<Rightarrow> rtadvd result" where
  "update_prefix p s =
     (case prefix_rainfo p s of
        None \<Rightarrow> Inl UseAfterFree
      | Some (rai, prefix) \<Rightarrow>
          if pfx_timer prefix = None then Inl (Exit 1)
          else bind_r (rtadvd_remove_timer (pfx_timer prefix) s) (\<lambda>s1.
            Inr (rai_upd (rai_id rai) (set_pfx_timer p None) s1)))"

section \<open>Callbacks\<close>

fun expire_fn :: "expire_cb \<Rightarrow> rtadvd \<Rightarrow> (bool \<times> rtadvd) result" where
  "expire_fn (Ra_timeout r) s = ra_timeout r s"
| "expire_fn (Prefix_timeout p) s = prefix_timeout p s"

fun update_fn :: "update_cb \<Rightarrow> rtadvd \<Rightarrow> (timeval \<times> rtadvd) result" where
  "update_fn (Ra_timer_update r) s = ra_timer_update r s"

abbreviation (input) check_timer :: "rtadvd \<Rightarrow> (timeval option \<times> rtadvd) result" where
  "check_timer \<equiv> rtadvd_check_timer expire_fn update_fn"

section \<open>The invariant\<close>

abbreviation all_prefixes :: "rainfo list \<Rightarrow> prefix list" where
  "all_prefixes ras \<equiv> concat (map prefix_list ras)"

type_synonym timer_node = "(expire_cb, update_cb) rtadvd_timer"

text \<open>Every node's data pointer is the address of a live object that points back.\<close>

definition timer_ok :: "rainfo list \<Rightarrow> timer_node \<Rightarrow> bool" where
  "timer_ok ras t \<longleftrightarrow> tv_time (tm t) \<and>
     (case expire t of
        Ra_timeout r \<Rightarrow> update t = Some (Ra_timer_update r) \<and> r \<in> rai_id ` set ras
      | Prefix_timeout p \<Rightarrow> update t = None \<and>
          (\<exists>pp \<in> set (all_prefixes ras). pfx_id pp = p \<and> pfx_timer pp = Some (tid t)))"

definition armed :: "timer_node list \<Rightarrow> nat option \<Rightarrow> expire_cb \<Rightarrow> bool" where
  "armed ts q e \<longleftrightarrow> (\<forall>p. q = Some p \<longrightarrow> (\<exists>t \<in> set ts. tid t = p \<and> expire t = e))"

definition rai_ok :: "timer_node list \<Rightarrow> rainfo \<Rightarrow> bool" where
  "rai_ok ts rai \<longleftrightarrow> rainfo_wf rai \<and>
     3 \<le> mininterval rai \<and> mininterval rai < maxinterval rai \<and> maxinterval rai \<le> 1800 \<and>
     0 \<le> initcounter rai \<and> 0 \<le> waiting rai \<and> tv_time (lastsent rai) \<and>
     armed ts (rai_timer rai) (Ra_timeout (rai_id rai)) \<and>
     (\<forall>pp \<in> set (prefix_list rai). armed ts (pfx_timer pp) (Prefix_timeout (pfx_id pp)))"

definition dinv :: "rtadvd \<Rightarrow> bool" where
  "dinv s \<longleftrightarrow>
     distinct (timer_ids s) \<and>
     (\<forall>t \<in> set (timer_list s). tid t < timer_next_id s \<and> timer_ok (ralist s) t) \<and>
     (\<forall>n. tv_time (gtod s n)) \<and> (\<forall>n. 0 \<le> rand s n) \<and>
     distinct (map rai_id (ralist s)) \<and>
     (\<forall>i \<in> set (map rai_id (ralist s)). i < next_addr s) \<and>
     (\<forall>rai \<in> set (ralist s). rai_ok (timer_list s) rai) \<and>
     distinct (map pfx_id (all_prefixes (ralist s))) \<and>
     (\<forall>i \<in> set (map pfx_id (all_prefixes (ralist s))). i < next_addr s)"

section \<open>The environment and the store\<close>

lemma dinv_env [simp]:
  "dinv (s\<lparr>gtod_calls := n\<rparr>) = dinv s" "dinv (s\<lparr>timer_head_tm := v\<rparr>) = dinv s"
  "dinv (s\<lparr>rand_calls := n\<rparr>) = dinv s" "dinv (s\<lparr>sent := x\<rparr>) = dinv s"
  "dinv (s\<lparr>kflags_calls := n\<rparr>) = dinv s" "dinv (s\<lparr>ifilist := is\<rparr>) = dinv s"
  "dinv (s\<lparr>kiflist_calls := n\<rparr>) = dinv s" "dinv (s\<lparr>rro := ro\<rparr>) = dinv s"
  "dinv (s\<lparr>renumreqs := rs\<rparr>) = dinv s"
  by (simp_all add: dinv_def)

lemma armed_map:
  "(\<And>t. t \<in> set ts \<Longrightarrow> tid (f t) = tid t \<and> expire (f t) = expire t) \<Longrightarrow>
   armed ts q e \<Longrightarrow> armed (map f ts) q e"
  by (fastforce simp: armed_def)

lemma rai_ok_map:
  "(\<And>t. t \<in> set ts \<Longrightarrow> tid (f t) = tid t \<and> expire (f t) = expire t) \<Longrightarrow>
   rai_ok ts rai \<Longrightarrow> rai_ok (map f ts) rai"
  by (auto simp: rai_ok_def intro: armed_map)

lemma dinv_set_tm:
  assumes "dinv s" "tv_time v"
  shows "dinv (set_tm p v s)"
proof -
  have "rai_ok (timer_list (set_tm p v s)) rai" if "rai_ok (timer_list s) rai" for rai
    using rai_ok_map [OF _ that] by (simp add: set_tm_def)
  moreover have "timer_ok ras (t\<lparr>tm := v\<rparr>)" if "timer_ok ras t" for ras t
    using that assms(2) by (simp add: timer_ok_def split: expire_cb.splits)
  moreover have "timer_next_id (set_tm p v s) = timer_next_id s" "ralist (set_tm p v s) = ralist s"
    "rand (set_tm p v s) = rand s" "next_addr (set_tm p v s) = next_addr s"
    by (simp_all add: set_tm_def)
  ultimately show ?thesis
    using assms(1) unfolding dinv_def by (auto simp: set_tm_mem)
qed

lemma rai_at_Some:
  "dinv s \<Longrightarrow> rai_at r s = Some rai \<longleftrightarrow> rai \<in> set (ralist s) \<and> rai_id rai = r"
  by (simp add: rai_at_def dinv_def find_eq_Some_distinct)

lemma rai_at_ex: "r \<in> rai_id ` set (ralist s) \<Longrightarrow> \<exists>rai. rai_at r s = Some rai"
  by (cases "rai_at r s") (auto simp: rai_at_def find_None_iff)

lemma rai_at_env [simp]:
  "rai_at r (s\<lparr>gtod_calls := n\<rparr>) = rai_at r s" "rai_at r (s\<lparr>rand_calls := n\<rparr>) = rai_at r s"
  "rai_at r (s\<lparr>sent := x\<rparr>) = rai_at r s" "rai_at r (s\<lparr>next_addr := a\<rparr>) = rai_at r s"
  by (simp_all add: rai_at_def)

lemma rai_upd_simps [simp]:
  "timer_list (rai_upd r f s) = timer_list s" "timer_head_tm (rai_upd r f s) = timer_head_tm s"
  "timer_next_id (rai_upd r f s) = timer_next_id s" "gtod (rai_upd r f s) = gtod s"
  "gtod_calls (rai_upd r f s) = gtod_calls s" "rand (rai_upd r f s) = rand s"
  "next_addr (rai_upd r f s) = next_addr s" "ifilist (rai_upd r f s) = ifilist s"
  "accept_rr (rai_upd r f s) = accept_rr s"
  "timer_at p (rai_upd r f s) = timer_at p s"
  by (simp_all add: rai_upd_def timer_at_def)

lemma rai_at_upd:
  assumes "rai_id (f rai) = r" "rai_at r s = Some rai"
  shows "rai_at r (rai_upd r f s) = Some (f rai)"
proof -
  have "find (\<lambda>x. rai_id x = r) (map (\<lambda>x. if rai_id x = r then f x else x) xs) = Some (f rai)"
    if "find (\<lambda>x. rai_id x = r) xs = Some rai" for xs
    using that assms(1) by (induction xs) (auto split: if_splits)
  then show ?thesis using assms(2) by (simp add: rai_at_def rai_upd_def)
qed

text \<open>A change of one interface that keeps its prefixes.\<close>

lemma dinv_rai_upd:
  assumes inv: "dinv s"
    and f: "\<And>rai. rai_at r s = Some rai \<Longrightarrow>
      rai_id (f rai) = r \<and> prefix_list (f rai) = prefix_list rai \<and> rai_ok (timer_list s) (f rai)"
  shows "dinv (rai_upd r f s)"
proof -
  define g where "g rai = (if rai_id rai = r then f rai else rai)" for rai
  have g: "rai_id (g rai) = rai_id rai \<and> prefix_list (g rai) = prefix_list rai \<and> rai_ok (timer_list s) (g rai)"
    if "rai \<in> set (ralist s)" for rai
    using that inv f [of rai] rai_at_Some [OF inv, of r rai] by (auto simp: g_def dinv_def)
  have ras: "ralist (rai_upd r f s) = map g (ralist s)"
    by (simp add: rai_upd_def g_def)
  have ids: "map rai_id (map g (ralist s)) = map rai_id (ralist s)"
    using g by simp
  have pfx: "map prefix_list (map g (ralist s)) = map prefix_list (ralist s)"
    using g by simp
  have idset: "rai_id ` set (map g (ralist s)) = rai_id ` set (ralist s)"
    using ids by (metis list.set_map)
  have tok: "timer_ok (map g (ralist s)) t = timer_ok (ralist s) t" for t
    unfolding timer_ok_def idset pfx ..
  have "rai_ok (timer_list s) rai" if "rai \<in> set (map g (ralist s))" for rai
    using that g by auto
  then show ?thesis
    using inv unfolding dinv_def ras ids pfx tok rai_upd_simps by blast
qed

section \<open>Sending keeps the invariant\<close>

lemma prefix_options_state: "\<exists>n. snd (prefix_options ps s) = s\<lparr>gtod_calls := n\<rparr>"
proof (induction ps arbitrary: s)
  case Nil
  show ?case by (rule exI [of _ "gtod_calls s"]) simp
next
  case (Cons p ps)
  obtain n where "snd (prefix_options ps (s\<lparr>gtod_calls := Suc (gtod_calls s)\<rparr>)) =
      s\<lparr>gtod_calls := Suc (gtod_calls s)\<rparr>\<lparr>gtod_calls := n\<rparr>"
    using Cons.IH by blast
  moreover obtain m where "snd (prefix_options ps s) = s\<lparr>gtod_calls := m\<rparr>"
    using Cons.IH by blast
  ultimately show ?case
    by (cases "reads_clock p") (auto simp: case_prod_unfold Let_def gettimeofday_def)
qed

lemma packet_options_state:
  assumes "packet_options rai s = Inr (os, s')"
  shows "\<exists>n. s' = s\<lparr>gtod_calls := n\<rparr>"
proof -
  have "s' = snd (prefix_options (prefix_list rai) s)"
    using assms by (auto simp: packet_options_def res_simps case_prod_unfold Let_def)
  then show ?thesis using prefix_options_state by metis
qed

definition with_data :: "byte list \<Rightarrow> rainfo \<Rightarrow> rainfo" where
  "with_data b rai = (settled rai)\<lparr>ra_data := Some b, ra_datalen := length b\<rparr>"

lemma make_packet_data:
  assumes "rainfo_wf rai"
  shows "\<exists>b n. make_packet rai s = Inr (with_data b rai, s\<lparr>gtod_calls := n\<rparr>)"
proof -
  obtain os s' where os: "packet_options (settled rai) s = Inr (os, s')"
    and mp: "make_packet rai s = Inr ((settled rai)\<lparr>ra_data := Some (ra_header (settled rai) @ concat os),
      ra_datalen := 16 + length (concat os)\<rparr>, s')"
    using make_packet_ok [OF assms] by blast
  obtain n where "s' = s\<lparr>gtod_calls := n\<rparr>" using packet_options_state [OF os] by blast
  then show ?thesis
    using mp by (intro exI [of _ "ra_header (settled rai) @ concat os"] exI [of _ n]) (simp add: with_data_def)
qed

lemmas rainfo_wf_parts = rainfo_wf_def dnssl_ok_def capport_ok_def pref64_ok_def

lemma settled_fields [simp]:
  "rai_id (settled rai) = rai_id rai" "rai_timer (settled rai) = rai_timer rai"
  "ifindex (settled rai) = ifindex rai" "initcounter (settled rai) = initcounter rai"
  "lastsent (settled rai) = lastsent rai" "waiting (settled rai) = waiting rai"
  "maxinterval (settled rai) = maxinterval rai" "mininterval (settled rai) = mininterval rai"
  by (simp_all add: settled_def split: option.splits)

lemma with_data_fields [simp]:
  "rai_id (with_data b rai) = rai_id rai" "rai_timer (with_data b rai) = rai_timer rai"
  "ifindex (with_data b rai) = ifindex rai" "initcounter (with_data b rai) = initcounter rai"
  "lastsent (with_data b rai) = lastsent rai" "waiting (with_data b rai) = waiting rai"
  "maxinterval (with_data b rai) = maxinterval rai" "mininterval (with_data b rai) = mininterval rai"
  "prefix_list (with_data b rai) = prefix_list rai" "ra_data (with_data b rai) = Some b"
  by (simp_all add: with_data_def)

lemma rainfo_wf_upd [simp]:
  "rainfo_wf (rai\<lparr>ra_data := x\<rparr>) = rainfo_wf rai" "rainfo_wf (rai\<lparr>ra_datalen := n\<rparr>) = rainfo_wf rai"
  "rainfo_wf (rai\<lparr>initcounter := i\<rparr>) = rainfo_wf rai" "rainfo_wf (rai\<lparr>raoutput := n\<rparr>) = rainfo_wf rai"
  "rainfo_wf (rai\<lparr>soliciter := ss\<rparr>) = rainfo_wf rai" "rainfo_wf (rai\<lparr>lastsent := v\<rparr>) = rainfo_wf rai"
  "rainfo_wf (rai\<lparr>waiting := i\<rparr>) = rainfo_wf rai" "rainfo_wf (rai\<lparr>rai_timer := q\<rparr>) = rainfo_wf rai"
  "rainfo_wf (rai\<lparr>rsinput := n\<rparr>) = rainfo_wf rai" "rainfo_wf (rai\<lparr>rainput := n\<rparr>) = rainfo_wf rai"
  "rainfo_wf (rai\<lparr>rainconsistent := n\<rparr>) = rainfo_wf rai" "rainfo_wf (rai\<lparr>lifetime := l\<rparr>) = rainfo_wf rai"
  by (simp_all add: rainfo_wf_parts cong: option.case_cong)

lemma rainfo_wf_with_data [simp]: "rainfo_wf rai \<Longrightarrow> rainfo_wf (with_data b rai)"
  by (simp add: with_data_def)

lemma rai_ok_with_data: "rai_ok ts rai \<Longrightarrow> rai_ok ts (with_data b rai)"
  by (simp add: rai_ok_def)

lemma rai_ok_wf: "dinv s \<Longrightarrow> rai_at r s = Some rai \<Longrightarrow> rai_ok (timer_list s) rai \<and> rainfo_wf rai \<and> rai_id rai = r"
  using rai_at_Some [of s r rai] by (auto simp: dinv_def rai_ok_def)

lemma rai_at_same: "ralist s' = ralist s \<Longrightarrow> rai_at r s' = rai_at r s"
  by (simp add: rai_at_def)

text \<open>What \<open>ra_output\<close> leaves in the interface it sent for.\<close>

definition after_output :: "timeval \<Rightarrow> byte list \<Rightarrow> rainfo \<Rightarrow> rainfo" where
  "after_output now b rai = (with_data b rai)\<lparr>
     initcounter := (if initcounter rai < MAX_INITIAL_RTR_ADVERTISEMENTS
                     then initcounter rai + 1 else initcounter rai),
     raoutput := raoutput (with_data b rai) + 1, soliciter := [], lastsent := now, waiting := 0\<rparr>"

lemma after_output_fields [simp]:
  "rai_id (after_output now b rai) = rai_id rai" "rai_timer (after_output now b rai) = rai_timer rai"
  "prefix_list (after_output now b rai) = prefix_list rai" "ifindex (after_output now b rai) = ifindex rai"
  "lastsent (after_output now b rai) = now" "waiting (after_output now b rai) = 0"
  "soliciter (after_output now b rai) = []" "ra_data (after_output now b rai) = Some b"
  by (simp_all add: after_output_def)

lemma rai_ok_after_output:
  "rai_ok ts rai \<Longrightarrow> tv_time now \<Longrightarrow> rai_ok ts (after_output now b rai)"
  using rai_ok_with_data [of ts rai b] by (simp add: after_output_def rai_ok_def)

lemma ra_output_eq:
  assumes wf: "rai_at r s = Some rai" "rainfo_wf rai"
    and up: "get_interface_entry (ifindex rai) s = Some ifm" "ifm_flags ifm AND IFF_UP \<noteq> 0"
  shows "\<exists>b n. make_packet rai s = Inr (with_data b rai, s\<lparr>gtod_calls := n\<rparr>) \<and>
    ra_output r s = Inr (rai_upd r (\<lambda>_. after_output (gtod s n) b rai)
      (s\<lparr>sent := sent s @ [(ifindex rai, b)], gtod_calls := Suc n\<rparr>))"
proof -
  obtain b n where "make_packet rai s = Inr (with_data b rai, s\<lparr>gtod_calls := n\<rparr>)"
    using make_packet_data [OF wf(2)] by blast
  then show ?thesis
    using wf(1) up by (intro exI [of _ b] exI [of _ n])
      (simp add: ra_output_def gettimeofday_def after_output_def Let_def)
qed

lemma ra_output_ok:
  assumes inv: "dinv s" and at: "rai_at r s = Some rai"
  shows "\<exists>s' rai'. ra_output r s = Inr s' \<and> dinv s' \<and> timer_list s' = timer_list s \<and>
    timer_head_tm s' = timer_head_tm s \<and> ifilist s' = ifilist s \<and>
    rai_at r s' = Some rai' \<and> rai_timer rai' = rai_timer rai"
proof (cases "\<exists>ifm. get_interface_entry (ifindex rai) s = Some ifm \<and> ifm_flags ifm AND IFF_UP \<noteq> 0")
  case False
  then have "ra_output r s = Inr s"
    using at by (auto simp: ra_output_def split: option.splits)
  with inv at show ?thesis by blast
next
  case True
  have ok: "rai_ok (timer_list s) rai" "rainfo_wf rai" "rai_id rai = r"
    using rai_ok_wf [OF inv at] by auto
  from True obtain b n where
    out: "ra_output r s = Inr (rai_upd r (\<lambda>_. after_output (gtod s n) b rai)
      (s\<lparr>sent := sent s @ [(ifindex rai, b)], gtod_calls := Suc n\<rparr>))" (is "_ = Inr (rai_upd _ _ ?s)")
    using ra_output_eq [OF at ok(2)] by blast
  have "tv_time (gtod s n)" using inv by (simp add: dinv_def)
  from rai_ok_after_output [OF ok(1) this]
  have "dinv (rai_upd r (\<lambda>_. after_output (gtod s n) b rai) ?s)"
    using inv at ok(3) by (intro dinv_rai_upd) simp_all
  moreover have "rai_at r (rai_upd r (\<lambda>_. after_output (gtod s n) b rai) ?s) = Some (after_output (gtod s n) b rai)"
    using rai_at_upd [of "\<lambda>_. after_output (gtod s n) b rai" rai r ?s] ok(3) at by simp
  ultimately show ?thesis using out by simp
qed

lemma ra_timeout_ok:
  assumes "dinv s" "rai_at r s = Some rai"
  shows "\<exists>s'. ra_timeout r s = Inr (rai_timer rai \<noteq> None, s') \<and> dinv s' \<and>
    timer_list s' = timer_list s \<and> timer_head_tm s' = timer_head_tm s"
  using ra_output_ok [OF assms] by (auto simp: ra_timeout_def)

section \<open>Scheduling\<close>

lemma ra_timer_update_eq:
  assumes ok: "rai_at r s = Some rai" "mininterval rai < maxinterval rai"
  shows "ra_timer_update r s =
    (let interval0 = uint (mininterval rai) + rand s (rand_calls s) mod (uint (maxinterval rai) - uint (mininterval rai))
     in Inr (Timeval (if initcounter rai = 0 then 0
                      else if initcounter rai < MAX_INITIAL_RTR_ADVERTISEMENTS
                      then min MAX_INITIAL_RTR_ADVERT_INTERVAL interval0 else interval0) 0,
          s\<lparr>rand_calls := Suc (rand_calls s)\<rparr>))"
proof -
  have "uint (maxinterval rai - mininterval rai) = uint (maxinterval rai) - uint (mininterval rai)"
    using ok(2) by (intro uint_sub_lem [THEN iffD1]) (simp add: word_less_def)
  moreover have "maxinterval rai - mininterval rai \<noteq> 0" using ok(2) by auto
  ultimately show ?thesis
    using ok(1) by (simp add: ra_timer_update_def random_def Let_def min_def)
qed

lemma interval0_bounds:
  fixes lo hi x :: int
  assumes "lo < hi"
  shows "lo \<le> lo + x mod (hi - lo)" "lo + x mod (hi - lo) < hi"
proof -
  have "0 \<le> x mod (hi - lo)" "x mod (hi - lo) < hi - lo"
    using assms by (simp_all add: pos_mod_bound)
  then show "lo \<le> lo + x mod (hi - lo)" "lo + x mod (hi - lo) < hi" by linarith+
qed

lemma ra_timer_update_ok:
  assumes inv: "dinv s" and at: "rai_at r s = Some rai"
  shows "\<exists>v. ra_timer_update r s = Inr (v, s\<lparr>rand_calls := Suc (rand_calls s)\<rparr>) \<and> tv_time v"
proof -
  have lt: "mininterval rai < maxinterval rai"
    using rai_ok_wf [OF inv at] by (simp add: rai_ok_def)
  then have "uint (mininterval rai) < uint (maxinterval rai)" by (simp add: word_less_def)
  from interval0_bounds(1) [OF this, of "rand s (rand_calls s)"]
  have "0 \<le> uint (mininterval rai) + rand s (rand_calls s) mod (uint (maxinterval rai) - uint (mininterval rai))"
    using uint_ge_0 [of "mininterval rai"] by linarith
  then show ?thesis
    unfolding ra_timer_update_eq [OF at lt] by (auto simp: Let_def tv_time_def)
qed

lemma tv_time_iff: "tv_ok t \<Longrightarrow> tv_time t \<longleftrightarrow> 0 \<le> usecs t"
  by (auto simp: tv_time_def tv_ok_def usecs_def)

lemma set_timer_ok:
  assumes "dinv s" "p \<in> set (timer_ids s)" "tv_time v"
  shows "\<exists>s'. rtadvd_set_timer v p s = Inr s' \<and> dinv s' \<and> timer_ids s' = timer_ids s \<and>
    ralist s' = ralist s \<and> ifilist s' = ifilist s"
proof -
  let ?t = "TIMEVAL_ADD (gtod s (gtod_calls s)) v" and ?s = "s\<lparr>gtod_calls := Suc (gtod_calls s)\<rparr>"
  have "tv_time ?t" using assms by (auto simp: dinv_def intro: tv_time_add)
  then have "dinv (note_head ?t (set_tm p ?t ?s))"
    using assms(1) dinv_set_tm by (simp add: note_head_eq)
  moreover have "timer_at p ?s \<noteq> None"
    using assms(2) timer_at_ex [of p s] by (auto simp: timer_at_def)
  moreover have "ralist (note_head ?t (set_tm p ?t ?s)) = ralist s"
    "ifilist (note_head ?t (set_tm p ?t ?s)) = ifilist s"
    by (simp_all add: note_head_eq set_tm_def)
  moreover have "timer_ids ?s = timer_ids s" by simp
  ultimately show ?thesis
    unfolding rtadvd_set_timer_def gettimeofday_def by (simp add: Let_def)
qed

text \<open>
  The delay \<open>set_short_delay\<close> schedules, as a function of what it reads: the random number,
  the deadline of the running timer, the time of the last advertisement, and the clock.
\<close>

definition short_delay :: "int \<Rightarrow> timeval \<Rightarrow> timeval \<Rightarrow> timeval \<Rightarrow> timeval \<Rightarrow> timeval" where
  "short_delay rnd deadline prev now1 now2 =
     (let delay = Timeval 0 (rnd mod MAX_RA_DELAY_TIME);
          rest = (if deadline \<le> now1 then Timeval 0 0 else TIMEVAL_SUB deadline now1);
          interval = min rest delay;
          since = TIMEVAL_SUB now2 prev;
          min_delay = Timeval MIN_DELAY_BETWEEN_RAS 0
      in if since < min_delay then TIMEVAL_ADD (TIMEVAL_SUB min_delay since) interval else interval)"

lemma short_delay_usecs:
  assumes "tv_time deadline" "tv_time prev" "tv_time now1" "tv_time now2"
  shows "\<exists>x. 0 \<le> x \<and> x < MAX_RA_DELAY_TIME \<and>
      usecs (short_delay rnd deadline prev now1 now2) =
        max 0 (MIN_DELAY_BETWEEN_RAS * MILLION - (usecs now2 - usecs prev)) + x \<and>
      tv_time (short_delay rnd deadline prev now1 now2)"
proof -
  define delay where "delay = Timeval 0 (rnd mod MAX_RA_DELAY_TIME)"
  define rest where "rest = (if deadline \<le> now1 then Timeval 0 0 else TIMEVAL_SUB deadline now1)"
  define since where "since = TIMEVAL_SUB now2 prev"
  have delay: "tv_ok delay" "0 \<le> usecs delay" "usecs delay < MAX_RA_DELAY_TIME"
    by (auto simp: delay_def intro: order_less_trans [OF pos_mod_bound])
  have rest: "tv_ok rest" "0 \<le> usecs rest"
    using assms tv_le_usecs [of deadline now1] by (auto simp: rest_def tv_timeD intro: tv_ok_sub)
  have since: "tv_ok since" "usecs since = usecs now2 - usecs prev"
    using assms by (auto simp: since_def tv_timeD intro: tv_ok_sub)
  have i: "tv_ok (min rest delay)" "0 \<le> usecs (min rest delay)" "usecs (min rest delay) < MAX_RA_DELAY_TIME"
    using delay rest tv_le_usecs [of rest delay] by (auto simp: min_def)
  have lt: "since < Timeval MIN_DELAY_BETWEEN_RAS 0 \<longleftrightarrow> usecs since < MIN_DELAY_BETWEEN_RAS * MILLION"
    using tv_less_usecs [OF since(1), of "Timeval MIN_DELAY_BETWEEN_RAS 0"] by simp
  have sd: "short_delay rnd deadline prev now1 now2 =
      (if since < Timeval MIN_DELAY_BETWEEN_RAS 0
       then TIMEVAL_ADD (TIMEVAL_SUB (Timeval MIN_DELAY_BETWEEN_RAS 0) since) (min rest delay)
       else min rest delay)"
    by (simp add: short_delay_def delay_def rest_def since_def Let_def)
  have ok: "tv_ok (short_delay rnd deadline prev now1 now2)"
    unfolding sd using i(1) since(1) by (auto intro!: tv_ok_add tv_ok_sub)
  have u: "usecs (short_delay rnd deadline prev now1 now2) =
      max 0 (MIN_DELAY_BETWEEN_RAS * MILLION - usecs since) + usecs (min rest delay)"
    unfolding sd lt by simp
  then have "tv_time (short_delay rnd deadline prev now1 now2)"
    using tv_time_iff [OF ok] i(2) by simp
  with u i since(2) show ?thesis by auto
qed

lemma min_less: "min a b = (if a < b then a else (b::'a::linorder))"
  by (auto simp: min_def)

lemma set_short_delay_eq:
  assumes at: "rai_at r s = Some rai" and t: "rai_timer rai = Some p" "timer_at p s = Some t"
  shows "set_short_delay r s =
    rtadvd_set_timer
      (short_delay (rand s (rand_calls s)) (tm t) (lastsent rai) (gtod s (gtod_calls s)) (gtod s (Suc (gtod_calls s))))
      p (s\<lparr>rand_calls := Suc (rand_calls s), gtod_calls := Suc (Suc (gtod_calls s))\<rparr>)"
proof -
  have "timer_at p (s\<lparr>rand_calls := n, gtod_calls := m\<rparr>) = Some t" for n m
    using t(2) by (simp add: timer_at_def)
  then show ?thesis
    using at t(1) by (simp add: set_short_delay_def random_def rtadvd_timer_rest_def gettimeofday_def
        Let_def short_delay_def min_less split del: if_split cong: if_cong)
qed

lemma dinv_rai_timer:
  assumes "dinv s" "rai_at r s = Some rai" "rai_timer rai = Some p"
  shows "\<exists>t. timer_at p s = Some t \<and> tv_time (tm t) \<and> expire t = Ra_timeout r"
proof -
  have "armed (timer_list s) (rai_timer rai) (Ra_timeout r)"
    using rai_ok_wf [OF assms(1,2)] by (auto simp: rai_ok_def)
  then obtain t where t: "t \<in> set (timer_list s)" "tid t = p" "expire t = Ra_timeout r"
    using assms(3) by (auto simp: armed_def)
  moreover have "tv_time (tm t)" using t(1) assms(1) by (auto simp: dinv_def timer_ok_def)
  ultimately show ?thesis
    using assms(1) timer_at_Some [of s p t] by (auto simp: dinv_def)
qed

lemma set_short_delay_ok:
  assumes inv: "dinv s" and at: "rai_at r s = Some rai"
  shows "\<exists>s'. set_short_delay r s = Inr s' \<and> dinv s' \<and> timer_ids s' = timer_ids s \<and>
    ralist s' = ralist s \<and> ifilist s' = ifilist s"
proof (cases "rai_timer rai")
  case None
  with at inv show ?thesis by (auto simp: set_short_delay_def)
next
  case (Some p)
  obtain t where t: "timer_at p s = Some t" "tv_time (tm t)"
    using dinv_rai_timer [OF inv at Some] by blast
  have "tv_time (lastsent rai)" using rai_ok_wf [OF inv at] by (simp add: rai_ok_def)
  moreover have "tv_time (gtod s n)" for n using inv by (simp add: dinv_def)
  ultimately have "tv_time (short_delay (rand s (rand_calls s)) (tm t) (lastsent rai)
      (gtod s (gtod_calls s)) (gtod s (Suc (gtod_calls s))))"
    using short_delay_usecs t(2) by blast
  moreover have "p \<in> set (timer_ids s)" using t(1) timer_at_None [of p s] by auto
  ultimately show ?thesis
    unfolding set_short_delay_eq [OF at Some t(1)]
    using set_timer_ok [of "s\<lparr>rand_calls := Suc (rand_calls s), gtod_calls := Suc (Suc (gtod_calls s))\<rparr>" p] inv
    by simp
qed

section \<open>Prefixes keep the invariant\<close>

lemma distinct_concat_owner:
  assumes "distinct (map f (concat (map g xs)))" "x \<in> set xs" "y \<in> set xs"
    "a \<in> set (g x)" "b \<in> set (g y)" "f a = f b"
  shows "a = b \<and> x = y"
  using assms
proof (induction xs)
  case (Cons z zs)
  then have disj: "f ` set (g z) \<inter> f ` set (concat (map g zs)) = {}"
    and d: "distinct (map f (g z))" "distinct (map f (concat (map g zs)))"
    by (auto simp: set_concat)
  have in_zs: "f c \<in> f ` set (concat (map g zs))" if "w \<in> set zs" "c \<in> set (g w)" for w c
    using that by auto
  consider "x = z" "y = z" | "x = z" "y \<in> set zs" | "x \<in> set zs" "y = z" | "x \<in> set zs" "y \<in> set zs"
    using Cons.prems by auto
  then show ?case
  proof cases
    case 1
    then show ?thesis using d(1) Cons.prems by (auto simp: distinct_map dest: inj_onD)
  next
    case 2
    then have "f a \<in> f ` set (g z)" using Cons.prems(4) by simp
    with disj in_zs [OF 2(2) Cons.prems(5)] Cons.prems(6) show ?thesis by (metis disjoint_iff)
  next
    case 3
    then have "f b \<in> f ` set (g z)" using Cons.prems(5) by simp
    with disj in_zs [OF 3(1) Cons.prems(4)] Cons.prems(6) show ?thesis by (metis disjoint_iff)
  next
    case 4
    then show ?thesis using Cons d(2) by blast
  qed
qed simp

lemma prefix_rainfo_eq:
  assumes inv: "dinv s" and mem: "rai \<in> set (ralist s)" "pp \<in> set (prefix_list rai)"
  shows "prefix_rainfo (pfx_id pp) s = Some (rai, pp)"
proof -
  have d: "distinct (map pfx_id (all_prefixes (ralist s)))" using inv by (simp add: dinv_def)
  let ?P = "\<lambda>rai. pfx_id pp \<in> set (map pfx_id (prefix_list rai))"
  have "?P rai" using mem(2) by simp
  then obtain rai' where f: "find ?P (ralist s) = Some rai'"
    using mem(1) find_None_iff [of ?P "ralist s"] by (cases "find ?P (ralist s)") auto
  then have "rai' \<in> set (ralist s)" "?P rai'" by (auto simp: find_Some_iff)
  then have "rai' = rai"
    using distinct_concat_owner [OF d _ mem(1) _ mem(2)] by auto
  moreover have "find (\<lambda>q. pfx_id q = pfx_id pp) (prefix_list rai) = Some pp"
  proof -
    have "distinct (map pfx_id (prefix_list rai))"
      using d mem(1) by (simp add: distinct_map distinct_concat_iff) (auto simp: inj_on_def)
    then show ?thesis using mem(2) by (simp add: find_eq_Some_distinct)
  qed
  ultimately show ?thesis using f by (simp add: prefix_rainfo_def)
qed

text \<open>
  A change of the prefixes with one address, made on the interface that owns it, is that
  change on all interfaces.
\<close>

lemma all_prefixes_upd:
  assumes inv: "dinv s" and mem: "rai \<in> set (ralist s)" "pp \<in> set (prefix_list rai)"
    and h: "\<And>rai'. rai' \<in> set (ralist s) \<Longrightarrow> prefix_list (f rai') = h (prefix_list rai')"
    and id: "\<And>ps. pfx_id pp \<notin> pfx_id ` set ps \<Longrightarrow> h ps = ps"
  shows "map prefix_list (ralist (rai_upd (rai_id rai) f s)) = map h (map prefix_list (ralist s))"
proof -
  have d: "distinct (map pfx_id (all_prefixes (ralist s)))" "distinct (map rai_id (ralist s))"
    using inv by (simp_all add: dinv_def)
  have "h (prefix_list rai') = prefix_list rai'" if "rai' \<in> set (ralist s)" "rai_id rai' \<noteq> rai_id rai" for rai'
  proof (rule id)
    show "pfx_id pp \<notin> pfx_id ` set (prefix_list rai')"
      using distinct_concat_owner [OF d(1) that(1) mem(1) _ mem(2)] that(2) by auto
  qed
  then show ?thesis using h by (simp add: rai_upd_def)
qed

lemma armed_drop:
  assumes "distinct (map tid ts)" "armed ts q0 e0" "e \<noteq> e0" "armed ts q e"
  shows "armed (filter (\<lambda>t. q0 \<noteq> Some (tid t)) ts) q e"
  unfolding armed_def
proof (intro allI impI)
  fix p assume "q = Some p"
  then obtain t where t: "t \<in> set ts" "tid t = p" "expire t = e" using assms(4) by (auto simp: armed_def)
  have "q0 \<noteq> Some p"
  proof
    assume "q0 = Some p"
    then obtain t0 where "t0 \<in> set ts" "tid t0 = p" "expire t0 = e0" using assms(2) by (auto simp: armed_def)
    with t assms(1,3) show False by (auto simp: distinct_map inj_on_def)
  qed
  with t show "\<exists>t \<in> set (filter (\<lambda>t. q0 \<noteq> Some (tid t)) ts). tid t = p \<and> expire t = e" by auto
qed

lemma length_filter_one:
  "distinct (map f xs) \<Longrightarrow> x \<in> set xs \<Longrightarrow> Suc (length (filter (\<lambda>y. f y \<noteq> f x) xs)) = length xs"
proof (induction xs)
  case (Cons y ys)
  show ?case
  proof (cases "f y = f x")
    case True
    then have "f x \<notin> f ` set ys" using Cons.prems(1) by auto
    then have "filter (\<lambda>y. f y \<noteq> f x) ys = ys" by (auto simp: filter_id_conv image_iff)
    with True show ?thesis by simp
  next
    case False
    with Cons show ?thesis by auto
  qed
qed simp

lemma dinv_prefix_owner:
  assumes "dinv s" "pp \<in> set (all_prefixes (ralist s))" "qq \<in> set (all_prefixes (ralist s))" "pfx_id pp = pfx_id qq"
  shows "pp = qq"
  using assms by (auto simp: dinv_def distinct_map inj_on_def)

lemma dinv_pfx_timer:
  assumes "dinv s" "rai \<in> set (ralist s)" "pp \<in> set (prefix_list rai)"
  shows "armed (timer_list s) (pfx_timer pp) (Prefix_timeout (pfx_id pp))"
  using assms by (auto simp: dinv_def rai_ok_def)

definition drop_prefix :: "nat \<Rightarrow> rainfo \<Rightarrow> rainfo" where
  "drop_prefix p rai = rai\<lparr>prefix_list := filter (\<lambda>pp. pfx_id pp \<noteq> p) (prefix_list rai), pfxs := pfxs rai - 1\<rparr>"

lemma delete_prefix_eq:
  assumes inv: "dinv s" and mem: "rai \<in> set (ralist s)" "pp \<in> set (prefix_list rai)"
  shows "delete_prefix (pfx_id pp) s =
    Inr (rai_upd (rai_id rai) (drop_prefix (pfx_id pp))
      (s\<lparr>timer_list := filter (\<lambda>t. pfx_timer pp \<noteq> Some (tid t)) (timer_list s)\<rparr>))"
proof (cases "pfx_timer pp")
  case None
  then show ?thesis
    by (simp add: delete_prefix_def prefix_rainfo_eq [OF assms] drop_prefix_def [abs_def])
next
  case (Some k)
  then have "timer_at k s \<noteq> None"
    using dinv_pfx_timer [OF assms] timer_at_None [of k s] by (auto simp: armed_def)
  moreover have "filter (\<lambda>t. k \<noteq> tid t) ts = filter (\<lambda>t. tid t \<noteq> k) ts" for ts :: "timer_node list"
    by (rule filter_cong) auto
  ultimately show ?thesis using Some
    by (simp add: delete_prefix_def prefix_rainfo_eq [OF assms] drop_prefix_def [abs_def] rtadvd_remove_timer_def)
qed

lemma rainfo_wf_drop_prefix:
  assumes "rainfo_wf rai" "distinct (map pfx_id (prefix_list rai))" "pp \<in> set (prefix_list rai)"
  shows "rainfo_wf (drop_prefix (pfx_id pp) rai)"
  using assms(1) length_filter_one [OF assms(2,3)]
  by (simp add: drop_prefix_def rainfo_wf_parts cong: option.case_cong)

lemma dinv_distinct_prefixes: "dinv s \<Longrightarrow> rai \<in> set (ralist s) \<Longrightarrow> distinct (map pfx_id (prefix_list rai))"
  by (simp add: dinv_def distinct_map distinct_concat_iff) (auto simp: inj_on_def)

lemma dinv_delete:
  assumes inv: "dinv s" and mem: "rai \<in> set (ralist s)" "pp \<in> set (prefix_list rai)"
  shows "dinv (rai_upd (rai_id rai) (drop_prefix (pfx_id pp))
    (s\<lparr>timer_list := filter (\<lambda>t. pfx_timer pp \<noteq> Some (tid t)) (timer_list s)\<rparr>))"
    (is "dinv ?s'")
proof -
  let ?p = "pfx_id pp" and ?ts = "filter (\<lambda>t. pfx_timer pp \<noteq> Some (tid t)) (timer_list s)"
  let ?ras = "ralist (rai_upd (rai_id rai) (drop_prefix ?p) s)"
  have ap: "all_prefixes ?ras = filter (\<lambda>q. pfx_id q \<noteq> ?p) (all_prefixes (ralist s))"
    using all_prefixes_upd [OF assms, of "drop_prefix ?p" "filter (\<lambda>q. pfx_id q \<noteq> ?p)"]
    by (simp add: drop_prefix_def filter_concat filter_id_conv image_iff) metis
  have ids: "map rai_id ?ras = map rai_id (ralist s)"
    by (simp add: rai_upd_def drop_prefix_def)
  then have idset: "rai_id ` set ?ras = rai_id ` set (ralist s)" by (metis list.set_map)
  have dt: "distinct (timer_ids s)" using inv by (simp add: dinv_def)
  have keep: "armed ?ts q e" if "armed (timer_list s) q e" "e \<noteq> Prefix_timeout ?p" for q e
    using armed_drop [OF dt dinv_pfx_timer [OF assms] that(2,1)] .
  have rok: "rai_ok ?ts x" if x: "x \<in> set ?ras" for x
  proof -
    from x obtain y where y: "y \<in> set (ralist s)"
      and xy: "x = (if rai_id y = rai_id rai then drop_prefix ?p y else y)"
      by (auto simp: rai_upd_def)
    have yok: "rai_ok (timer_list s) y" using inv y by (simp add: dinv_def)
    have pl: "q \<in> set (prefix_list y) \<and> pfx_id q \<noteq> ?p" if "q \<in> set (prefix_list x)" for q
    proof (cases "rai_id y = rai_id rai")
      case True
      with that xy show ?thesis by (simp add: drop_prefix_def)
    next
      case False
      then have "y \<noteq> rai" by auto
      with False that xy show ?thesis
        using distinct_concat_owner [of pfx_id prefix_list "ralist s" y rai q pp] inv y mem
        by (auto simp: dinv_def)
    qed
    have "rainfo_wf x"
    proof (cases "rai_id y = rai_id rai")
      case True
      then have "y = rai" using inv y mem(1) by (auto simp: dinv_def distinct_map inj_on_def)
      with xy yok show ?thesis
        using rainfo_wf_drop_prefix [OF _ dinv_distinct_prefixes [OF inv mem(1)] mem(2)] by (simp add: rai_ok_def)
    next
      case False
      with xy yok show ?thesis by (simp add: rai_ok_def)
    qed
    moreover have "armed ?ts (pfx_timer q) (Prefix_timeout (pfx_id q))" if "q \<in> set (prefix_list x)" for q
      using pl [OF that] keep yok by (simp add: rai_ok_def)
    moreover have "armed ?ts (rai_timer y) (Ra_timeout (rai_id y))"
      using keep yok by (simp add: rai_ok_def)
    moreover have "rai_timer x = rai_timer y" "rai_id x = rai_id y" "mininterval x = mininterval y"
      "maxinterval x = maxinterval y" "initcounter x = initcounter y" "waiting x = waiting y"
      "lastsent x = lastsent y"
      by (simp_all add: xy drop_prefix_def)
    ultimately show ?thesis
      using yok by (simp add: rai_ok_def)
  qed
  have tok: "timer_ok ?ras t" if "t \<in> set ?ts" for t
  proof -
    have t: "timer_ok (ralist s) t" "pfx_timer pp \<noteq> Some (tid t)" using that inv by (auto simp: dinv_def)
    have "qq \<in> set (all_prefixes ?ras)" if "qq \<in> set (all_prefixes (ralist s))" "pfx_timer qq = Some (tid t)" for qq
      using that t(2) dinv_prefix_owner [OF inv that(1), of pp] mem unfolding ap by auto
    with t(1) show ?thesis
      unfolding timer_ok_def idset by (cases "expire t") auto
  qed
  have 1: "distinct (map pfx_id (all_prefixes ?ras))"
    using inv unfolding ap by (simp add: dinv_def distinct_map_filter)
  have 2: "\<forall>i \<in> set (map pfx_id (all_prefixes ?ras)). i < next_addr s"
    using inv unfolding ap by (auto simp: dinv_def)
  have 3: "distinct (map tid ?ts)" using dt by (simp add: distinct_map_filter)
  have ras: "ralist ?s' = ?ras" by (simp add: rai_upd_def)
  show ?thesis
    using inv 1 2 3 rok tok unfolding dinv_def ras ids rai_upd_simps by simp
qed

text \<open>Another timer, or none, for one prefix: nodes for other objects stay armed.\<close>

lemma rainfo_wf_prefix_list:
  "rainfo_wf rai \<Longrightarrow> length ps = length (prefix_list rai) \<Longrightarrow> \<forall>pp \<in> set ps. prefix_ok pp \<Longrightarrow>
   rainfo_wf (rai\<lparr>prefix_list := ps\<rparr>)"
  by (simp add: rainfo_wf_parts cong: option.case_cong)

lemma rainfo_wf_set_pfx_timer: "rainfo_wf rai \<Longrightarrow> rainfo_wf (set_pfx_timer p v rai)"
  unfolding set_pfx_timer_def by (rule rainfo_wf_prefix_list) (auto simp: rainfo_wf_def prefix_ok_def)

lemma dinv_relink:
  fixes v :: "nat option"
  assumes inv: "dinv s" and mem: "rai \<in> set (ralist s)" "pp \<in> set (prefix_list rai)"
    and dt: "distinct (map tid ts)"
    and nodes: "\<And>t. t \<in> set ts \<Longrightarrow> tid t < n \<and>
      (t \<in> set (timer_list s) \<and> expire t \<noteq> Prefix_timeout (pfx_id pp) \<or>
       expire t = Prefix_timeout (pfx_id pp) \<and> update t = None \<and> tv_time (tm t) \<and> v = Some (tid t))"
    and keep: "\<And>q e. armed (timer_list s) q e \<Longrightarrow> e \<noteq> Prefix_timeout (pfx_id pp) \<Longrightarrow> armed ts q e"
    and new: "armed ts v (Prefix_timeout (pfx_id pp))"
  shows "dinv (rai_upd (rai_id rai) (set_pfx_timer (pfx_id pp) v) (s\<lparr>timer_list := ts, timer_next_id := n\<rparr>))"
    (is "dinv ?s'")
proof -
  let ?p = "pfx_id pp"
  define h :: "prefix \<Rightarrow> prefix" where "h = (\<lambda>q. if pfx_id q = ?p then q\<lparr>pfx_timer := v\<rparr> else q)"
  let ?ras = "ralist (rai_upd (rai_id rai) (set_pfx_timer ?p v) s)"
  have hid: "map h ps = ps" if "?p \<notin> pfx_id ` set ps" for ps
    using that by (intro map_idI) (auto simp: h_def image_iff)
  have mp: "map prefix_list ?ras = map (map h) (map prefix_list (ralist s))"
    using all_prefixes_upd [OF inv mem, of "set_pfx_timer ?p v" "map h"] hid
    by (simp add: set_pfx_timer_def h_def)
  then have ap: "all_prefixes ?ras = map h (all_prefixes (ralist s))"
    by (simp add: map_concat)
  have hp: "pfx_id (h q) = pfx_id q" for q by (simp add: h_def)
  have pid: "map pfx_id (all_prefixes ?ras) = map pfx_id (all_prefixes (ralist s))"
    unfolding ap by (simp add: hp)
  have ids: "map rai_id ?ras = map rai_id (ralist s)"
    by (simp add: rai_upd_def set_pfx_timer_def)
  then have idset: "rai_id ` set ?ras = rai_id ` set (ralist s)" by (metis list.set_map)
  have rok: "rai_ok ts x" if x: "x \<in> set ?ras" for x
  proof -
    from x obtain y where y: "y \<in> set (ralist s)"
      and xy: "x = (if rai_id y = rai_id rai then set_pfx_timer ?p v y else y)"
      by (auto simp: rai_upd_def)
    have yok: "rai_ok (timer_list s) y" using inv y by (simp add: dinv_def)
    have pl: "prefix_list x = map h (prefix_list y)"
    proof (cases "rai_id y = rai_id rai")
      case False
      then have "?p \<notin> pfx_id ` set (prefix_list y)"
        using distinct_concat_owner [of pfx_id prefix_list "ralist s" y rai _ pp] inv y mem
        by (auto simp: dinv_def)
      with False xy hid show ?thesis by simp
    qed (simp add: xy set_pfx_timer_def h_def)
    have "armed ts (pfx_timer q) (Prefix_timeout (pfx_id q))" if q: "q \<in> set (prefix_list x)" for q
    proof -
      from q pl obtain q0 where "q0 \<in> set (prefix_list y)" "q = h q0" by auto
      then show ?thesis using new keep yok by (auto simp: h_def rai_ok_def)
    qed
    moreover have "armed ts (rai_timer y) (Ra_timeout (rai_id y))"
      using keep yok by (simp add: rai_ok_def)
    moreover have "rainfo_wf x" using yok rainfo_wf_set_pfx_timer by (simp add: xy rai_ok_def)
    moreover have "rai_timer x = rai_timer y" "rai_id x = rai_id y" "mininterval x = mininterval y"
      "maxinterval x = maxinterval y" "initcounter x = initcounter y" "waiting x = waiting y"
      "lastsent x = lastsent y"
      by (simp_all add: xy set_pfx_timer_def)
    ultimately show ?thesis using yok by (simp add: rai_ok_def)
  qed
  have ppin: "pp \<in> set (all_prefixes (ralist s))" using mem by auto
  have tok: "timer_ok ?ras t" if t: "t \<in> set ts" for t
  proof (cases "expire t = Prefix_timeout ?p")
    case True
    then have "h pp \<in> set (all_prefixes ?ras)" "pfx_timer (h pp) = Some (tid t)"
      using nodes [OF t] ppin unfolding ap by (auto simp: h_def)
    with True nodes [OF t] hp [of pp] show ?thesis unfolding timer_ok_def by auto
  next
    case False
    then have old: "timer_ok (ralist s) t" using nodes [OF t] inv by (auto simp: dinv_def)
    show ?thesis
    proof (cases "expire t")
      case (Ra_timeout r)
      with old idset show ?thesis by (simp add: timer_ok_def)
    next
      case (Prefix_timeout p')
      with old obtain q where q: "q \<in> set (all_prefixes (ralist s))" "pfx_id q = p'" "pfx_timer q = Some (tid t)"
        by (auto simp: timer_ok_def)
      with Prefix_timeout False have "h q = q" by (simp add: h_def)
      with q have "q \<in> set (all_prefixes ?ras)" unfolding ap by (metis image_eqI list.set_map)
      with q old Prefix_timeout show ?thesis unfolding timer_ok_def by auto
    qed
  qed
  have ras: "ralist ?s' = ?ras" by (simp add: rai_upd_def)
  show ?thesis
    using inv dt nodes rok tok unfolding dinv_def ras ids pid rai_upd_simps by simp
qed

text \<open>A timer armed right after it was linked; before that its time is \<open>tm_max\<close>.\<close>

lemma set_timer_new:
  fixes s :: rtadvd
  assumes "timer_list s = n # ts" "tid n = k" "\<forall>t \<in> set ts. tid t \<noteq> k"
  shows "rtadvd_set_timer v k s = (let t = TIMEVAL_ADD (gtod s (gtod_calls s)) v
    in Inr (note_head t (s\<lparr>gtod_calls := Suc (gtod_calls s), timer_list := n\<lparr>tm := t\<rparr> # ts\<rparr>)))"
proof -
  have "map (\<lambda>t. if tid t = k then t\<lparr>tm := x\<rparr> else t) (timer_list s) = n\<lparr>tm := x\<rparr> # ts" for x
    using assms by (simp add: map_idI)
  then show ?thesis
    using assms(1,2) by (simp add: rtadvd_set_timer_def gettimeofday_def timer_at_def set_tm_def Let_def)
qed

lemma dinv_owner_timer:
  assumes inv: "dinv s" and mem: "rai \<in> set (ralist s)" "pp \<in> set (prefix_list rai)"
    and t: "t \<in> set (timer_list s)" "expire t = Prefix_timeout (pfx_id pp)"
  shows "pfx_timer pp = Some (tid t)"
proof -
  have "timer_ok (ralist s) t" using inv t(1) by (simp add: dinv_def)
  then obtain q where "q \<in> set (all_prefixes (ralist s))" "pfx_id q = pfx_id pp" "pfx_timer q = Some (tid t)"
    using t(2) by (auto simp: timer_ok_def)
  moreover from this have "q = pp" using dinv_prefix_owner [OF inv, of q pp] mem by auto
  ultimately show ?thesis by simp
qed

lemma invalidate_prefix_ok:
  assumes inv: "dinv s" and mem: "rai \<in> set (ralist s)" "pp \<in> set (prefix_list rai)"
    and none: "pfx_timer pp = None"
  shows "\<exists>s'. invalidate_prefix (pfx_id pp) s = Inr s' \<and> dinv s' \<and> ifilist s' = ifilist s \<and>
    ralist s' = ralist (rai_upd (rai_id rai) (set_pfx_timer (pfx_id pp) (Some (timer_next_id s))) s)"
proof -
  let ?p = "pfx_id pp" and ?k = "timer_next_id s"
  define T where "T = TIMEVAL_ADD (gtod s (gtod_calls s)) (Timeval prefix_timo 0)"
  define t0 :: "timeval \<Rightarrow> timer_node" where "t0 v = \<lparr>tid = ?k, tm = v, expire = Prefix_timeout ?p, update = None\<rparr>" for v
  let ?s = "\<lambda>v. rai_upd (rai_id rai) (set_pfx_timer ?p (Some ?k)) (s\<lparr>timer_list := t0 v # timer_list s, timer_next_id := Suc ?k\<rparr>)"
  have lt: "\<forall>t \<in> set (timer_list s). tid t < ?k" using inv by (simp add: dinv_def)
  have T: "tv_time T"
    using inv unfolding T_def by (intro tv_time_add) (auto simp: dinv_def tv_time_def)
  have d: "dinv (?s T)"
  proof (rule dinv_relink [OF inv mem])
    show "distinct (map tid (t0 T # timer_list s))" using inv lt by (auto simp: dinv_def t0_def)
    show "tid t < Suc ?k \<and> (t \<in> set (timer_list s) \<and> expire t \<noteq> Prefix_timeout ?p \<or>
        expire t = Prefix_timeout ?p \<and> update t = None \<and> tv_time (tm t) \<and> Some ?k = Some (tid t))"
      if "t \<in> set (t0 T # timer_list s)" for t
      using that lt T dinv_owner_timer [OF inv mem, of t] none by (auto simp: t0_def intro: less_SucI)
    show "armed (t0 T # timer_list s) q e" if "armed (timer_list s) q e" for q e
      using that by (auto simp: armed_def)
    show "armed (t0 T # timer_list s) (Some ?k) (Prefix_timeout ?p)" by (simp add: armed_def t0_def)
  qed
  have "rtadvd_set_timer (Timeval prefix_timo 0) ?k (?s tm_max) =
      Inr (note_head T ((?s T)\<lparr>gtod_calls := Suc (gtod_calls s)\<rparr>))"
    using lt by (subst set_timer_new [where ts = "timer_list s" and n = "t0 tm_max"])
      (auto simp: t0_def T_def rai_upd_def Let_def intro!: arg_cong [where f = "note_head _"] rtadvd.equality)
  then have "invalidate_prefix ?p s = Inr (note_head T ((?s T)\<lparr>gtod_calls := Suc (gtod_calls s)\<rparr>))"
    using none by (simp add: invalidate_prefix_def prefix_rainfo_eq [OF inv mem] rtadvd_add_timer_def Let_def t0_def)
  moreover have "dinv (note_head T ((?s T)\<lparr>gtod_calls := Suc (gtod_calls s)\<rparr>))"
    using d by (simp add: note_head_eq)
  ultimately show ?thesis by (simp add: rai_upd_def note_head_eq)
qed

lemma invalidate_prefix_twice:
  assumes "dinv s" "rai \<in> set (ralist s)" "pp \<in> set (prefix_list rai)" "pfx_timer pp \<noteq> None"
  shows "invalidate_prefix (pfx_id pp) s = Inl (Exit 1)"
  using assms(4) by (simp add: invalidate_prefix_def prefix_rainfo_eq [OF assms(1-3)])

lemma update_prefix_ok:
  assumes inv: "dinv s" and mem: "rai \<in> set (ralist s)" "pp \<in> set (prefix_list rai)"
    and some: "pfx_timer pp = Some k"
  shows "\<exists>s'. update_prefix (pfx_id pp) s = Inr s' \<and> dinv s' \<and> ifilist s' = ifilist s \<and>
    ralist s' = ralist (rai_upd (rai_id rai) (set_pfx_timer (pfx_id pp) None) s)"
proof -
  let ?p = "pfx_id pp" and ?ts = "filter (\<lambda>t. tid t \<noteq> k) (timer_list s)"
  let ?s = "rai_upd (rai_id rai) (set_pfx_timer ?p None) (s\<lparr>timer_list := ?ts, timer_next_id := timer_next_id s\<rparr>)"
  have dt: "distinct (timer_ids s)" using inv by (simp add: dinv_def)
  have ts: "filter (\<lambda>t. pfx_timer pp \<noteq> Some (tid t)) (timer_list s) = ?ts"
    unfolding some by (rule filter_cong) auto
  have "dinv ?s"
  proof (rule dinv_relink [OF inv mem])
    show "distinct (map tid ?ts)" using dt by (simp add: distinct_map_filter)
    show "tid t < timer_next_id s \<and> (t \<in> set (timer_list s) \<and> expire t \<noteq> Prefix_timeout ?p \<or>
        expire t = Prefix_timeout ?p \<and> update t = None \<and> tv_time (tm t) \<and> None = Some (tid t))"
      if "t \<in> set ?ts" for t
      using that inv some dinv_owner_timer [OF inv mem, of t] by (auto simp: dinv_def)
    show "armed ?ts q e" if "armed (timer_list s) q e" "e \<noteq> Prefix_timeout ?p" for q e
      using armed_drop [OF dt dinv_pfx_timer [OF inv mem] that(2,1)] unfolding ts .
    show "armed ?ts None (Prefix_timeout ?p)" by (simp add: armed_def)
  qed
  moreover have "timer_at k s \<noteq> None"
    using dinv_pfx_timer [OF inv mem] some timer_at_None [of k s] by (auto simp: armed_def)
  ultimately show ?thesis
    using some by (simp add: update_prefix_def prefix_rainfo_eq [OF inv mem] rtadvd_remove_timer_def rai_upd_def)
qed

definition cons_prefix :: "prefix \<Rightarrow> rainfo \<Rightarrow> rainfo" where
  "cons_prefix q rai = rai\<lparr>prefix_list := q # prefix_list rai, ra_data := None, pfxs := pfxs rai + 1\<rparr>"

lemma rai_upd_split:
  assumes "dinv s" "rai_at r s = Some rai"
  shows "\<exists>xs ys. ralist s = xs @ rai # ys \<and> ralist (rai_upd r f s) = xs @ f rai # ys"
proof -
  have rai: "rai \<in> set (ralist s)" "rai_id rai = r" using rai_at_Some [OF assms(1)] assms(2) by auto
  then obtain xs ys where xy: "ralist s = xs @ rai # ys" by (meson split_list)
  have d: "distinct (map rai_id (ralist s))" using assms(1) by (simp add: dinv_def)
  have "map (\<lambda>x. if rai_id x = r then f x else x) zs = zs" if "r \<notin> rai_id ` set zs" for zs
    using that by (intro map_idI) (auto simp: image_iff)
  moreover have "r \<notin> rai_id ` set xs" "r \<notin> rai_id ` set ys" using d rai(2) unfolding xy by auto
  ultimately show ?thesis using rai(2) xy by (auto simp: rai_upd_def)
qed

lemma rai_ok_cons_prefix:
  assumes "rai_ok ts rai" "prefix_ok q" "pfx_timer q = None"
  shows "rai_ok ts (cons_prefix q rai)"
  using assms by (simp add: rai_ok_def cons_prefix_def rainfo_wf_parts armed_def cong: option.case_cong)

lemma dinv_cons_prefix:
  assumes inv: "dinv s" and at: "rai_at r s = Some rai"
    and q: "prefix_ok q" "pfx_timer q = None" "pfx_id q = next_addr s"
  shows "dinv (rai_upd r (cons_prefix q) (s\<lparr>next_addr := Suc (next_addr s)\<rparr>))" (is "dinv ?s'")
proof -
  obtain xs ys where xy: "ralist s = xs @ rai # ys"
    and xy': "ralist (rai_upd r (cons_prefix q) s) = xs @ cons_prefix q rai # ys"
    using rai_upd_split [OF inv at] by blast
  have ras: "ralist ?s' = xs @ cons_prefix q rai # ys" using xy' by (simp add: rai_upd_def)
  have ap: "set (all_prefixes (xs @ cons_prefix q rai # ys)) = insert q (set (all_prefixes (ralist s)))"
    unfolding xy by (auto simp: cons_prefix_def)
  have fresh: "next_addr s \<notin> set (map pfx_id (all_prefixes (ralist s)))"
    using inv unfolding dinv_def by blast
  then have 1: "distinct (map pfx_id (all_prefixes (xs @ cons_prefix q rai # ys)))"
    using inv q(3) unfolding dinv_def xy by (auto simp: cons_prefix_def)
  have 2: "\<forall>i \<in> set (map pfx_id (all_prefixes (xs @ cons_prefix q rai # ys))). i < Suc (next_addr s)"
    using inv q(3) unfolding list.set_map ap dinv_def by (auto intro: less_SucI)
  have ids: "map rai_id (xs @ cons_prefix q rai # ys) = map rai_id (ralist s)"
    unfolding xy by (simp add: cons_prefix_def)
  then have idset: "rai_id ` set (xs @ cons_prefix q rai # ys) = rai_id ` set (ralist s)" by (metis list.set_map)
  have tok: "timer_ok (xs @ cons_prefix q rai # ys) t" if "timer_ok (ralist s) t" for t
    using that unfolding timer_ok_def idset ap by (cases "expire t") auto
  have "rai_ok (timer_list s) rai" using rai_ok_wf [OF inv at] by simp
  then have rok: "\<forall>x \<in> set (xs @ cons_prefix q rai # ys). rai_ok (timer_list s) x"
    using inv rai_ok_cons_prefix [OF _ q(1,2)] unfolding dinv_def xy by auto
  have 3: "\<forall>i \<in> set (map rai_id (ralist s)). i < Suc (next_addr s)"
    using inv unfolding dinv_def by (auto intro: less_SucI)
  show ?thesis
    using inv 1 2 3 rok tok unfolding dinv_def ras ids rai_upd_simps by simp
qed

lemma add_prefix_ok:
  assumes inv: "dinv s" and at: "rai_at r s = Some rai" and ipr: "in6_ok (ipr_prefix ipr)" "ipr_plen ipr \<le> 128"
  shows "\<exists>s' q b. add_prefix r ipr s = Inr s' \<and> dinv s' \<and> timer_list s' = timer_list s \<and>
    ifilist s' = ifilist s \<and> accept_rr s' = accept_rr s \<and>
    pfx_prefix q = ipr_prefix ipr \<and> pfx_prefixlen q = ipr_plen ipr \<and> pfx_timer q = None \<and>
    pfx_id q = next_addr s \<and>
    ralist s' = ralist (rai_upd r (\<lambda>_. with_data b (cons_prefix q rai)) s)"
proof -
  define q where "q = \<lparr>pfx_id = next_addr s, pfx_timer = None, validlifetime = ipr_vltime ipr, vltimeexpire = 0,
    preflifetime = ipr_pltime ipr, pltimeexpire = 0, onlinkflg = ipr_raf_onlink ipr,
    autoconfflg = ipr_raf_auto ipr, pfx_prefixlen = ipr_plen ipr,
    origin = PREFIX_FROM_DYNAMIC, pfx_prefix = ipr_prefix ipr\<rparr>"
  define s1 where "s1 = rai_upd r (cons_prefix q) (s\<lparr>next_addr := Suc (next_addr s)\<rparr>)"
  have d: "dinv s1"
    unfolding s1_def using ipr by (intro dinv_cons_prefix [OF inv at]) (simp_all add: q_def prefix_ok_def)
  have id: "rai_id (cons_prefix q rai) = r" using rai_ok_wf [OF inv at] by (simp add: cons_prefix_def)
  have at1: "rai_at r s1 = Some (cons_prefix q rai)"
    unfolding s1_def using id at by (intro rai_at_upd) simp_all
  have ok: "rai_ok (timer_list s1) (cons_prefix q rai)" "rainfo_wf (cons_prefix q rai)"
    using rai_ok_wf [OF d at1] by auto
  obtain b n where mp: "make_packet (cons_prefix q rai) s1 =
      Inr (with_data b (cons_prefix q rai), s1\<lparr>gtod_calls := n\<rparr>)"
    using make_packet_data [OF ok(2)] by blast
  let ?s' = "rai_upd r (\<lambda>_. with_data b (cons_prefix q rai)) (s1\<lparr>gtod_calls := n\<rparr>)"
  have "add_prefix r ipr s = Inr ?s'"
    using at1 mp unfolding add_prefix_def s1_def q_def cons_prefix_def [abs_def] by (simp add: Let_def)
  moreover have "dinv ?s'"
    using d at1 id rai_ok_with_data [OF ok(1)] by (intro dinv_rai_upd) simp_all
  moreover have "ralist ?s' = ralist (rai_upd r (\<lambda>_. with_data b (cons_prefix q rai)) s)"
    using id by (simp add: s1_def rai_upd_def) (simp add: cons_prefix_def)
  moreover have "timer_list ?s' = timer_list s" "ifilist ?s' = ifilist s" "accept_rr ?s' = accept_rr s"
    by (simp_all add: s1_def)
  ultimately show ?thesis
    by (intro exI [of _ ?s'] exI [of _ q] exI [of _ b]) (simp add: q_def)
qed

section \<open>The daemon's callbacks satisfy the contract\<close>

lemma expire_fn_ok:
  assumes inv: "dinv s" and at: "timer_at p s = Some t"
  shows "\<exists>alive s'. expire_fn (expire t) s = Inr (alive, s') \<and> dinv s' \<and>
    timer_head_tm s' = timer_head_tm s \<and>
    (timer_list s' = timer_list s \<or> \<not> alive \<and> timer_list s' = filter (\<lambda>t. tid t \<noteq> p) (timer_list s))"
proof -
  have t: "t \<in> set (timer_list s)" "tid t = p" "timer_ok (ralist s) t"
    using inv at timer_at_Some [of s p t] by (auto simp: dinv_def)
  show ?thesis
  proof (cases "expire t")
    case (Ra_timeout r)
    then obtain rai where "rai_at r s = Some rai"
      using t(3) rai_at_ex [of r s] by (auto simp: timer_ok_def)
    then show ?thesis using ra_timeout_ok [OF inv] Ra_timeout by fastforce
  next
    case (Prefix_timeout k)
    then obtain rai pp where m: "rai \<in> set (ralist s)" "pp \<in> set (prefix_list rai)"
      and k: "pfx_id pp = k" "pfx_timer pp = Some p"
      using t by (auto simp: timer_ok_def)
    have "filter (\<lambda>t. pfx_timer pp \<noteq> Some (tid t)) (timer_list s) = filter (\<lambda>t. tid t \<noteq> p) (timer_list s)"
      unfolding k(2) by (rule filter_cong) auto
    then show ?thesis
      using dinv_delete [OF inv m] delete_prefix_eq [OF inv m] Prefix_timeout k(1)
      by (auto simp: prefix_timeout_def)
  qed
qed

lemma update_fn_ok:
  assumes inv: "dinv s" and at: "timer_at p s = Some t" and u: "update t = Some u"
  shows "\<exists>v s'. update_fn u s = Inr (v, s') \<and> dinv s' \<and> tv_time v \<and>
    timer_head_tm s' = timer_head_tm s \<and> timer_list s' = timer_list s"
proof -
  have "timer_ok (ralist s) t"
    using inv at timer_at_Some [of s p t] by (auto simp: dinv_def)
  then obtain r where r: "u = Ra_timer_update r" "r \<in> rai_id ` set (ralist s)"
    using u by (cases "expire t") (auto simp: timer_ok_def)
  then obtain rai where "rai_at r s = Some rai" using rai_at_ex by blast
  from ra_timer_update_ok [OF inv this] inv r(1) show ?thesis by auto
qed

interpretation rt: timer_callbacks expire_fn update_fn dinv
  by unfold_locales
    (simp_all add: dinv_set_tm expire_fn_ok update_fn_ok, simp_all add: dinv_def timer_ok_def)

end
