(* ===== verification/Input.thy ===== *)
theory Input
  imports Daemon
begin

text \<open>
  Router solicitations and advertisements that arrive (\<open>src/rtadvd.tproj/rtadvd.c\<close>, \<open>rs_input\<close>,
  \<open>ra_input\<close>, \<open>prefix_check\<close>). A packet is the bytes of its ICMPv6 message; the interface
  index and the source address come from the socket. A solicitation schedules an
  advertisement after a short delay, unless one is already waiting; an advertisement of
  another router is compared with the daemon's own configuration.
\<close>

abbreviation (input) ND_ROUTER_SOLICIT :: byte where "ND_ROUTER_SOLICIT \<equiv> 133"

section \<open>Router solicitations\<close>

definition rs_input :: "byte list \<Rightarrow> int \<Rightarrow> in6_addr \<Rightarrow> rtadvd \<Rightarrow> rtadvd result" where
  "rs_input rs ipi6_ifindex from s =
     (case nd6_options (drop 8 rs) NDOPT_FLAG_SRCLINKADDR of
        None \<Rightarrow> Inr s
      | Some ndopts \<Rightarrow>
          if IN6_IS_ADDR_UNSPECIFIED from \<and> nd_opts_src_lladdr ndopts \<noteq> None then Inr s
          else case find (\<lambda>ra. ipi6_ifindex = ifindex ra) (ralist s) of
                 None \<Rightarrow> Inr s
               | Some ra \<Rightarrow>
                   let s1 = rai_upd (rai_id ra) (\<lambda>ra. ra\<lparr>rsinput := rsinput ra + 1,
                              soliciter := from # soliciter ra, waiting := waiting ra + 1\<rparr>) s
                   in if waiting ra \<noteq> 0 then Inr s1 else set_short_delay (rai_id ra) s1)"

section \<open>Router advertisements\<close>

text \<open>The number of inconsistencies counted for one prefix information option.\<close>

definition prefix_check :: "byte list \<Rightarrow> rainfo \<Rightarrow> rtadvd \<Rightarrow> nat \<times> rtadvd" where
  "prefix_check pinfo rai s =
     (case find_prefix rai (pi_prefix pinfo) (pi_prefix_len pinfo) of
        None \<Rightarrow> (0, s)
      | Some pp \<Rightarrow>
          let (inconsistent1, s1) =
                (if pltimeexpire pp \<noteq> 0 then
                   let (now, s1) = gettimeofday s;
                       preferred_time = pi_preferred_time pinfo + word_of_int (tv_sec now)
                   in (if pfx_timer pp = None \<and> clockskew rai \<noteq> 0 \<and>
                          uint preferred_time - pltimeexpire pp > clockskew rai then 1 else 0, s1)
                 else (0, s));
              (inconsistent2, s2) =
                (if vltimeexpire pp \<noteq> 0 then
                   let (now, s2) = gettimeofday s1;
                       valid_time = pi_valid_time pinfo + word_of_int (tv_sec now)
                   in (if pfx_timer pp = None \<and> clockskew rai \<noteq> 0 \<and>
                          uint valid_time - vltimeexpire pp > clockskew rai then 1 else 0, s2)
                 else (if pfx_timer pp = None \<and> pi_valid_time pinfo \<noteq> validlifetime pp then 1 else 0, s1))
          in (inconsistent1 + inconsistent2, s2))"

fun prefix_checks :: "byte list list \<Rightarrow> rainfo \<Rightarrow> rtadvd \<Rightarrow> nat \<times> rtadvd" where
  "prefix_checks [] rai s = (0, s)"
| "prefix_checks (pinfo # ps) rai s =
     (let (k, s1) = prefix_check pinfo rai s; (n, s2) = prefix_checks ps rai s1
      in ((if k \<noteq> 0 then 1 else 0) + n, s2))"

text \<open>\<open>on_off[flg]\<close>, an array of two strings; the message is only built for a mismatch.\<close>

definition on_off :: "int \<Rightarrow> string result" where
  "on_off i = (if i = 0 then Inr ''OFF'' else if i = 1 then Inr ''ON'' else Inl OutOfBounds)"

definition flag_check :: "byte \<Rightarrow> int \<Rightarrow> nat result" where
  "flag_check received flg =
     (if uint received \<noteq> flg then bind_r (on_off flg) (\<lambda>_. Inr 1) else Inr 0)"

definition value_check :: "u32 \<Rightarrow> u32 \<Rightarrow> nat" where
  "value_check received own = (if received \<noteq> 0 \<and> own \<noteq> 0 \<and> received \<noteq> own then 1 else 0)"

definition ra_input :: "byte list \<Rightarrow> int \<Rightarrow> rtadvd \<Rightarrow> rtadvd result" where
  "ra_input ra ipi6_ifindex s =
     (case nd6_options (drop 16 ra)
             ((NDOPT_FLAG_SRCLINKADDR OR NDOPT_FLAG_PREFIXINFO) OR NDOPT_FLAG_MTU) of
        None \<Rightarrow> Inr s
      | Some ndopts \<Rightarrow>
          case if_indextorainfo ipi6_ifindex s of
            None \<Rightarrow> Inr s
          | Some rai \<Rightarrow>
              let s1 = rai_upd (rai_id rai) (\<lambda>rai. rai\<lparr>rainput := rainput rai + 1\<rparr>) s;
                  hop = value_check (ucast (ra ! 4)) (hoplimit rai)
              in bind_r (flag_check (ra ! 5 AND ND_RA_FLAG_MANAGED) (managedflg rai)) (\<lambda>m.
                 bind_r (flag_check (ra ! 5 AND ND_RA_FLAG_OTHER) (otherflg rai)) (\<lambda>oth.
                 let reach = value_check (rd32 (drop 8 ra)) (reachabletime rai);
                     retrans = value_check (rd32 (drop 12 ra)) (retranstimer rai);
                     mtu = (case nd_opts_mtu ndopts of None \<Rightarrow> 0
                            | Some opt \<Rightarrow> value_check (rd32 (drop 4 opt)) (linkmtu rai));
                     pis = (case nd_opts_pi ndopts of None \<Rightarrow> [] | Some p \<Rightarrow> [p]) @ nd_opts_list ndopts;
                     (pfx, s2) = prefix_checks pis rai s1;
                     inconsistent = hop + m + oth + reach + retrans + mtu + pfx
                 in Inr (if inconsistent \<noteq> 0
                         then rai_upd (rai_id rai) (\<lambda>rai. rai\<lparr>rainconsistent := rainconsistent rai + 1\<rparr>) s2
                         else s2))))"

section \<open>Both keep the invariant\<close>

lemma prefix_check_state: "\<exists>n. snd (prefix_check p rai s) = s\<lparr>gtod_calls := n\<rparr>"
proof (cases "find_prefix rai (pi_prefix p) (pi_prefix_len p)")
  case None
  then show ?thesis by (intro exI [of _ "gtod_calls s"]) (simp add: prefix_check_def)
next
  case (Some pp)
  then show ?thesis
    by (intro exI [of _ "gtod_calls s + (if pltimeexpire pp \<noteq> 0 then 1 else 0) + (if vltimeexpire pp \<noteq> 0 then 1 else 0)"])
      (simp add: prefix_check_def Let_def gettimeofday_def)
qed

lemma prefix_checks_state: "\<exists>n. snd (prefix_checks ps rai s) = s\<lparr>gtod_calls := n\<rparr>"
proof (induction ps arbitrary: s)
  case Nil
  show ?case by (rule exI [of _ "gtod_calls s"]) simp
next
  case (Cons p ps)
  obtain n where n: "snd (prefix_check p rai s) = s\<lparr>gtod_calls := n\<rparr>" using prefix_check_state by blast
  obtain m where "snd (prefix_checks ps rai (s\<lparr>gtod_calls := n\<rparr>)) = s\<lparr>gtod_calls := n\<rparr>\<lparr>gtod_calls := m\<rparr>"
    using Cons.IH by blast
  with n show ?case by (auto simp: case_prod_unfold Let_def)
qed

lemma if_indextorainfo_at:
  assumes "dinv s" "if_indextorainfo i s = Some rai"
  shows "rai_at (rai_id rai) s = Some rai" "ifindex rai = i"
  using assms rai_at_Some [OF assms(1), of "rai_id rai" rai] by (auto simp: if_indextorainfo_def find_Some_iff)

lemma dinv_counter:
  assumes "dinv s"
    and "\<And>rai. rai_ok (timer_list s) rai \<Longrightarrow> rai_ok (timer_list s) (f rai)"
    and "\<And>rai. rai_id (f rai) = rai_id rai" "\<And>rai. prefix_list (f rai) = prefix_list rai"
  shows "dinv (rai_upd r f s)"
  using assms rai_ok_wf [OF assms(1)] by (intro dinv_rai_upd) auto

lemma rai_ok_counters [simp]:
  "rai_ok ts (rai\<lparr>rainput := n\<rparr>) = rai_ok ts rai" "rai_ok ts (rai\<lparr>rainconsistent := n\<rparr>) = rai_ok ts rai"
  "rai_ok ts (rai\<lparr>rsinput := n\<rparr>) = rai_ok ts rai" "rai_ok ts (rai\<lparr>soliciter := ss\<rparr>) = rai_ok ts rai"
  "rai_ok ts (rai\<lparr>lifetime := l\<rparr>) = rai_ok ts rai"
  by (simp_all add: rai_ok_def)

lemma rs_input_ok:
  assumes inv: "dinv s"
  shows "\<exists>s'. rs_input rs i from s = Inr s' \<and> dinv s' \<and> timer_ids s' = timer_ids s \<and> ifilist s' = ifilist s"
proof -
  have "\<exists>s'. set_short_delay (rai_id ra) (rai_upd (rai_id ra) f s) = Inr s' \<and> dinv s' \<and>
      timer_ids s' = timer_ids s \<and> ifilist s' = ifilist s"
    if "dinv (rai_upd (rai_id ra) f s)" "find (\<lambda>ra. i = ifindex ra) (ralist s) = Some ra"
      "rai_id (f ra) = rai_id ra" for ra f
  proof -
    have "rai_at (rai_id ra) s = Some ra"
      using that(2) rai_at_Some [OF inv, of "rai_id ra" ra] by (auto simp: find_Some_iff)
    then have "rai_at (rai_id ra) (rai_upd (rai_id ra) f s) = Some (f ra)"
      using that(3) by (intro rai_at_upd)
    from set_short_delay_ok [OF that(1) this] show ?thesis by auto
  qed
  moreover have "dinv (rai_upd r (\<lambda>ra. ra\<lparr>rsinput := rsinput ra + 1, soliciter := from # soliciter ra,
      waiting := waiting ra + 1\<rparr>) s)" for r
    by (rule dinv_counter [OF inv]) (simp_all add: rai_ok_def)
  ultimately show ?thesis
    using inv by (auto simp: rs_input_def Let_def split: option.splits)
qed

text \<open>
  A stored flag is zero or the flag's bit (\<open>getconfig\<close> masks it). The comparison is safe
  when the flag is off, or the received one agrees.
\<close>

lemma flag_check_ok: "flg = 0 \<or> uint b = flg \<Longrightarrow> flag_check b flg = Inr (if uint b \<noteq> flg then 1 else 0)"
  by (auto simp: flag_check_def on_off_def)

lemma flag_check_bad: "flg \<notin> {0, 1} \<Longrightarrow> uint b \<noteq> flg \<Longrightarrow> flag_check b flg = Inl OutOfBounds"
  by (simp add: flag_check_def on_off_def)

lemma ra_input_ok:
  assumes inv: "dinv s"
    and fl: "\<And>rai. if_indextorainfo i s = Some rai \<Longrightarrow>
      (managedflg rai = 0 \<or> uint (ra ! 5 AND ND_RA_FLAG_MANAGED) = managedflg rai) \<and>
      (otherflg rai = 0 \<or> uint (ra ! 5 AND ND_RA_FLAG_OTHER) = otherflg rai)"
  shows "\<exists>s'. ra_input ra i s = Inr s' \<and> dinv s' \<and> timer_list s' = timer_list s \<and> ifilist s' = ifilist s"
proof (cases "nd6_options (drop 16 ra) ((NDOPT_FLAG_SRCLINKADDR OR NDOPT_FLAG_PREFIXINFO) OR NDOPT_FLAG_MTU) = None
    \<or> if_indextorainfo i s = None")
  case True
  then show ?thesis using inv by (auto simp: ra_input_def split: option.splits)
next
  case False
  then obtain nd rai where nd: "nd6_options (drop 16 ra) ((NDOPT_FLAG_SRCLINKADDR OR NDOPT_FLAG_PREFIXINFO) OR NDOPT_FLAG_MTU) = Some nd"
    and rai: "if_indextorainfo i s = Some rai" by auto
  let ?r = "rai_id rai"
  define s1 where "s1 = rai_upd ?r (\<lambda>rai. rai\<lparr>rainput := rainput rai + 1\<rparr>) s"
  define pis where "pis = (case nd_opts_pi nd of None \<Rightarrow> [] | Some p \<Rightarrow> [p]) @ nd_opts_list nd"
  obtain n where n: "snd (prefix_checks pis rai s1) = s1\<lparr>gtod_calls := n\<rparr>" using prefix_checks_state by blast
  have d1: "dinv s1" unfolding s1_def by (rule dinv_counter [OF inv]) simp_all
  then have d2: "dinv (rai_upd ?r (\<lambda>rai. rai\<lparr>rainconsistent := rainconsistent rai + 1\<rparr>) (s1\<lparr>gtod_calls := n\<rparr>))"
    by (intro dinv_counter) simp_all
  obtain m oth where mo: "flag_check (ra ! 5 AND ND_RA_FLAG_MANAGED) (managedflg rai) = Inr m"
    "flag_check (ra ! 5 AND ND_RA_FLAG_OTHER) (otherflg rai) = Inr oth"
    using fl [OF rai] flag_check_ok by blast
  have "\<exists>k. ra_input ra i s = Inr (if k \<noteq> (0::nat)
      then rai_upd ?r (\<lambda>rai. rai\<lparr>rainconsistent := rainconsistent rai + 1\<rparr>) (s1\<lparr>gtod_calls := n\<rparr>)
      else s1\<lparr>gtod_calls := n\<rparr>)"
    unfolding ra_input_def nd rai option.case Let_def mo bind_r.simps case_prod_unfold
      s1_def [symmetric] pis_def [symmetric] n by (rule exI, rule refl)
  with d1 d2 show ?thesis by (auto simp: s1_def)
qed

section \<open>An advertisement of the same configuration\<close>

text \<open>
  What the comparison relies on: the stored flags are the flag bits or zero, the hop limit
  fits its byte, no two prefixes of the list agree on length and leading bits, and the
  lifetimes are not compared in real time.
\<close>

definition comparable :: "rainfo \<Rightarrow> bool" where
  "comparable rai \<longleftrightarrow>
     managedflg rai \<in> {0, 0x80} \<and> otherflg rai \<in> {0, 0x40} \<and> rtpref rai \<in> {0, 0x08, 0x18} \<and>
     hoplimit rai < 256 \<and>
     (\<forall>pp \<in> set (prefix_list rai).
        find_prefix rai (pfx_prefix pp) (pfx_prefixlen pp) = Some pp \<and>
        (clockskew rai = 0 \<or> pltimeexpire pp = 0 \<and> vltimeexpire pp = 0))"

lemma ra_header_flags:
  assumes "managedflg rai \<in> {0, 0x80}" "otherflg rai \<in> {0, 0x40}" "rtpref rai \<in> {0, 0x08, 0x18}"
  shows "uint (ra_header rai ! 5 AND ND_RA_FLAG_MANAGED) = managedflg rai"
    "uint (ra_header rai ! 5 AND ND_RA_FLAG_OTHER) = otherflg rai"
  using assms by (auto simp: ra_header_def)

lemma ra_header_fields:
  assumes "hoplimit rai < 256"
  shows "ucast (ra_header rai ! 4) = hoplimit rai"
    "rd32 (drop 8 (ra_header rai @ bs)) = reachabletime rai"
    "rd32 (drop 12 (ra_header rai @ bs)) = retranstimer rai"
proof -
  have lt: "uint (hoplimit rai) < 256" using assms by (simp add: word_less_def)
  have m: "0xff AND hoplimit rai = hoplimit rai"
    using mask_eq_iff [of "hoplimit rai" 8] lt by (simp add: mask_eq_exp_minus_1 and.commute)
  have "uint (ucast (ucast (hoplimit rai) :: byte) :: u32) = uint (hoplimit rai)"
    using lt by (simp add: unsigned_ucast_eq unsigned_take_bit_eq take_bit_int_eq_self)
  then have "ucast (ucast (hoplimit rai) :: byte) = hoplimit rai" by (rule word_uint_eqI)
  with m show "ucast (ra_header rai ! 4) = hoplimit rai"
    by (simp add: ra_header_def)
  show "rd32 (drop 8 (ra_header rai @ bs)) = reachabletime rai"
    "rd32 (drop 12 (ra_header rai @ bs)) = retranstimer rai"
    by (simp_all add: ra_header_def be_simps)
qed

lemma nd6_option_mtu:
  "nd_opts_mtu (nd6_option fl h o0) = nd_opts_mtu o0 \<or>
   nd_opts_mtu (nd6_option fl h o0) = Some h \<and> h ! 0 = ND_OPT_MTU"
  by (auto simp: nd6_option_def Let_def split: option.splits)

lemma fold_nd6_option_mtu:
  "nd_opts_mtu (fold (nd6_option fl) os o0) = nd_opts_mtu o0 \<or>
   (\<exists>h \<in> set os. nd_opts_mtu (fold (nd6_option fl) os o0) = Some h \<and> h ! 0 = ND_OPT_MTU)"
proof (induction os arbitrary: o0)
  case (Cons h os)
  show ?case
    using Cons.IH [of "nd6_option fl h o0"] nd6_option_mtu [of fl h o0] by auto
qed simp

lemma packet_options_mtu:
  assumes os: "packet_options rai s = Inr (os, s')" and h: "h \<in> set os" "h ! 0 = ND_OPT_MTU"
  shows "h = mtu_option rai"
proof -
  have "h \<in> set (fst (prefix_options (prefix_list rai) s)) \<Longrightarrow> h ! 0 = ND_OPT_PREFIX_INFORMATION"
    using prefix_options_mem [of h "prefix_list rai" s] by (auto simp: prefix_option_def case_prod_unfold Let_def)
  with os h show ?thesis
    by (auto simp: packet_options_def res_simps case_prod_unfold Let_def lladdropt_fill_def route_option_def
        rdnss_option_def dnssl_option_def capport_option_def pref64_option_def
        split: if_splits option.splits)
qed

lemma prefix_check_own:
  assumes "prefix_ok pp" "find_prefix rai (pfx_prefix pp) (pfx_prefixlen pp) = Some pp"
    and "clockskew rai = 0 \<or> pltimeexpire pp = 0 \<and> vltimeexpire pp = 0"
  shows "fst (prefix_check (prefix_option now pp) rai s) = 0"
proof -
  have v: "fst (pi_lifetimes now pp) = validlifetime pp" if "pfx_timer pp = None" "vltimeexpire pp = 0"
    using that by (simp add: pi_lifetimes_def Let_def)
  show ?thesis
    using assms v by (cases "clockskew rai = 0"; cases "pltimeexpire pp = 0"; cases "vltimeexpire pp = 0";
        cases "pfx_timer pp = None")
      (simp_all add: prefix_check_def prefix_option_fields Let_def gettimeofday_def)
qed

lemma prefix_checks_own:
  assumes "\<forall>p \<in> set ps. \<exists>now. \<exists>pp \<in> set (prefix_list rai). p = prefix_option now pp"
    and "comparable rai" "rainfo_wf rai"
  shows "fst (prefix_checks ps rai s) = 0"
  using assms(1)
proof (induction ps arbitrary: s)
  case (Cons p ps)
  then obtain now pp where "pp \<in> set (prefix_list rai)" "p = prefix_option now pp" by auto
  then have "fst (prefix_check p rai s) = 0"
    using assms(2,3) prefix_check_own by (auto simp: comparable_def rainfo_wf_def)
  with Cons show ?case by (simp add: case_prod_unfold Let_def)
qed simp

lemma value_check_same [simp]: "value_check v v = 0"
  by (simp add: value_check_def)

lemma comparable_settled: "comparable rai \<Longrightarrow> comparable (settled rai)"
  by (auto simp: comparable_def settled_def find_prefix_def split: option.splits)

lemma settled_header [simp]: "ra_header (settled rai) = ra_header rai"
  by (simp add: ra_header_def settled_def split: option.splits)

lemma ra_input_own:
  assumes wf: "rainfo_wf rai" "options_small rai" "comparable rai"
    and mp: "make_packet rai s0 = Inr (rai', s0')" "ra_data rai' = Some b"
    and at: "if_indextorainfo i s = Some rai"
  shows "\<exists>n. ra_input b i s =
    Inr ((rai_upd (rai_id rai) (\<lambda>rai. rai\<lparr>rainput := rainput rai + 1\<rparr>) s)\<lparr>gtod_calls := n\<rparr>)"
proof -
  let ?fl = "(NDOPT_FLAG_SRCLINKADDR OR NDOPT_FLAG_PREFIXINFO) OR NDOPT_FLAG_MTU"
  obtain os where os: "packet_options (settled rai) s0 = Inr (os, s0')" and b: "b = ra_header rai @ concat os"
    using make_packet_ok [OF wf(1), of s0] mp by auto
  have msgs: "\<forall>m \<in> set os. opts.msg_ok m" "filter is_pi os = fst (prefix_options (prefix_list rai) s0)"
    using packet_options_msgs [OF _ _ os] wf(1,2) by simp_all
  define nd where "nd = fold (nd6_option ?fl) os nd_opts_zero"
  have nd: "nd6_options (drop 16 b) ?fl = Some nd"
    using nd6_options_concat [OF msgs(1)] by (simp add: b nd_def)
  have "nd_opts_mtu nd = None \<or> nd_opts_mtu nd = Some (mtu_option rai)"
  proof -
    have "nd_opts_mtu nd = None \<or> (\<exists>h \<in> set os. nd_opts_mtu nd = Some h \<and> h ! 0 = ND_OPT_MTU)"
      using fold_nd6_option_mtu [of ?fl os nd_opts_zero] by (simp add: nd_def nd_opts_zero_def)
    moreover have "mtu_option (settled rai) = mtu_option rai" by (simp add: mtu_option_def)
    ultimately show ?thesis using packet_options_mtu [OF os] by metis
  qed
  then have mtu: "(case nd_opts_mtu nd of None \<Rightarrow> 0 | Some opt \<Rightarrow> value_check (rd32 (drop 4 opt)) (linkmtu rai)) = 0"
    using rd32_be32 [of "linkmtu rai" "[]"] by (auto simp: mtu_option_def)
  define pis where "pis = (case nd_opts_pi nd of None \<Rightarrow> [] | Some p \<Rightarrow> [p]) @ nd_opts_list nd"
  have fpi: "case filter is_pi os of [] \<Rightarrow> nd_opts_pi nd = None \<and> nd_opts_list nd = []
      | h # hs \<Rightarrow> nd_opts_pi nd = Some h \<and> nd_opts_list nd = rev hs"
    unfolding nd_def by (rule fold_nd6_option_pi) (simp_all add: nd_opts_zero_def)
  have "set pis = set (filter is_pi os)"
    using fpi unfolding pis_def by (cases "filter is_pi os") (simp_all del: set_filter)
  then have "\<forall>p \<in> set pis. \<exists>now. \<exists>pp \<in> set (prefix_list rai). p = prefix_option now pp"
    using prefix_options_mem unfolding msgs(2) by blast
  from prefix_checks_own [OF this wf(3,1)] have pfx: "fst (prefix_checks pis rai s1) = 0" for s1 .
  have hd: "b ! 4 = ra_header rai ! 4" "b ! 5 = ra_header rai ! 5" by (simp_all add: b nth_append)
  have fl: "flag_check (b ! 5 AND ND_RA_FLAG_MANAGED) (managedflg rai) = Inr 0"
    "flag_check (b ! 5 AND ND_RA_FLAG_OTHER) (otherflg rai) = Inr 0"
    using ra_header_flags [of rai] wf(3) unfolding hd comparable_def by (simp_all add: flag_check_def)
  have vals: "value_check (ucast (b ! 4)) (hoplimit rai) = 0"
    "value_check (rd32 (drop 8 b)) (reachabletime rai) = 0" "value_check (rd32 (drop 12 b)) (retranstimer rai) = 0"
    using ra_header_fields [of rai] wf(3) unfolding b comparable_def by (simp_all add: nth_append)
  obtain n where n: "snd (prefix_checks pis rai (rai_upd (rai_id rai) (\<lambda>rai. rai\<lparr>rainput := rainput rai + 1\<rparr>) s)) =
      (rai_upd (rai_id rai) (\<lambda>rai. rai\<lparr>rainput := rainput rai + 1\<rparr>) s)\<lparr>gtod_calls := n\<rparr>"
    using prefix_checks_state by blast
  show ?thesis
    unfolding ra_input_def nd at option.case Let_def fl bind_r.simps case_prod_unfold vals mtu
      pis_def [symmetric] pfx n by auto
qed

end
