(* ===== verification/Examples.thy ===== *)
theory Examples
  imports Input
begin

text \<open>
  A small concrete daemon on which the properties are instantiated: one Ethernet interface
  that advertises two prefixes, the second of them invalidated and counting down to its
  removal.
\<close>

definition ex_addr :: "byte \<Rightarrow> in6_addr" where
  "ex_addr b = [0x20, 0x01, 0x0d, 0xb8, 0, 0, 0, b] @ replicate 8 0"

definition ex_prefix :: "nat \<Rightarrow> nat option \<Rightarrow> byte \<Rightarrow> prefix" where
  "ex_prefix p t b = \<lparr>pfx_id = p, pfx_timer = t, validlifetime = 2592000, vltimeexpire = 0,
     preflifetime = 604800, pltimeexpire = 0, onlinkflg = 1, autoconfflg = 1,
     pfx_prefixlen = 64, origin = PREFIX_FROM_CONFIG, pfx_prefix = ex_addr b\<rparr>"

definition ex_rai :: rainfo where
  "ex_rai = \<lparr>rai_id = 0, rai_timer = Some 0, initcounter = 3, lastsent = Timeval 99 0, waiting = 0,
     ifindex = 4, advlinkopt = True,
     sdl = Some \<lparr>sdl_index = 4, sdl_type = 6, sdl_lladdr = [2, 0, 0, 0, 0, 1]\<rparr>,
     ifname = ''en0'', phymtu = 1500, lifetime = 1800, maxinterval = 600, mininterval = 200,
     managedflg = 0x80, otherflg = 0, rtpref = 0, linkmtu = 1500, reachabletime = 0,
     retranstimer = 0, hoplimit = 64,
     prefix_list = [ex_prefix 1 None 1, ex_prefix 2 (Some 1) 2], pfxs = 2, clockskew = 0,
     route_list = [], routes = 0, rdnss_list = [ex_addr 9], rdnss_length = 1, rdnss_lifetime = 900,
     dnssl_list = [''example.org''], dnssl_length = 1, dnssl_lifetime = 900, dnssl_option_length = 24,
     capport = None, capport_length = 0, capport_option_length = 0,
     pref64_specified = False, pref64_prefix_length = 0, pref64_lifetime_plc = 0, pref64_addr = [],
     ra_datalen = 0, ra_data = None, raoutput = 3, rainput = 0, rainconsistent = 0, rsinput = 0,
     soliciter = []\<rparr>"

definition ex_state :: rtadvd where
  "ex_state = \<lparr>gtod = (\<lambda>n. Timeval (100 + int n) 0), gtod_calls = 0, timer_head_tm = tm_max,
     timer_list = [\<lparr>tid = 1, tm = Timeval 7000 0, expire = Prefix_timeout 2, update = None\<rparr>,
                   \<lparr>tid = 0, tm = Timeval 100 0, expire = Ra_timeout 0, update = Some (Ra_timer_update 0)\<rparr>],
     timer_next_id = 2,
     rand = (\<lambda>n. 17 * int n + 123456789), rand_calls = 0, ralist = [ex_rai],
     ifilist = [\<lparr>ifm_index = 4, ifm_flags = 1\<rparr>], next_addr = 3, sent = [],
     kflags = (\<lambda>_. Some 1), kflags_calls = 0, indextoname = (\<lambda>i. i = 4), sflag = False,
     accept_rr = False, kiflist = (\<lambda>_. Some []), kiflist_calls = 0,
     rro = \<lparr>rro_seqnum = 0, rro_segnum_bits = replicate 8 0\<rparr>, renumreqs = []\<rparr>"

lemma ex_rai_wf: "rainfo_wf ex_rai"
  by (simp add: rainfo_wf_parts ex_rai_def ex_prefix_def ex_addr_def prefix_ok_def in6_ok_def sdl_ok_def)

lemma ex_dinv: "dinv ex_state"
  using ex_rai_wf
  by (simp add: dinv_def ex_state_def rai_ok_def timer_ok_def armed_def tv_time_def)
    (simp add: ex_rai_def ex_prefix_def)

lemma ex_rai_at: "rai_at 0 ex_state = Some ex_rai"
  by (simp add: rai_at_def ex_state_def ex_rai_def)

end
