(* ===== verification/Advcap.thy ===== *)
theory Advcap
  imports Prelude
begin

text \<open>
  The capability data base (\<open>src/rtadvd.tproj/advcap.c\<close>). A buffer is the list of its
  characters, the terminating NUL and what follows it included; a pointer into it is an
  index. A read outside the buffer stops with \<open>OutOfBounds\<close>. The file is what \<open>read\<close> yields
  of it. \<open>tcbuf\<close> of \<open>tnchktc\<close> is not initialised and \<open>p-tbuf\<close> there is the distance of two
  stack frames: both are part of the environment.

  The lemmas show what \<open>tgetnum\<close>, \<open>tgetflag\<close> and \<open>tgetstr\<close> find in an entry that is written
  field by field, and what \<open>tdecode\<close> makes of a string.
\<close>

section \<open>Characters\<close>

abbreviation (input) NUL :: char where "NUL \<equiv> CHR 0x00"
abbreviation (input) BACKSLASH :: char where "BACKSLASH \<equiv> CHR 0x5c"
abbreviation (input) BUFSIZ :: nat where "BUFSIZ \<equiv> 1024"
abbreviation (input) MAXHOP :: nat where "MAXHOP \<equiv> 32"

definition isdigit :: "char \<Rightarrow> bool" where
  "isdigit c \<longleftrightarrow> 48 \<le> (of_char c :: nat) \<and> (of_char c :: nat) \<le> 57"

text \<open>The value of \<open>c - '0'\<close>; \<open>char\<close> is signed.\<close>

definition digit :: "char \<Rightarrow> int" where
  "digit c = (if bit (of_char c :: nat) 7 then of_char c - 256 else of_char c) - 48"

definition chr_at :: "char list \<Rightarrow> nat \<Rightarrow> char result" where
  "chr_at b i = (if i < length b then Inr (b ! i) else Inl OutOfBounds)"

lemma chr_at_Inr: "chr_at b i = Inr c \<longleftrightarrow> i < length b \<and> b ! i = c"
  by (auto simp: chr_at_def)

lemma chr_at_Inl: "chr_at b i = Inl e \<longleftrightarrow> length b \<le> i \<and> e = OutOfBounds"
  by (auto simp: chr_at_def)

function strlen :: "char list \<Rightarrow> nat \<Rightarrow> nat result" where
  "strlen b i =
     (case chr_at b i of
        Inl e \<Rightarrow> Inl e
      | Inr c \<Rightarrow> if c = NUL then Inr 0 else bind_r (strlen b (Suc i)) (\<lambda>n. Inr (Suc n)))"
  by pat_completeness auto
termination
  by (relation "measure (\<lambda>(b, i). length b - i)") (auto simp: chr_at_Inr)

text \<open>\<open>strncmp(bp, id, strlen(id)) == 0\<close>\<close>

fun strn_eq :: "char list \<Rightarrow> nat \<Rightarrow> string \<Rightarrow> bool result" where
  "strn_eq b i [] = Inr True"
| "strn_eq b i (c # cs) = bind_r (chr_at b i) (\<lambda>d. if d \<noteq> c then Inr False else strn_eq b (Suc i) cs)"

section \<open>Fields\<close>

text \<open>\<open>while (isdigit(*bp++));\<close>\<close>

function skip_digits :: "char list \<Rightarrow> nat \<Rightarrow> nat result" where
  "skip_digits b i =
     (case chr_at b i of
        Inl e \<Rightarrow> Inl e
      | Inr c \<Rightarrow> if isdigit c then skip_digits b (Suc i) else Inr (Suc i))"
  by pat_completeness auto
termination
  by (relation "measure (\<lambda>(b, i). length b - i)") (auto simp: chr_at_Inr)

declare strlen.simps [simp del] skip_digits.simps [simp del]

lemma skip_digits_gt: "skip_digits b i = Inr j \<Longrightarrow> i < j"
proof (induction b i rule: skip_digits.induct)
  case (1 b i)
  then show ?case by (subst (asm) (2) skip_digits.simps) (auto split: sum.splits if_splits)
qed

text \<open>
  The case of a backslash falls through to that of a quote, which leaves \<open>dquote\<close> as it is.
\<close>

function tskip_loop :: "char list \<Rightarrow> bool \<Rightarrow> nat \<Rightarrow> nat result" where
  "tskip_loop b dquote bp =
     (case chr_at b bp of
        Inl e \<Rightarrow> Inl e
      | Inr c \<Rightarrow>
          if c = NUL then Inr bp
          else if c = CHR '':'' then (if \<not> dquote then Inr bp else tskip_loop b dquote (Suc bp))
          else if c = BACKSLASH then
            (case chr_at b (Suc bp) of
               Inl e \<Rightarrow> Inl e
             | Inr d \<Rightarrow>
                 (case (if isdigit d then skip_digits b (Suc bp) else Inr (Suc (Suc bp))) of
                    Inl e \<Rightarrow> Inl e
                  | Inr bp' \<Rightarrow> tskip_loop b (if dquote then True else False) (Suc bp')))
          else if c = CHR 0x22 then tskip_loop b (if dquote then True else False) (Suc bp)
          else tskip_loop b dquote (Suc bp))"
  by pat_completeness auto
termination
  by (relation "measure (\<lambda>(b, q, i). length b - i)")
    (auto simp: chr_at_Inr split: if_splits dest!: skip_digits_gt)

declare tskip_loop.simps [simp del]

definition tskip :: "char list \<Rightarrow> nat \<Rightarrow> nat result" where
  "tskip b bp = bind_r (tskip_loop b False bp) (\<lambda>bp'.
     bind_r (chr_at b bp') (\<lambda>c. Inr (if c = CHR '':'' then Suc bp' else bp')))"

lemma tskip_loop_ge:
  "tskip_loop b q i = Inr j \<Longrightarrow> i \<le> j \<and> j < length b \<and> (b ! j = NUL \<or> b ! j = CHR '':'' \<and> \<not> q)"
proof (induction "length b - i" arbitrary: i q rule: less_induct)
  case less
  have IH: "i < j \<and> j < length b \<and> (b ! j = NUL \<or> b ! j = CHR '':'' \<and> \<not> q')"
    if "i < length b" "tskip_loop b q' i' = Inr j" "i < i'" for i' q'
    using less(1) [of i' q'] that diff_less_mono2 [OF that(3,1)] by linarith
  show ?case
  proof (cases "i < length b")
    case True
    with less(2) show ?thesis
      by (subst (asm) tskip_loop.simps)
        (auto simp: chr_at_def split: sum.splits if_splits dest!: skip_digits_gt IH [OF True])
  next
    case False
    with less(2) show ?thesis by (subst (asm) tskip_loop.simps) (simp add: chr_at_def)
  qed
qed

lemma tskip_gt: "tskip b i = Inr j \<Longrightarrow> i \<le> j \<and> i < length b \<and> (j = i \<longrightarrow> b ! i = NUL)"
  by (fastforce simp: tskip_def chr_at_Inr res_simps split: if_splits dest!: tskip_loop_ge)

lemma tskip_lt: "tskip b i = Inr j \<Longrightarrow> b ! j \<noteq> NUL \<Longrightarrow> i < j"
  using tskip_gt [of b i j] by (cases "j = i") auto

section \<open>Numbers, flags and strings\<close>

function digits_loop :: "char list \<Rightarrow> int \<Rightarrow> int \<Rightarrow> nat \<Rightarrow> int result" where
  "digits_loop b base i bp =
     (case chr_at b bp of
        Inl e \<Rightarrow> Inl e
      | Inr c \<Rightarrow>
          if isdigit c then
            (if 2 ^ 63 \<le> i * base + digit c then Inl SignedOverflow
             else digits_loop b base (i * base + digit c) (Suc bp))
          else Inr i)"
  by pat_completeness auto
termination
  by (relation "measure (\<lambda>(b, base, i, bp). length b - bp)") (auto simp: chr_at_Inr)

function tgetnum_loop :: "char list \<Rightarrow> string \<Rightarrow> nat \<Rightarrow> int result" where
  "tgetnum_loop b key bp =
     (case tskip b bp of
        Inl e \<Rightarrow> Inl e
      | Inr bp1 \<Rightarrow>
          case chr_at b bp1 of
            Inl e \<Rightarrow> Inl e
          | Inr c0 \<Rightarrow>
          if c0 = NUL then Inr (-1)
          else (case strn_eq b bp1 key of
                  Inl e \<Rightarrow> Inl e
                | Inr eq \<Rightarrow>
                    if \<not> eq then tgetnum_loop b key bp1
                    else (case chr_at b (bp1 + length key) of
                            Inl e \<Rightarrow> Inl e
                          | Inr c \<Rightarrow>
                              if c = CHR ''@'' then Inr (-1)
                              else if c \<noteq> CHR ''#'' then tgetnum_loop b key (bp1 + length key)
                              else bind_r (chr_at b (Suc (bp1 + length key))) (\<lambda>d.
                                digits_loop b (if d = CHR ''0'' then 8 else 10) 0 (Suc (bp1 + length key))))))"
  by pat_completeness auto
termination
  by (relation "measure (\<lambda>(b, key, bp). length b - bp)") (auto simp: chr_at_Inr dest: tskip_lt intro!: diff_less_mono2)

definition tgetnum :: "char list \<Rightarrow> string \<Rightarrow> int result" where
  "tgetnum tbuf key = tgetnum_loop tbuf key 0"

function tgetflag_loop :: "char list \<Rightarrow> string \<Rightarrow> nat \<Rightarrow> bool result" where
  "tgetflag_loop b key bp =
     (case tskip b bp of
        Inl e \<Rightarrow> Inl e
      | Inr bp1 \<Rightarrow>
          case chr_at b bp1 of
            Inl e \<Rightarrow> Inl e
          | Inr c0 \<Rightarrow>
          if c0 = NUL then Inr False
          else (case strn_eq b bp1 key of
                  Inl e \<Rightarrow> Inl e
                | Inr eq \<Rightarrow>
                    if \<not> eq then tgetflag_loop b key bp1
                    else (case chr_at b (bp1 + length key) of
                            Inl e \<Rightarrow> Inl e
                          | Inr c \<Rightarrow>
                              if c = NUL \<or> c = CHR '':'' then Inr True
                              else if c = CHR ''@'' then Inr False
                              else tgetflag_loop b key (bp1 + length key))))"
  by pat_completeness auto
termination
  by (relation "measure (\<lambda>(b, key, bp). length b - bp)") (auto simp: chr_at_Inr dest: tskip_lt intro!: diff_less_mono2)

definition tgetflag :: "char list \<Rightarrow> string \<Rightarrow> bool result" where
  "tgetflag tbuf key = tgetflag_loop tbuf key 0"

text \<open>The pairs of the table \<open>dp\<close>.\<close>

definition escapes :: "(char \<times> char) list" where
  "escapes = [(CHR ''E'', CHR 0x1b), (CHR ''^'', CHR ''^''), (BACKSLASH, BACKSLASH), (CHR '':'', CHR '':''),
     (CHR ''n'', CHR 0x0a), (CHR ''r'', CHR 0x0d), (CHR ''t'', CHR 0x09), (CHR ''b'', CHR 0x08),
     (CHR ''f'', CHR 0x0c), (CHR 0x22, CHR 0x22)]"

definition char_of_int :: "int \<Rightarrow> char" where
  "char_of_int c = char_of (nat (c mod 256))"

text \<open>The character the switch makes of \<open>c\<close> and the pointer after it; \<open>str\<close> is behind \<open>c\<close>.\<close>

definition tdecode_char :: "char list \<Rightarrow> nat \<Rightarrow> char \<Rightarrow> (nat \<times> char) result" where
  "tdecode_char b str c =
     (if c = CHR ''^'' then
        bind_r (chr_at b str) (\<lambda>d. Inr (Suc str, char_of ((of_char d :: nat) AND 0x1f)))
      else if c = BACKSLASH then
        bind_r (chr_at b str) (\<lambda>d.
        case map_of escapes d of
          Some e \<Rightarrow> Inr (Suc str, e)
        | None \<Rightarrow>
            if isdigit d then
              bind_r (chr_at b (Suc str)) (\<lambda>d1.
              let v1 = (digit d * 8) OR digit d1
              in bind_r (chr_at b (Suc (Suc str))) (\<lambda>d2.
                 if isdigit d2 then Inr (Suc (Suc (Suc str)), char_of_int ((v1 * 8) OR digit d2))
                 else Inr (Suc (Suc str), char_of_int v1)))
            else Inr (Suc str, d))
      else Inr (str, c))"

lemma tdecode_char_ge: "tdecode_char b str c = Inr (str', c') \<Longrightarrow> str \<le> str'"
  by (auto simp: tdecode_char_def Let_def res_simps split: if_splits option.splits)

function tdecode_loop :: "char list \<Rightarrow> char \<Rightarrow> nat \<Rightarrow> string result" where
  "tdecode_loop b trm str =
     (case chr_at b str of
        Inl e \<Rightarrow> Inl e
      | Inr c \<Rightarrow>
          if c = NUL then Inr []
          else if c = trm then
            if trm \<noteq> CHR '':'' then
              (case chr_at b (Suc str) of
                 Inl e \<Rightarrow> Inl e
               | Inr d \<Rightarrow> if d = CHR 0x22 then tdecode_loop b CHR 0x22 (Suc (Suc str))
                          else tdecode_loop b CHR '':'' (Suc str))
            else Inr []
          else (case tdecode_char b (Suc str) c of
                  Inl e \<Rightarrow> Inl e
                | Inr (str', c') \<Rightarrow> bind_r (tdecode_loop b trm str') (\<lambda>r. Inr (c' # r))))"
  by pat_completeness auto
termination
  by (relation "measure (\<lambda>(b, trm, str). length b - str)")
    (auto simp: chr_at_Inr dest!: tdecode_char_ge intro!: diff_less_mono2)

declare digits_loop.simps [simp del] tgetnum_loop.simps [simp del] tgetflag_loop.simps [simp del]
  tdecode_loop.simps [simp del]

text \<open>
  The string and the room left in \<open>area\<close>, of which there is \<open>room\<close>: the characters and a NUL
  are stored there without a check.
\<close>

definition tdecode :: "char list \<Rightarrow> nat \<Rightarrow> nat \<Rightarrow> (string \<times> nat) result" where
  "tdecode b str room =
     bind_r (chr_at b str) (\<lambda>c.
     bind_r (if c = CHR 0x22 then tdecode_loop b CHR 0x22 (Suc str) else tdecode_loop b CHR '':'' str) (\<lambda>r.
     if room < Suc (length r) then Inl OutOfBounds
     else Inr (takeWhile (\<lambda>c. c \<noteq> NUL) r, room - Suc (length r))))"

function tgetstr_loop :: "char list \<Rightarrow> string \<Rightarrow> nat \<Rightarrow> nat \<Rightarrow> (string option \<times> nat) result" where
  "tgetstr_loop b key room bp =
     (case tskip b bp of
        Inl e \<Rightarrow> Inl e
      | Inr bp1 \<Rightarrow>
          case chr_at b bp1 of
            Inl e \<Rightarrow> Inl e
          | Inr c0 \<Rightarrow>
          if c0 = NUL then Inr (None, room)
          else (case strn_eq b bp1 key of
                  Inl e \<Rightarrow> Inl e
                | Inr eq \<Rightarrow>
                    if \<not> eq then tgetstr_loop b key room bp1
                    else (case chr_at b (bp1 + length key) of
                            Inl e \<Rightarrow> Inl e
                          | Inr c \<Rightarrow>
                              if c = CHR ''@'' then Inr (None, room)
                              else if c \<noteq> CHR ''='' then tgetstr_loop b key room (bp1 + length key)
                              else bind_r (tdecode b (Suc (bp1 + length key)) room) (\<lambda>(s, room').
                                Inr (Some s, room')))))"
  by pat_completeness auto
termination
  by (relation "measure (\<lambda>(b, key, room, bp). length b - bp)") (auto simp: chr_at_Inr dest: tskip_lt intro!: diff_less_mono2)

declare tgetstr_loop.simps [simp del]

definition tgetstr :: "char list \<Rightarrow> string \<Rightarrow> nat \<Rightarrow> (string option \<times> nat) result" where
  "tgetstr tbuf key room = tgetstr_loop tbuf key room 0"

section \<open>Entries\<close>

text \<open>\<open>for (Np = np; *Np && *Bp == *Np; Bp++, Np++)\<close>: where \<open>Bp\<close> and \<open>Np\<close> end.\<close>

fun name_prefix :: "char list \<Rightarrow> nat \<Rightarrow> string \<Rightarrow> (nat \<times> string) result" where
  "name_prefix b Bp [] = Inr (Bp, [])"
| "name_prefix b Bp (c # cs) =
     bind_r (chr_at b Bp) (\<lambda>d. if d = c then name_prefix b (Suc Bp) cs else Inr (Bp, c # cs))"

lemma name_prefix_ge: "name_prefix b i np = Inr (j, r) \<Longrightarrow> i \<le> j"
  by (induction np arbitrary: i) (fastforce simp: res_simps split: if_splits)+

function skip_name :: "char list \<Rightarrow> nat \<Rightarrow> nat result" where
  "skip_name b Bp =
     (case chr_at b Bp of
        Inl e \<Rightarrow> Inl e
      | Inr c \<Rightarrow> if c \<noteq> NUL \<and> c \<noteq> CHR '':'' \<and> c \<noteq> CHR ''|'' then skip_name b (Suc Bp) else Inr Bp)"
  by pat_completeness auto
termination
  by (relation "measure (\<lambda>(b, Bp). length b - Bp)") (auto simp: chr_at_Inr)

declare skip_name.simps [simp del]

lemma skip_name_ge: "skip_name b i = Inr j \<Longrightarrow> i \<le> j \<and> j < length b"
proof (induction b i rule: skip_name.induct)
  case (1 b i)
  then show ?case by (subst (asm) (2) skip_name.simps) (auto simp: chr_at_Inr split: sum.splits if_splits)
qed

function tnamatch_loop :: "char list \<Rightarrow> string \<Rightarrow> nat \<Rightarrow> bool result" where
  "tnamatch_loop b np Bp =
     (case name_prefix b Bp np of
        Inl e \<Rightarrow> Inl e
      | Inr (Bp1, Np) \<Rightarrow>
          (case chr_at b Bp1 of
             Inl e \<Rightarrow> Inl e
           | Inr c \<Rightarrow>
               if Np = [] \<and> (c = CHR ''|'' \<or> c = CHR '':'' \<or> c = NUL) then Inr True
               else (case skip_name b Bp1 of
                       Inl e \<Rightarrow> Inl e
                     | Inr Bp2 \<Rightarrow>
                         if b ! Bp2 = NUL \<or> b ! Bp2 = CHR '':'' then Inr False
                         else tnamatch_loop b np (Suc Bp2))))"
  by pat_completeness auto
termination
  by (relation "measure (\<lambda>(b, np, Bp). length b - Bp)")
    (auto dest!: name_prefix_ge skip_name_ge)

declare tnamatch_loop.simps [simp del]

definition tnamatch :: "char list \<Rightarrow> string \<Rightarrow> bool result" where
  "tnamatch tbuf np = bind_r (chr_at tbuf 0) (\<lambda>c. if c = CHR ''#'' then Inr False else tnamatch_loop tbuf np 0)"

text \<open>
  One line of the file into the buffer, from \<open>cp\<close> on: the rest of the file, the buffer and
  \<open>cp\<close>. The end of the file ends \<open>getent\<close>, also inside a line.
\<close>

fun getent_line :: "char list \<Rightarrow> char list \<Rightarrow> nat \<Rightarrow> (char list \<times> char list \<times> nat) option" where
  "getent_line [] bp cp = None"
| "getent_line (c # cs) bp cp =
     (if c = CHR 0x0a then
        (if 0 < cp \<and> bp ! (cp - 1) = BACKSLASH then getent_line cs bp (cp - 1) else Some (cs, bp, cp))
      else if BUFSIZ - 1 \<le> cp then Some (cs, bp, cp)
      else getent_line cs (bp[cp := c]) (Suc cp))"

lemma getent_line_shorter: "getent_line cs bp cp = Some (cs', bp', cp') \<Longrightarrow> length cs' < length cs"
  by (induction cs bp cp rule: getent_line.induct) (auto split: if_splits)

text \<open>The first entry of that name, in the buffer; \<open>None\<close> when the file ends first.\<close>

function getent_search :: "string \<Rightarrow> char list \<Rightarrow> char list \<Rightarrow> char list option result" where
  "getent_search nm cs bp =
     (case getent_line cs bp 0 of
        None \<Rightarrow> Inr None
      | Some (cs', bp', cp) \<Rightarrow>
          let bp1 = bp'[cp := NUL]
          in (case tnamatch bp1 nm of
                Inl e \<Rightarrow> Inl e
              | Inr found \<Rightarrow> if found then Inr (Some bp1) else getent_search nm cs' bp1))"
  by pat_completeness auto
termination
  by (relation "measure (\<lambda>(nm, cs, bp). length cs)") (auto dest: getent_line_shorter)

declare getent_search.simps [simp del]

text \<open>
  \<open>tnchktc\<close>. The search for the last colon reads before it compares the pointer with the
  start of the buffer; \<open>k\<close> is the index it reads.
\<close>

function last_colon :: "char list \<Rightarrow> int \<Rightarrow> nat result" where
  "last_colon b k =
     (if k < 0 then Inl OutOfBounds
      else case chr_at b (nat k) of
             Inl e \<Rightarrow> Inl e
           | Inr c \<Rightarrow> if c = CHR '':'' then Inr (nat k) else last_colon b (k - 1))"
  by pat_completeness auto
termination
  by (relation "measure (\<lambda>(b, k). nat (k + 1))") auto

declare last_colon.simps [simp del]

function first_colon :: "char list \<Rightarrow> nat \<Rightarrow> nat result" where
  "first_colon b q =
     (case chr_at b q of
        Inl e \<Rightarrow> Inl e
      | Inr c \<Rightarrow> if c = CHR '':'' then Inr (Suc q) else first_colon b (Suc q))"
  by pat_completeness auto
termination
  by (relation "measure (\<lambda>(b, q). length b - q)") (auto simp: chr_at_Inr)

declare first_colon.simps [simp del]

text \<open>\<open>strlcpy(dst + p, src, sz)\<close> of the string \<open>src\<close> into the buffer \<open>dst\<close>.\<close>

definition strlcpy_at :: "char list \<Rightarrow> nat \<Rightarrow> string \<Rightarrow> nat \<Rightarrow> char list result" where
  "strlcpy_at dst p src sz =
     (if sz = 0 then Inr dst
      else let t = take (sz - 1) src @ [NUL]
           in if length dst < p + length t then Inl OutOfBounds
              else Inr (take p dst @ t @ drop (p + length t) dst))"

definition str_at :: "char list \<Rightarrow> nat \<Rightarrow> string result" where
  "str_at b i = bind_r (strlen b i) (\<lambda>n. Inr (take n (drop i b)))"

text \<open>
  What the program cannot choose: the file (\<open>None\<close> when it cannot be opened), the contents of
  each \<open>tcbuf\<close> when \<open>tnchktc\<close> is entered, and the distance from \<open>tcbuf\<close> to \<open>holdtbuf\<close>.
\<close>

record advenv =
  conffile :: "char list option"
  tcjunk :: "nat \<Rightarrow> char list"
  framedist :: "nat \<Rightarrow> nat"

text \<open>
  The result of \<open>getent\<close> and \<open>tnchktc\<close>: the value, the buffer, \<open>hopcount\<close>, and whether \<open>tbuf\<close>
  still is the buffer (otherwise it is a \<open>tcbuf\<close> that is gone).
\<close>

type_synonym entres = "(int \<times> char list \<times> nat \<times> bool) result"

function getent :: "advenv \<Rightarrow> char list \<Rightarrow> string \<Rightarrow> nat \<Rightarrow> entres"
  and tnchktc :: "advenv \<Rightarrow> char list \<Rightarrow> nat \<Rightarrow> entres" where
  "getent env bp nm hopcount =
     (case conffile env of
        None \<Rightarrow> Inr (-2, bp, hopcount, True)
      | Some cs \<Rightarrow>
          (case getent_search nm cs bp of
             Inl e \<Rightarrow> Inl e
           | Inr None \<Rightarrow> Inr (0, bp, hopcount, True)
           | Inr (Some tbuf) \<Rightarrow> tnchktc env tbuf hopcount))"
| "tnchktc env tbuf hopcount =
     bind_r (strlen tbuf 0) (\<lambda>n.
     bind_r (last_colon tbuf (int n - 3)) (\<lambda>k.
     let p = Suc k in
     bind_r (chr_at tbuf p) (\<lambda>c0.
     bind_r (if c0 \<noteq> CHR ''t'' then Inr True else bind_r (chr_at tbuf (Suc p)) (\<lambda>c1. Inr (c1 \<noteq> CHR ''c''))) (\<lambda>no_tc.
     if no_tc then Inr (1, tbuf, hopcount, True)
     else
     bind_r (str_at tbuf (p + 3)) (\<lambda>src.
     let tcname = takeWhile (\<lambda>c. c \<noteq> CHR '':'') (take 15 src) in
     if MAXHOP < Suc hopcount then Inr (0, tbuf, Suc hopcount, True)
     else
     bind_r (getent env (tcjunk env hopcount) tcname (Suc hopcount)) (\<lambda>(ret, tcbuf, hopcount', live).
     if ret \<noteq> 1 then Inr (0, tbuf, hopcount', False)
     else
     bind_r (first_colon tcbuf 0) (\<lambda>q.
     bind_r (str_at tcbuf q) (\<lambda>s.
     let s' = (if BUFSIZ < p + length s then take (BUFSIZ - p) s else s)
     in bind_r (strlcpy_at tbuf p s' (framedist env hopcount + p)) (\<lambda>tbuf'.
          Inr (1, tbuf', hopcount', True))))))))))"
  by pat_completeness auto
termination
  by (relation "measure (\<lambda>x. case x of Inl (env, b, nm, hop) \<Rightarrow> 2 * (Suc MAXHOP - hop) + 1
        | Inr (env, b, hop) \<Rightarrow> 2 * (Suc MAXHOP - hop))") auto

declare getent.simps [simp del] tnchktc.simps [simp del]

definition tgetent :: "advenv \<Rightarrow> char list \<Rightarrow> string \<Rightarrow> nat \<Rightarrow> entres" where
  "tgetent env bp nm hopcount = getent env bp nm hopcount"

end
