(* ===== verification/Rrenum.thy ===== *)
theory Rrenum
  imports Daemon
begin

text \<open>
  Router renumbering commands (\<open>src/rtadvd.tproj/rrenum.c\<close>). A command is the bytes of its
  ICMPv6 message: a header of 16 bytes and prefix control operations (PCOs), each with its
  length in units of eight bytes in its second byte. The requests the code makes of the
  kernel with \<open>ioctl\<close> are collected in \<open>renumreqs\<close>; whether a request succeeds is only logged.

  The lemmas show that a command made of well-formed PCOs is carried out operation by
  operation, that an operation whose length is zero is repeated for ever, and how sequence
  numbers and segments are accepted.
\<close>

abbreviation (input) ICMP6_RR_FLAGS_TEST :: byte where "ICMP6_RR_FLAGS_TEST \<equiv> 0x80"
abbreviation (input) ICMP6_RR_FLAGS_REQRESULT :: byte where "ICMP6_RR_FLAGS_REQRESULT \<equiv> 0x40"
abbreviation (input) ICMP6_RR_FLAGS_FORCEAPPLY :: byte where "ICMP6_RR_FLAGS_FORCEAPPLY \<equiv> 0x20"
abbreviation (input) RPM_PCO_ADD :: byte where "RPM_PCO_ADD \<equiv> 1"
abbreviation (input) RPM_PCO_CHANGE :: byte where "RPM_PCO_CHANGE \<equiv> 2"
abbreviation (input) RPM_PCO_SETGLOBAL :: byte where "RPM_PCO_SETGLOBAL \<equiv> 3"
abbreviation (input) ICMP6_RR_PCOUSE_RAFLAGS_ONLINK :: byte where "ICMP6_RR_PCOUSE_RAFLAGS_ONLINK \<equiv> 0x80"
abbreviation (input) ICMP6_RR_PCOUSE_RAFLAGS_AUTO :: byte where "ICMP6_RR_PCOUSE_RAFLAGS_AUTO \<equiv> 0x40"
abbreviation (input) ICMP6_RR_PCOUSE_FLAGS_DECRVLTIME :: u32 where "ICMP6_RR_PCOUSE_FLAGS_DECRVLTIME \<equiv> 0x80"
abbreviation (input) ICMP6_RR_PCOUSE_FLAGS_DECRPLTIME :: u32 where "ICMP6_RR_PCOUSE_FLAGS_DECRPLTIME \<equiv> 0x40"
abbreviation (input) ICMP6_ROUTER_RENUMBERING_COMMAND :: byte where "ICMP6_ROUTER_RENUMBERING_COMMAND \<equiv> 0"

section \<open>Segment numbers\<close>

text \<open>\<open>1 << (segnum & 31)\<close> is an \<open>int\<close> that is widened, with its sign, to \<open>u_long\<close>.\<close>

definition segnum_bit :: "byte \<Rightarrow> 64 word" where
  "segnum_bit segnum = scast (push_bit (unat (segnum AND 31)) 1 :: u32)"

definition RR_ISSET_SEGNUM :: "64 word list \<Rightarrow> byte \<Rightarrow> bool" where
  "RR_ISSET_SEGNUM segnum_bits segnum \<longleftrightarrow>
     segnum_bits ! unat (drop_bit 5 segnum) AND segnum_bit segnum \<noteq> 0"

definition RR_SET_SEGNUM :: "64 word list \<Rightarrow> byte \<Rightarrow> 64 word list" where
  "RR_SET_SEGNUM segnum_bits segnum =
     (let i = unat (drop_bit 5 segnum) in segnum_bits[i := segnum_bits ! i OR segnum_bit segnum])"

section \<open>One prefix control operation\<close>

text \<open>
  \<open>rpm\<close> is the rest of the packet from the operation on, \<open>len\<close> its length. \<open>rpus len rpm\<close> are
  the use-prefix parts the loops visit, \<open>rpu < rpulim\<close>.
\<close>

function rpus_from :: "nat \<Rightarrow> nat \<Rightarrow> byte list \<Rightarrow> byte list list result" where
  "rpus_from pos len rpm =
     (if \<not> pos < len then Inr []
      else bind_r (bytes_at rpm pos 32) (\<lambda>rpu.
           bind_r (rpus_from (pos + 32) len rpm) (\<lambda>rest. Inr (rpu # rest))))"
  by pat_completeness auto
termination
  by (relation "measure (\<lambda>(pos, len, rpm). len - pos)") auto

declare rpus_from.simps [simp del]

definition rpus :: "nat \<Rightarrow> byte list \<Rightarrow> byte list list result" where
  "rpus len rpm = rpus_from 24 len rpm"

definition rpm_code :: "byte list \<Rightarrow> byte" where "rpm_code rpm = rpm ! 0"
definition rpm_len :: "byte list \<Rightarrow> byte" where "rpm_len rpm = rpm ! 1"
definition rpm_matchlen :: "byte list \<Rightarrow> byte" where "rpm_matchlen rpm = rpm ! 3"
definition rpm_prefix :: "byte list \<Rightarrow> in6_addr" where "rpm_prefix rpm = take 16 (drop 8 rpm)"

definition rr_pco_check :: "nat \<Rightarrow> byte list \<Rightarrow> bool result" where
  "rr_pco_check len rpm =
     (if uint (rpm_len rpm) - 3 < 0 \<or> (uint (rpm_len rpm) - 3) AND 0x3 \<noteq> 0 then Inr False
      else if rpm_code rpm \<noteq> RPM_PCO_ADD \<and> rpm_code rpm \<noteq> RPM_PCO_CHANGE \<and> rpm_code rpm \<noteq> RPM_PCO_SETGLOBAL then Inr False
      else if 128 < rpm_matchlen rpm then Inr False
      else bind_r (rpus len rpm) (\<lambda>us.
        Inr (\<forall>rpu \<in> set us. uint (rpu ! 0) + uint (rpu ! 1) \<le> 128)))"

text \<open>The parameters a change operation gives the prefixes it matches.\<close>

fun change_prefixes :: "byte list \<Rightarrow> byte list \<Rightarrow> in6_rrenumreq \<Rightarrow> prefix list \<Rightarrow> rtadvd \<Rightarrow> prefix list \<times> rtadvd" where
  "change_prefixes rpm rpu irr [] s = ([], s)"
| "change_prefixes rpm rpu irr (pp # ps) s =
     (let (pp', s') =
        (if prefix_match (pfx_prefix pp) (pfx_prefixlen pp) (rpm_prefix rpm) (unat (rpm_matchlen rpm)) then
           let vl = rd32 (drop 4 rpu); pl = rd32 (drop 8 rpu);
               (vexp, s1) = (if irr_rrf_decrvalid irr
                             then let (now, s1) = gettimeofday s in (tv_sec now + uint vl, s1) else (0, s));
               (pexp, s2) = (if irr_rrf_decrprefd irr
                             then let (now, s2) = gettimeofday s1 in (tv_sec now + uint pl, s2) else (0, s1))
           in (pp\<lparr>validlifetime := vl, preflifetime := pl, vltimeexpire := vexp, pltimeexpire := pexp\<rparr>, s2)
         else (pp, s));
          (ps', s'') = change_prefixes rpm rpu irr ps s'
      in (pp' # ps', s''))"

text \<open>The fields of the request one use-prefix part fills in.\<close>

definition irr_use :: "byte list \<Rightarrow> in6_rrenumreq \<Rightarrow> in6_rrenumreq" where
  "irr_use rpu irr =
     irr\<lparr>irr_u_uselen := rpu ! 0, irr_u_keeplen := rpu ! 1,
       irr_raf_mask_onlink := (rpu ! 2 AND ICMP6_RR_PCOUSE_RAFLAGS_ONLINK \<noteq> 0),
       irr_raf_mask_auto := (rpu ! 2 AND ICMP6_RR_PCOUSE_RAFLAGS_AUTO \<noteq> 0),
       irr_vltime := rd32 (drop 4 rpu), irr_pltime := rd32 (drop 8 rpu),
       irr_raf_onlink := (rpu ! 3 AND ICMP6_RR_PCOUSE_RAFLAGS_ONLINK \<noteq> 0),
       irr_raf_auto := (rpu ! 3 AND ICMP6_RR_PCOUSE_RAFLAGS_AUTO \<noteq> 0),
       irr_rrf_decrvalid := (le32 (drop 12 rpu) AND ICMP6_RR_PCOUSE_FLAGS_DECRVLTIME \<noteq> 0),
       irr_rrf_decrprefd := (le32 (drop 12 rpu) AND ICMP6_RR_PCOUSE_FLAGS_DECRPLTIME \<noteq> 0),
       irr_useprefix := Some (take 16 (drop 16 rpu))\<rparr>"

text \<open>The change of the daemon's own prefixes, for an advertising interface.\<close>

definition change_rainfo :: "byte list \<Rightarrow> byte list \<Rightarrow> in6_rrenumreq \<Rightarrow> rtadvd \<Rightarrow> rtadvd" where
  "change_rainfo rpm rpu irr s =
     (case if_indextorainfo (irr_ifindex irr) s of
        None \<Rightarrow> s
      | Some rai \<Rightarrow>
          let (ps, s2) = change_prefixes rpm rpu irr (prefix_list rai) s
          in rai_upd (rai_id rai) (\<lambda>r. r\<lparr>prefix_list := ps\<rparr>) s2)"

definition use_prefix :: "byte list \<Rightarrow> byte list \<Rightarrow> in6_rrenumreq \<times> rtadvd \<Rightarrow> in6_rrenumreq \<times> rtadvd" where
  "use_prefix rpm rpu = (\<lambda>(irr, s).
     let irr' = irr_use rpu irr;
         s1 = s\<lparr>renumreqs := renumreqs s @ [irr']\<rparr>
     in (irr', if rpm_code rpm = RPM_PCO_CHANGE \<and> rpm_prefix rpm = take 16 (drop 16 rpu) \<and>
                  rpm_matchlen rpm = rpu ! 0 \<and> rpu ! 0 = rpu ! 1
               then change_rainfo rpm rpu irr' s1 else s1))"

definition do_use_prefix :: "nat \<Rightarrow> byte list \<Rightarrow> in6_rrenumreq \<Rightarrow> rtadvd \<Rightarrow> (in6_rrenumreq \<times> rtadvd) result" where
  "do_use_prefix len rpm irr s =
     (if len = 24 then
        if rpm_code rpm = RPM_PCO_ADD then Inr (irr, s)
        else let irr' = irr\<lparr>irr_u_uselen := 0, irr_u_keeplen := 0, irr_raf_mask_onlink := False,
                   irr_raf_mask_auto := False, irr_vltime := 0, irr_pltime := 0, irr_raf_onlink := False,
                   irr_raf_auto := False, irr_rrf_decrvalid := False, irr_rrf_decrprefd := False,
                   irr_useprefix := None\<rparr>
             in Inr (irr', s\<lparr>renumreqs := renumreqs s @ [irr']\<rparr>)
      else bind_r (rpus len rpm) (\<lambda>us. Inr (fold (use_prefix rpm) us (irr, s))))"

text \<open>
  The loop over the interface indices 1, 2, ... that \<open>if_indextoname\<close> knows; interface
  indices are 16 bits wide, so 65536 is enough fuel.
\<close>

fun pco_loop :: "nat \<Rightarrow> byte \<Rightarrow> nat \<Rightarrow> byte list \<Rightarrow> int \<Rightarrow> in6_rrenumreq \<Rightarrow> rtadvd \<Rightarrow> rtadvd result" where
  "pco_loop 0 fl len rpm i irr s = Inl Diverge"
| "pco_loop (Suc fuel) fl len rpm i irr s =
     (if \<not> indextoname s i then Inr s
      else case get_interface_entry i s of
             None \<Rightarrow> pco_loop fuel fl len rpm (i + 1) irr s
           | Some ifm \<Rightarrow>
               if fl AND ICMP6_RR_FLAGS_FORCEAPPLY = 0 \<and> ifm_flags ifm AND IFF_UP = 0
               then pco_loop fuel fl len rpm (i + 1) irr s
               else bind_r (do_use_prefix len rpm (irr\<lparr>irr_ifindex := i\<rparr>) s) (\<lambda>(irr', s').
                      pco_loop fuel fl len rpm (i + 1) irr' s'))"

text \<open>
  The answer is whether the operation succeeded. The loop ends when \<open>if_indextoname\<close> fails,
  which it does with \<open>ENXIO\<close> for an index without interface.
\<close>

definition do_pco :: "byte \<Rightarrow> nat \<Rightarrow> byte list \<Rightarrow> rtadvd \<Rightarrow> (bool \<times> rtadvd) result" where
  "do_pco rr_flags len rpm s =
     bind_r (rr_pco_check len rpm) (\<lambda>ok.
       if \<not> ok then Inr (False, s)
       else let irr = \<lparr>irr_code = unat (rpm_code rpm), irr_ifindex = 0, irr_m_len = rpm_matchlen rpm,
                  irr_m_minlen = rpm ! 4, irr_m_maxlen = rpm ! 5, irr_matchprefix = rpm_prefix rpm,
                  irr_u_uselen = 0, irr_u_keeplen = 0, irr_raf_mask_onlink = False,
                  irr_raf_mask_auto = False, irr_vltime = 0, irr_pltime = 0, irr_raf_onlink = False,
                  irr_raf_auto = False, irr_rrf_decrvalid = False, irr_rrf_decrprefd = False,
                  irr_useprefix = None\<rparr>
            in bind_r (pco_loop 65536 rr_flags len rpm 1 irr s) (\<lambda>s'. Inr (True, s')))"

section \<open>The command\<close>

text \<open>\<open>cp\<close> is the rest of the packet, \<open>len\<close> its length; the answer is whether all of it was read.\<close>

fun do_rr_loop :: "nat \<Rightarrow> byte \<Rightarrow> byte list \<Rightarrow> rtadvd \<Rightarrow> (bool \<times> rtadvd) result" where
  "do_rr_loop 0 fl cp s = (if cp = [] then Inr (True, s) else Inl Diverge)"
| "do_rr_loop (Suc fuel) fl cp s =
     (if cp = [] then Inr (True, s)
      else if length cp < 24 then Inr (False, s)
      else let rpmlen = 8 * unat (rpm_len cp)
           in if length cp < rpmlen then Inr (False, s)
              else bind_r (do_pco fl rpmlen cp s) (\<lambda>(ok, s').
                     do_rr_loop fuel fl (drop rpmlen cp) s'))"

definition do_rr :: "byte list \<Rightarrow> rtadvd \<Rightarrow> (bool \<times> rtadvd) result" where
  "do_rr rr s =
     bind_r (init_iflist (kiflist s (kiflist_calls s)) (ifilist s)) (\<lambda>ifl.
       do_rr_loop (length rr) (rr ! 9) (drop 16 rr)
         (s\<lparr>ifilist := ifl, kiflist_calls := Suc (kiflist_calls s)\<rparr>))"

definition IN6_IS_ADDR_MC_LINKLOCAL :: "in6_addr \<Rightarrow> bool" where
  "IN6_IS_ADDR_MC_LINKLOCAL a \<longleftrightarrow> IN6_IS_ADDR_MULTICAST a \<and> a ! 1 AND 0xf0 \<noteq> 0x30 \<and> a ! 1 AND 0x0f = 0x02"

definition IN6_IS_ADDR_MC_SITELOCAL :: "in6_addr \<Rightarrow> bool" where
  "IN6_IS_ADDR_MC_SITELOCAL a \<longleftrightarrow> IN6_IS_ADDR_MULTICAST a \<and> a ! 1 AND 0x0f = 0x05"

text \<open>The sequence number is compared as it lies in the packet, without \<open>ntohl\<close>.\<close>

definition rr_seqnum :: "byte list \<Rightarrow> 64 word" where
  "rr_seqnum rr = ucast (le32 (drop 4 rr))"

definition rr_command_check :: "byte list \<Rightarrow> in6_addr \<Rightarrow> rtadvd \<Rightarrow> bool \<times> rtadvd" where
  "rr_command_check rr dst s =
     (if length rr < 16 + 24 then (False, s)
      else if IN6_IS_ADDR_MULTICAST dst \<and> \<not> IN6_IS_ADDR_MC_LINKLOCAL dst \<and> \<not> IN6_IS_ADDR_MC_SITELOCAL dst then (False, s)
      else if rro_seqnum (rro s) > rr_seqnum rr then (False, s)
      else if rro_seqnum (rro s) = rr_seqnum rr \<and> rr ! 9 AND ICMP6_RR_FLAGS_TEST = 0 \<and>
              RR_ISSET_SEGNUM (rro_segnum_bits (rro s)) (rr ! 8) then (True, s)
      else (True, s\<lparr>rro := \<lparr>rro_seqnum = rr_seqnum rr,
              rro_segnum_bits = (if rro_seqnum (rro s) \<noteq> rr_seqnum rr then replicate 8 0
                                 else rro_segnum_bits (rro s))\<rparr>\<rparr>))"

definition rr_command_input :: "byte list \<Rightarrow> in6_addr \<Rightarrow> rtadvd \<Rightarrow> rtadvd result" where
  "rr_command_input rr dst s =
     (let (ok, s1) = rr_command_check rr dst s
      in if \<not> ok then Inr s1
         else if rr ! 9 AND (ICMP6_RR_FLAGS_TEST OR ICMP6_RR_FLAGS_REQRESULT) = ICMP6_RR_FLAGS_TEST then Inr s1
         else bind_r (do_rr rr s1) (\<lambda>(done, s2).
           if \<not> done then Inr s2
           else Inr (s2\<lparr>rro := (rro s2)\<lparr>rro_segnum_bits := RR_SET_SEGNUM (rro_segnum_bits (rro s2)) (rr ! 8)\<rparr>\<rparr>)))"

definition in6a_site_allrouters :: in6_addr where
  "in6a_site_allrouters = [0xff, 0x05] @ replicate 13 0 @ [0x02]"

definition rr_input :: "byte list \<Rightarrow> in6_addr \<Rightarrow> rtadvd \<Rightarrow> rtadvd result" where
  "rr_input rr dst s =
     (if length rr < 16 then Inr s
      else if IN6_IS_ADDR_MULTICAST dst \<and> in6a_site_allrouters \<noteq> dst then Inr s
      else if rr ! 1 = ICMP6_ROUTER_RENUMBERING_COMMAND then rr_command_input rr dst s
      else Inr s)"

section \<open>Operation by operation\<close>

definition pco_len :: "byte list \<Rightarrow> nat" where
  "pco_len bs = 8 * unat (bs ! 1)"

interpretation pcos: tlv_format 24 pco_len
  by unfold_locales (auto simp: pco_len_def nth_append)

text \<open>What a command means: its operations, one after the other.\<close>

fun do_pcos :: "byte \<Rightarrow> byte list list \<Rightarrow> rtadvd \<Rightarrow> (bool \<times> rtadvd) result" where
  "do_pcos fl [] s = Inr (True, s)"
| "do_pcos fl (m # ms) s = bind_r (do_pco fl (length m) m s) (\<lambda>(ok, s'). do_pcos fl ms s')"

lemma rpm_append:
  assumes "24 \<le> length m"
  shows "rpm_code (m @ c) = rpm_code m" "rpm_len (m @ c) = rpm_len m" "rpm_matchlen (m @ c) = rpm_matchlen m"
    "rpm_prefix (m @ c) = rpm_prefix m" "(m @ c) ! 4 = m ! 4" "(m @ c) ! 5 = m ! 5"
  using assms by (auto simp: rpm_code_def rpm_len_def rpm_matchlen_def rpm_prefix_def nth_append)

lemma rpus_from_append: "le_r (rpus_from pos len m) (rpus_from pos len (m @ c))"
proof (induction pos len m rule: rpus_from.induct)
  case (1 pos len m)
  then show ?case
    unfolding rpus_from.simps [of pos len m] rpus_from.simps [of pos len "m @ c"]
    by (intro le_r_intros) auto
qed

lemma rpus_append [le_r_intros]: "le_r (rpus len m) (rpus len (m @ c))"
  unfolding rpus_def by (rule rpus_from_append)

lemma change_prefixes_append:
  "24 \<le> length m \<Longrightarrow> change_prefixes (m @ c) rpu irr ps s = change_prefixes m rpu irr ps s"
  by (induction ps arbitrary: s) (simp_all add: rpm_append Let_def)

lemma use_prefix_append: "24 \<le> length m \<Longrightarrow> use_prefix (m @ c) = use_prefix m"
  by (rule ext) (simp only: use_prefix_def change_rainfo_def rpm_append change_prefixes_append)

lemma do_use_prefix_append [le_r_intros]:
  "24 \<le> length m \<Longrightarrow> le_r (do_use_prefix len m irr s) (do_use_prefix len (m @ c) irr s)"
  unfolding do_use_prefix_def by (simp add: rpm_append use_prefix_append) (intro le_r_intros impI)

lemma pco_loop_append [le_r_intros]:
  "24 \<le> length m \<Longrightarrow> le_r (pco_loop fuel fl len m i irr s) (pco_loop fuel fl len (m @ c) i irr s)"
proof (induction fuel arbitrary: i irr s)
  case (Suc fuel)
  then show ?case
    by (auto split: option.splits prod.splits intro!: le_r_intros)
qed simp

lemma rr_pco_check_append [le_r_intros]:
  "24 \<le> length m \<Longrightarrow> le_r (rr_pco_check len m) (rr_pco_check len (m @ c))"
  unfolding rr_pco_check_def by (simp add: rpm_append) (intro le_r_intros impI conjI)

lemma do_pco_append [le_r_intros]:
  "24 \<le> length m \<Longrightarrow> le_r (do_pco fl len m s) (do_pco fl len (m @ c) s)"
  unfolding do_pco_def Let_def rpm_append by (intro le_r_intros) (auto simp: rpm_append intro!: le_r_intros)

lemma do_rr_loop_concat:
  assumes "\<forall>m \<in> set ms. pcos.msg_ok m" "length ms \<le> fuel"
  shows "le_r (do_pcos fl ms s) (do_rr_loop fuel fl (concat ms) s)"
  using assms
proof (induction ms arbitrary: fuel s)
  case Nil
  then show ?case by (cases fuel) simp_all
next
  case (Cons m ms)
  then obtain f where f: "fuel = Suc f" "length ms \<le> f" by (cases fuel) auto
  have "24 \<le> length m" "pco_len m = length m"
    using Cons.prems(1) by (auto simp: pcos.msg_ok_def)
  then have m: "24 \<le> length m" "8 * unat (rpm_len m) = length m"
    by (simp_all add: pco_len_def rpm_len_def)
  have "m \<noteq> []" using m(1) by auto
  then have eq: "do_rr_loop fuel fl (m @ concat ms) s =
      bind_r (do_pco fl (length m) (m @ concat ms) s) (\<lambda>(ok, s'). do_rr_loop f fl (concat ms) s')"
    using m by (simp add: f(1) rpm_append Let_def)
  show ?case
    unfolding concat.simps do_pcos.simps eq
    by (rule le_r_bind [OF do_pco_append [OF m(1)]]) (use Cons f(2) in auto)
qed

lemma do_rr_loop_zero:
  assumes "24 \<le> length cp" "rpm_len cp = 0"
  shows "do_rr_loop fuel fl cp s = Inl Diverge"
proof (induction fuel)
  case 0
  then show ?case using assms(1) by auto
next
  case (Suc fuel)
  have "cp \<noteq> []" using assms(1) by auto
  moreover have "do_pco fl 0 cp s = Inr (False, s)"
    using assms(2) by (simp add: do_pco_def rr_pco_check_def)
  ultimately show ?case using assms Suc by simp
qed

section \<open>Segments and sequence numbers\<close>

lemma segnum_low: "unat (n AND 31 :: byte) < 32"
  using and_mask_less' [of 5 n] by (simp add: word_less_nat_alt mask_eq_exp_minus_1)

lemma bit_segnum_bit:
  "bit (segnum_bit n) j \<longleftrightarrow> j < 64 \<and> (j = unat (n AND 31) \<or> unat (n AND 31) = 31 \<and> 31 \<le> j)"
  using segnum_low [of n] by (auto simp: segnum_bit_def bit_simps min_def)

lemma segnum_bit_disjoint: "segnum_bit n AND segnum_bit m \<noteq> 0 \<longleftrightarrow> n AND 31 = m AND 31"
proof
  assume "n AND 31 = m AND 31"
  then have "bit (segnum_bit n AND segnum_bit m) (unat (n AND 31))"
    using segnum_low [of n] by (simp add: bit_and_iff bit_segnum_bit)
  then show "segnum_bit n AND segnum_bit m \<noteq> 0" by auto
next
  assume "segnum_bit n AND segnum_bit m \<noteq> 0"
  then obtain j where "bit (segnum_bit n AND segnum_bit m) j"
    using bit_word_eqI [of "segnum_bit n AND segnum_bit m" 0] by auto
  then have "bit (segnum_bit n) j" "bit (segnum_bit m) j" by (simp_all add: bit_and_iff)
  then have "unat (n AND 31) = unat (m AND 31)"
    using segnum_low [of n] segnum_low [of m] unfolding bit_segnum_bit by auto
  then show "n AND 31 = m AND 31" by (rule word_unat_eq_iff [THEN iffD2])
qed

lemma segnum_split: "(n::byte) = m \<longleftrightarrow> drop_bit 5 n = drop_bit 5 m \<and> n AND 31 = m AND 31"
proof -
  have "n = m" if h: "drop_bit 5 n = drop_bit 5 m" "n AND 31 = m AND 31"
  proof (rule bit_word_eqI)
    fix i assume "i < LENGTH(8)"
    have lo: "bit n i = bit m i" if "i < 5"
    proof -
      have "bit (n AND mask 5) i = bit (m AND mask 5) i" using h(2) by (simp add: mask_eq_exp_minus_1)
      with that \<open>i < LENGTH(8)\<close> show ?thesis by (simp add: bit_simps)
    qed
    have hi: "bit n i = bit m i" if "5 \<le> i"
    proof -
      have "bit (drop_bit 5 n) (i - 5) = bit (drop_bit 5 m) (i - 5)" using h(1) by simp
      with that show ?thesis by (simp add: bit_simps)
    qed
    from lo hi show "bit n i = bit m i" by (cases "i < 5") auto
  qed
  then show ?thesis by auto
qed

lemma RR_ISSET_SET:
  assumes "length bits = 8"
  shows "RR_ISSET_SEGNUM (RR_SET_SEGNUM bits n) m \<longleftrightarrow> m = n \<or> RR_ISSET_SEGNUM bits m"
proof -
  have lt: "unat (drop_bit 5 k) < 8" for k :: byte
    unfolding unat_drop_bit_eq using unsigned_less [of k, where ?'a = nat] by (simp add: drop_bit_eq_div)
  show ?thesis
  proof (cases "drop_bit 5 m = drop_bit 5 n")
    case True
    have "(w OR segnum_bit n) AND segnum_bit m \<noteq> 0 \<longleftrightarrow>
        w AND segnum_bit m \<noteq> 0 \<or> segnum_bit n AND segnum_bit m \<noteq> 0" for w
      by (simp add: and.commute [of _ "segnum_bit m"] bit.conj_disj_distrib or_eq_0_iff)
    with True lt [of n] assms show ?thesis
      using segnum_bit_disjoint [of n m] segnum_split [of m n]
      by (auto simp: RR_ISSET_SEGNUM_def RR_SET_SEGNUM_def Let_def)
  next
    case False
    then have "unat (drop_bit 5 n) \<noteq> unat (drop_bit 5 m)" by (metis word_unat_eq_iff)
    with False show ?thesis
      by (auto simp: RR_ISSET_SEGNUM_def RR_SET_SEGNUM_def Let_def)
  qed
qed

text \<open>A command that was carried out already passes the check, and is carried out again.\<close>

lemma rr_command_duplicate:
  assumes "40 \<le> length rr" "\<not> IN6_IS_ADDR_MULTICAST dst"
    "rro_seqnum (rro s) = rr_seqnum rr" "rr ! 9 AND ICMP6_RR_FLAGS_TEST = 0"
    "RR_ISSET_SEGNUM (rro_segnum_bits (rro s)) (rr ! 8)"
  shows "rr_command_check rr dst s = (True, s)"
  using assms by (simp add: rr_command_check_def)

section \<open>Renumbering keeps the invariant\<close>

definition pfx_key :: "prefix \<Rightarrow> nat \<times> nat option \<times> in6_addr \<times> nat" where
  "pfx_key pp = (pfx_id pp, pfx_timer pp, pfx_prefix pp, pfx_prefixlen pp)"

lemma change_prefixes_key:
  "map pfx_key (fst (change_prefixes rpm rpu irr ps s)) = map pfx_key ps"
  by (induction ps arbitrary: s) (simp_all add: Let_def case_prod_unfold pfx_key_def)

lemma change_prefixes_state: "\<exists>n. snd (change_prefixes rpm rpu irr ps s) = s\<lparr>gtod_calls := n\<rparr>"
proof (induction ps arbitrary: s)
  case Nil
  show ?case by (rule exI [of _ "gtod_calls s"]) simp
next
  case (Cons pp ps)
  have "\<exists>m. snd (change_prefixes rpm rpu irr ps (s\<lparr>gtod_calls := n\<rparr>)) = s\<lparr>gtod_calls := m\<rparr>" for n
    using Cons.IH [of "s\<lparr>gtod_calls := n\<rparr>"] by simp
  with Cons.IH [of s] show ?case
    by (simp add: Let_def case_prod_unfold gettimeofday_def)
qed

lemma key_mem:
  assumes "map pfx_key ps = map pfx_key qs" "p \<in> set ps"
  shows "\<exists>q \<in> set qs. pfx_key q = pfx_key p"
  using assms by (metis (no_types, lifting) image_iff list.set_map)

lemma dinv_prefix_params:
  assumes inv: "dinv s" and at: "rai_at r s = Some rai" and key: "map pfx_key ps = map pfx_key (prefix_list rai)"
  shows "dinv (rai_upd r (\<lambda>rai. rai\<lparr>prefix_list := ps\<rparr>) s)" (is "dinv ?s'")
proof -
  let ?rai' = "rai\<lparr>prefix_list := ps\<rparr>"
  obtain xs ys where xy: "ralist s = xs @ rai # ys" and xy': "ralist ?s' = xs @ ?rai' # ys"
    using rai_upd_split [OF inv at] by blast
  have ids: "map rai_id (xs @ ?rai' # ys) = map rai_id (ralist s)" unfolding xy by simp
  have idset: "rai_id ` set (xs @ ?rai' # ys) = rai_id ` set (ralist s)" using ids by (metis list.set_map)
  have ap: "map pfx_key (all_prefixes (xs @ ?rai' # ys)) = map pfx_key (all_prefixes (ralist s))"
    unfolding xy using key by simp
  have "map pfx_id qs = map fst (map pfx_key qs)" for qs by (simp add: pfx_key_def comp_def)
  then have pid: "map pfx_id (all_prefixes (xs @ ?rai' # ys)) = map pfx_id (all_prefixes (ralist s))"
    using ap by metis
  have tok: "timer_ok (xs @ ?rai' # ys) t" if "timer_ok (ralist s) t" for t
  proof -
    have *: "\<exists>q \<in> set (all_prefixes (xs @ ?rai' # ys)). pfx_id q = pfx_id p \<and> pfx_timer q = pfx_timer p"
      if "p \<in> set (all_prefixes (ralist s))" for p
      using key_mem [OF ap [symmetric] that] unfolding pfx_key_def by (metis prod.inject)
    show ?thesis
    proof (cases "expire t")
      case (Ra_timeout r)
      with that show ?thesis unfolding timer_ok_def idset by simp
    next
      case (Prefix_timeout k)
      define A where "A = set (all_prefixes (ralist s))"
      define B where "B = set (all_prefixes (xs @ ?rai' # ys))"
      from that Prefix_timeout have t: "tv_time (tm t)" "update t = None"
        "\<exists>pp \<in> A. pfx_id pp = k \<and> pfx_timer pp = Some (tid t)"
        unfolding timer_ok_def A_def [symmetric] by simp_all
      then have "\<exists>q \<in> B. pfx_id q = k \<and> pfx_timer q = Some (tid t)"
        using * unfolding A_def [symmetric] B_def [symmetric] by fastforce
      with t Prefix_timeout show ?thesis unfolding timer_ok_def B_def [symmetric] by simp
    qed
  qed
  have ok: "rai_ok (timer_list s) rai" "rainfo_wf rai" using rai_ok_wf [OF inv at] by auto
  have p: "prefix_ok p \<and> armed (timer_list s) (pfx_timer p) (Prefix_timeout (pfx_id p))" if pin: "p \<in> set ps" for p
  proof -
    obtain q where "q \<in> set (prefix_list rai)" "pfx_key q = pfx_key p" using key_mem [OF key pin] by blast
    then show ?thesis using ok by (auto simp: pfx_key_def rai_ok_def rainfo_wf_def prefix_ok_def)
  qed
  have "rainfo_wf ?rai'"
    using ok(2) p map_eq_imp_length_eq [OF key] by (intro rainfo_wf_prefix_list) auto
  then have "rai_ok (timer_list s) ?rai'" using ok(1) p by (simp add: rai_ok_def)
  then have rok: "\<forall>x \<in> set (xs @ ?rai' # ys). rai_ok (timer_list s) x"
    using inv unfolding dinv_def xy by auto
  show ?thesis
    using inv rok tok unfolding dinv_def xy' ids pid rai_upd_simps by simp
qed

lemma change_rainfo_dinv:
  assumes d: "dinv s"
  shows "dinv (change_rainfo rpm rpu irr s)"
proof (cases "if_indextorainfo (irr_ifindex irr) s")
  case None
  then show ?thesis using assms by (simp add: change_rainfo_def)
next
  case (Some rai)
  obtain n where n: "snd (change_prefixes rpm rpu irr (prefix_list rai) s) = s\<lparr>gtod_calls := n\<rparr>"
    using change_prefixes_state by blast
  have "rai \<in> set (ralist s)" using Some by (auto simp: if_indextorainfo_def find_Some_iff)
  then have "rai_at (rai_id rai) (s\<lparr>gtod_calls := n\<rparr>) = Some rai"
    using rai_at_Some [OF d] by simp
  then show ?thesis
    using dinv_prefix_params [OF _ _ change_prefixes_key] d Some n
    by (simp add: change_rainfo_def case_prod_unfold Let_def)
qed

lemma use_prefix_dinv: "dinv s \<Longrightarrow> dinv (snd (use_prefix rpm rpu (irr, s)))"
  by (simp add: use_prefix_def Let_def change_rainfo_dinv)

lemma fold_use_prefix_dinv: "dinv s \<Longrightarrow> dinv (snd (fold (use_prefix rpm) us (irr, s)))"
proof (induction us arbitrary: irr s)
  case (Cons u us)
  then show ?case using use_prefix_dinv [OF Cons.prems, of rpm u irr]
    by (cases "use_prefix rpm u (irr, s)") simp
qed simp

lemma do_use_prefix_dinv:
  assumes "dinv s" "do_use_prefix len rpm irr s = Inr (irr', s')"
  shows "dinv s'"
proof (cases "len = 24")
  case True
  with assms show ?thesis by (auto simp: do_use_prefix_def Let_def split: if_splits)
next
  case False
  with assms(2) obtain us where "fold (use_prefix rpm) us (irr, s) = (irr', s')"
    by (auto simp: do_use_prefix_def res_simps)
  with fold_use_prefix_dinv [OF assms(1), of rpm us irr] show ?thesis by simp
qed

lemma pco_loop_dinv: "dinv s \<Longrightarrow> pco_loop fuel fl len rpm i irr s = Inr s' \<Longrightarrow> dinv s'"
proof (induction fuel arbitrary: i irr s)
  case (Suc fuel)
  show ?case
    using Suc.prems
    by (auto simp: res_simps split: if_splits option.splits intro: Suc.IH dest: do_use_prefix_dinv [OF Suc.prems(1)])
qed simp

lemma do_pco_dinv: "dinv s \<Longrightarrow> do_pco fl len rpm s = Inr (ok, s') \<Longrightarrow> dinv s'"
  by (auto simp: do_pco_def res_simps Let_def dest: pco_loop_dinv split: if_splits)

lemma do_rr_loop_dinv: "dinv s \<Longrightarrow> do_rr_loop fuel fl cp s = Inr (ok, s') \<Longrightarrow> dinv s'"
proof (induction fuel arbitrary: cp s)
  case (Suc fuel)
  show ?case
    using Suc.prems
    by (auto simp: res_simps Let_def split: if_splits intro: Suc.IH dest: do_pco_dinv [OF Suc.prems(1)])
qed (simp split: if_splits)

lemma rr_input_dinv:
  assumes "dinv s" "rr_input rr dst s = Inr s'"
  shows "dinv s'"
proof -
  have "dinv (snd (rr_command_check rr dst s))" using assms(1) by (simp add: rr_command_check_def)
  moreover have "dinv s2" if "do_rr rr s1 = Inr (ok, s2)" "dinv s1" for s1 s2 ok
  proof -
    from that(1) obtain ifl where "do_rr_loop (length rr) (rr ! 9) (drop 16 rr)
        (s1\<lparr>ifilist := ifl, kiflist_calls := Suc (kiflist_calls s1)\<rparr>) = Inr (ok, s2)"
      by (auto simp: do_rr_def bind_r_Inr_iff)
    from do_rr_loop_dinv [OF _ this] that(2) show ?thesis by simp
  qed
  ultimately have "dinv s2" if "rr_command_input rr dst s = Inr s2" for s2
    using that by (auto simp: rr_command_input_def res_simps Let_def case_prod_unfold split: if_splits)
  then show ?thesis using assms by (auto simp: rr_input_def split: if_splits)
qed

end
