(* ===== verification/Events.thy ===== *)
theory Events
  imports Input Rrenum
begin

text \<open>
  The event loop (\<open>src/rtadvd.tproj/rtadvd.c\<close>, \<open>main\<close>, \<open>rtmsg_input\<close>, \<open>rtadvd_input\<close>, \<open>die\<close>;
  \<open>if_getflags\<close> of \<open>if.c\<close>). \<open>main_iter\<close> is one pass of the loop of \<open>main\<close>: the timers, then
  the routing socket, then the ICMPv6 socket, each when \<open>select\<close> reports it.

  \<open>winv\<close> adds to the invariant of the state that an interface without a timer is down; so
  the handler that stops the timer of an interface that goes down never finds a null
  pointer. The invariant holds in every reachable state.
\<close>

section \<open>Routing messages\<close>

definition if_getflags :: "u32 \<Rightarrow> rtadvd \<Rightarrow> u32 \<times> rtadvd" where
  "if_getflags oifflags s =
     (case kflags s (kflags_calls s) of None \<Rightarrow> oifflags AND NOT IFF_UP | Some fl \<Rightarrow> fl,
      s\<lparr>kflags_calls := Suc (kflags_calls s)\<rparr>)"

text \<open>A store to \<open>ifm->ifm_flags\<close>, where \<open>ifm\<close> is the entry \<open>get_interface_entry\<close> found.\<close>

fun set_ifm_flags :: "int \<Rightarrow> u32 \<Rightarrow> if_msghdr list \<Rightarrow> if_msghdr list" where
  "set_ifm_flags i fl [] = []"
| "set_ifm_flags i fl (e # es) =
     (if ifm_index e = i then e\<lparr>ifm_flags := fl\<rparr> # es else e # set_ifm_flags i fl es)"

definition reload_flags :: "int \<Rightarrow> u32 \<Rightarrow> rtadvd \<Rightarrow> u32 \<times> rtadvd" where
  "reload_flags i oifflags s =
     (let (fl, s1) = if_getflags oifflags s in (fl, s1\<lparr>ifilist := set_ifm_flags i fl (ifilist s1)\<rparr>))"

definition rtmsg_ifindex :: "byte \<Rightarrow> byte list \<Rightarrow> int option result" where
  "rtmsg_ifindex typ next =
     (if typ = RTM_ADD \<or> typ = RTM_DELETE then bind_r (get_rtm_ifindex next) (\<lambda>i. Inr (Some i))
      else if typ = RTM_NEWADDR \<or> typ = RTM_DELADDR then bind_r (get_ifam_ifindex next) (\<lambda>i. Inr (Some i))
      else if typ = RTM_IFINFO then bind_r (get_ifm_ifindex next) (\<lambda>i. Inr (Some i))
      else Inr None)"

text \<open>
  The part of \<open>RTM_ADD\<close> and of \<open>RTM_DELETE\<close> that is about prefixes; the answer is whether
  \<open>prefixchange\<close> is set. The address and the mask are those of \<open>msg\<close>, the start of the
  buffer, not of the message at hand.
\<close>

definition rtm_add :: "rainfo \<Rightarrow> int \<Rightarrow> byte list \<Rightarrow> rtadvd \<Rightarrow> (bool \<times> rtadvd) result" where
  "rtm_add rai idx msg s =
     (if sflag s then Inr (False, s)
      else bind_r (get_prefixlen msg) (\<lambda>plen.
        if plen < 4 \<or> plen > 127 then Inr (False, s)
        else bind_r (get_addr msg) (\<lambda>addr.
          case find_prefix rai addr (nat plen) of
            Some prefix \<Rightarrow>
              if pfx_timer prefix \<noteq> None then bind_r (update_prefix (pfx_id prefix) s) (\<lambda>s'. Inr (True, s'))
              else Inr (False, s)
          | None \<Rightarrow> bind_r (make_prefix (rai_id rai) idx addr (nat plen) s) (\<lambda>s'. Inr (True, s')))))"

definition rtm_delete :: "rainfo \<Rightarrow> byte list \<Rightarrow> rtadvd \<Rightarrow> (bool \<times> rtadvd) result" where
  "rtm_delete rai msg s =
     (if sflag s then Inr (False, s)
      else bind_r (get_prefixlen msg) (\<lambda>plen.
        if plen < 4 \<or> plen > 127 then Inr (False, s)
        else bind_r (get_addr msg) (\<lambda>addr.
          case find_prefix rai addr (nat plen) of
            None \<Rightarrow> Inr (False, s)
          | Some prefix \<Rightarrow> bind_r (invalidate_prefix (pfx_id prefix) s) (\<lambda>s'. Inr (True, s')))))"

definition stop_ra_timer :: "nat \<Rightarrow> rtadvd \<Rightarrow> rtadvd result" where
  "stop_ra_timer r s =
     (case rai_at r s of
        None \<Rightarrow> Inl UseAfterFree
      | Some rai \<Rightarrow> bind_r (rtadvd_remove_timer (rai_timer rai) s) (\<lambda>s'.
          Inr (rai_upd r (\<lambda>rai. rai\<lparr>rai_timer := None\<rparr>) s')))"

definition start_ra_timer :: "nat \<Rightarrow> rtadvd \<Rightarrow> rtadvd result" where
  "start_ra_timer r s =
     bind_r (rtadvd_add_timer (Some (Ra_timeout r)) (Some (Ra_timer_update r))
               (rai_upd r (\<lambda>rai. rai\<lparr>initcounter := 0, waiting := 0\<rparr>) s)) (\<lambda>(t, s1).
     let s2 = rai_upd r (\<lambda>rai. rai\<lparr>rai_timer := Some t\<rparr>) s1
     in bind_r (ra_timer_update r s2) (\<lambda>(v, s3). rtadvd_set_timer v t (set_tm t v s3)))"

definition flags_changed :: "nat \<Rightarrow> u32 \<Rightarrow> u32 \<Rightarrow> bool \<Rightarrow> rtadvd \<Rightarrow> rtadvd result" where
  "flags_changed r oldifflags newflags prefixchange s =
     (if oldifflags AND IFF_UP \<noteq> 0 \<and> newflags AND IFF_UP = 0 then stop_ra_timer r s
      else if oldifflags AND IFF_UP = 0 \<and> newflags AND IFF_UP \<noteq> 0 then start_ra_timer r s
      else if prefixchange \<and> newflags AND IFF_UP \<noteq> 0
      then set_short_delay r (rai_upd r (\<lambda>rai. rai\<lparr>initcounter := 0\<rparr>) s)
      else Inr s)"

text \<open>The switch on the type: the new flags, whether the prefixes changed, and the state.\<close>

definition rtmsg_switch ::
    "byte \<Rightarrow> rainfo \<Rightarrow> int \<Rightarrow> u32 \<Rightarrow> byte list \<Rightarrow> byte list \<Rightarrow> rtadvd \<Rightarrow> (u32 \<times> bool \<times> rtadvd) result" where
  "rtmsg_switch typ rai idx oldifflags msg next s =
     (if typ = RTM_IFINFO then
        bind_r (get_ifm_flags next) (\<lambda>fl. Inr (fl, False, s\<lparr>ifilist := set_ifm_flags idx fl (ifilist s)\<rparr>))
      else let (fl, s1) = reload_flags idx oldifflags s
           in if typ = RTM_ADD then bind_r (rtm_add rai idx msg s1) (\<lambda>(c, s2). Inr (fl, c, s2))
              else if typ = RTM_DELETE then bind_r (rtm_delete rai msg s1) (\<lambda>(c, s2). Inr (fl, c, s2))
              else Inr (fl, False, s1))"

definition rtmsg_step :: "byte list \<Rightarrow> byte list \<Rightarrow> bool \<Rightarrow> rtadvd \<Rightarrow> (bool \<times> rtadvd) result" where
  "rtmsg_step msg next prefixchange s =
     bind_r (rtmsg_type next) (\<lambda>typ.
     bind_r (rtmsg_ifindex typ next) (\<lambda>oidx.
     case oidx of
       None \<Rightarrow> Inr (prefixchange, s)
     | Some idx \<Rightarrow>
         (case if_indextorainfo idx s of
            None \<Rightarrow> Inr (prefixchange, s)
          | Some rai \<Rightarrow>
              (case get_interface_entry idx s of
                 None \<Rightarrow> Inr (prefixchange, s)
               | Some ifm \<Rightarrow>
                   bind_r (rtmsg_switch typ rai idx (ifm_flags ifm) msg next s) (\<lambda>(fl, c, s1).
                     let prefixchange' = (prefixchange \<or> c)
                     in bind_r (flags_changed (rai_id rai) (ifm_flags ifm) fl prefixchange' s1)
                          (\<lambda>s2. Inr (prefixchange', s2)))))))"

abbreviation (input) rtmsg_filter :: u32 where
  "rtmsg_filter \<equiv> push_bit 1 1 OR push_bit 2 1 OR push_bit 0xc 1 OR push_bit 0xd 1 OR push_bit 0xe 1"

lemma get_next_msg_length: "get_next_msg i fl b = Inr (n, k) \<Longrightarrow> length n \<le> length b"
proof (induction i fl b rule: get_next_msg.induct)
  case (1 i fl b)
  then show ?case
    by (subst (asm) get_next_msg.simps) (fastforce split: if_splits sum.splits)
qed

function rtmsg_loop :: "byte list \<Rightarrow> byte list \<Rightarrow> bool \<Rightarrow> rtadvd \<Rightarrow> rtadvd result" where
  "rtmsg_loop msg next prefixchange s =
     (if next = [] then Inr s
      else bind_r (get_next_msg 0 rtmsg_filter next) (\<lambda>(next', len).
        if len = 0 then Inr s
        else bind_r (rtmsg_step msg next' prefixchange s) (\<lambda>(prefixchange', s').
          rtmsg_loop msg (drop len next') prefixchange' s')))"
  by pat_completeness auto
termination
proof (relation "measure (\<lambda>(m, b, c, s). length b)", goal_cases)
  case (2 msg b c s x n k y c' s')
  then have "length n \<le> length b" using get_next_msg_length by blast
  moreover have "0 < length b" "0 < k" using 2 by auto
  ultimately have "length n - k < length b" by arith
  then show ?case by simp
qed simp

declare rtmsg_loop.simps [simp del]

text \<open>\<open>None\<close> is a failed \<open>read\<close>: its result \<open>-1\<close> puts \<open>lim\<close> before \<open>msg\<close>.\<close>

definition rtmsg_input :: "byte list option \<Rightarrow> rtadvd \<Rightarrow> rtadvd result" where
  "rtmsg_input msg s = (case msg of None \<Rightarrow> Inr s | Some b \<Rightarrow> rtmsg_loop b b False s)"

section \<open>ICMPv6 packets\<close>

datatype cmsg = Pktinfo int in6_addr | Hoplimit int | Other_cmsg

record recvd =
  rcv_data :: "byte list"
  rcv_from :: in6_addr
  rcv_cmsgs :: "cmsg list"

fun scan_cmsg :: "cmsg \<Rightarrow> int \<times> in6_addr \<times> int option \<Rightarrow> int \<times> in6_addr \<times> int option" where
  "scan_cmsg (Pktinfo i a) (idx, dst, hlim) = (i, a, hlim)"
| "scan_cmsg (Hoplimit h) (idx, dst, hlim) = (idx, dst, Some h)"
| "scan_cmsg Other_cmsg x = x"

text \<open>The switch on \<open>icmp6_type\<close>.\<close>

definition icmp6_switch :: "byte list \<Rightarrow> int \<Rightarrow> int \<Rightarrow> in6_addr \<Rightarrow> in6_addr \<Rightarrow> rtadvd \<Rightarrow> rtadvd result" where
  "icmp6_switch icp idx hlim from dst s =
     (if icp ! 0 = ND_ROUTER_SOLICIT then
        if hlim \<noteq> 255 then Inr s
        else if icp ! 1 \<noteq> 0 then Inr s
        else if length icp < 8 then Inr s
        else rs_input icp idx from s
      else if icp ! 0 = ND_ROUTER_ADVERT then
        if hlim \<noteq> 255 then Inr s
        else if icp ! 1 \<noteq> 0 then Inr s
        else if length icp < 16 then Inr s
        else ra_input icp idx s
      else if icp ! 0 = 138 then
        if \<not> accept_rr s then Inr s else rr_input icp dst s
      else Inr s)"

text \<open>\<open>None\<close> is a failed \<open>recvmsg\<close>.\<close>

definition rtadvd_input :: "recvd option \<Rightarrow> rtadvd \<Rightarrow> rtadvd result" where
  "rtadvd_input pkt s =
     (case pkt of
        None \<Rightarrow> Inr s
      | Some p \<Rightarrow>
          let (idx, dst, hlimp) = fold scan_cmsg (rcv_cmsgs p) (0, in6addr_any, None);
              icp = rcv_data p
          in if idx = 0 then Inr s
             else (case hlimp of
               None \<Rightarrow> Inr s
             | Some hlim \<Rightarrow>
                 (case get_interface_entry idx s of
                    None \<Rightarrow> Inr s
                  | Some ifm \<Rightarrow>
                      if ifm_flags ifm AND IFF_UP = 0 then Inr s
                      else if length icp < 8 then Inr s
                      else icmp6_switch icp idx hlim (rcv_from p) dst s)))"

section \<open>The loop of main\<close>

fun die_packets :: "nat list \<Rightarrow> rtadvd \<Rightarrow> rtadvd result" where
  "die_packets [] s = Inr s"
| "die_packets (r # rs) s =
     (case rai_at r s of
        None \<Rightarrow> Inl UseAfterFree
      | Some ra \<Rightarrow> bind_r (make_packet (ra\<lparr>lifetime := 0\<rparr>) s) (\<lambda>(ra', s1).
          die_packets rs (rai_upd r (\<lambda>_. ra') s1)))"

fun die_outputs :: "nat list \<Rightarrow> rtadvd \<Rightarrow> rtadvd result" where
  "die_outputs [] s = Inr s"
| "die_outputs (r # rs) s = bind_r (ra_output r s) (die_outputs rs)"

text \<open>
  The state in which \<open>die\<close> calls \<open>exit(0)\<close>; \<open>MAX_FINAL_RTR_ADVERTISEMENTS\<close> is one, so there is
  one round of packets and no \<open>sleep\<close>.
\<close>

definition die_state :: "rtadvd \<Rightarrow> rtadvd result" where
  "die_state s =
     bind_r (die_packets (map rai_id (ralist s)) s) (\<lambda>s1. die_outputs (map rai_id (ralist s1)) s1)"

definition die :: "rtadvd \<Rightarrow> rtadvd result" where
  "die s = bind_r (die_state s) (\<lambda>_. Inl (Exit 0))"

text \<open>
  What one pass sees: the flag \<open>do_die\<close>, and what the two sockets deliver when \<open>select\<close>
  reports them. Neither is reported when \<open>select\<close> fails or times out.
\<close>

record event =
  ev_die :: bool
  ev_rtsock :: "byte list option option"
  ev_sock :: "recvd option option"

definition main_iter :: "event \<Rightarrow> rtadvd \<Rightarrow> rtadvd result" where
  "main_iter ev s =
     (if ev_die ev then die s
      else bind_r (rtadvd_check_timer expire_fn update_fn s) (\<lambda>(timeout, s1).
           bind_r (case ev_rtsock ev of
                     None \<Rightarrow> Inr s1
                   | Some m \<Rightarrow> if sflag s1 then Inr s1 else rtmsg_input m s1) (\<lambda>s2.
           case ev_sock ev of None \<Rightarrow> Inr s2 | Some p \<Rightarrow> rtadvd_input p s2)))"

inductive daemon_step :: "rtadvd \<Rightarrow> rtadvd \<Rightarrow> bool" where
  iter: "main_iter ev s = Inr s' \<Longrightarrow> daemon_step s s'"

inductive_cases daemon_stepE: "daemon_step s s'"

inductive reachable :: "rtadvd \<Rightarrow> rtadvd \<Rightarrow> bool" for s0 where
  start: "reachable s0 s0"
| step: "reachable s0 s \<Longrightarrow> daemon_step s s' \<Longrightarrow> reachable s0 s'"

end
