(* ===== verification/Config.thy ===== *)
theory Config
  imports Advcap Events
begin

text \<open>
  The configuration of an interface (\<open>src/rtadvd.tproj/config.c\<close>, \<open>getconfig\<close> and
  \<open>get_prefix\<close>; \<open>if_getmtu\<close> of \<open>if.c\<close>). \<open>getconfig\<close> is one function of the source and one
  definition per part of it here, in its order: each part reads its capabilities and sets
  its fields of the new \<open>struct rainfo\<close>. \<open>room\<close> is what is left of the buffer \<open>buf\<close> into
  which \<open>agetstr\<close> decodes strings.
\<close>

section \<open>What the configuration depends on\<close>

record ifaddrs =
  ifa_name :: string
  ifa_inet6 :: "in6_addr option"
  ifa_netmask :: "byte list"
  ifa_mtu :: "int option"

record cfgenv =
  advcap :: advenv
  tbuf0 :: "char list"
  forwarding_sysctl :: "int option"
  iflist_sysctl :: "byte list option"
  nametoindex :: "string \<Rightarrow> int"
  getifaddrs :: "ifaddrs list option"
  siocgifmtu :: "int option"
  inet_pton :: "string \<Rightarrow> in6_addr option"

text \<open>The entry that \<open>agetnum\<close>, \<open>agetflag\<close> and \<open>agetstr\<close> search: the static \<open>tbuf\<close> of \<open>advcap.c\<close>.\<close>

record entry =
  ent_buf :: "char list"
  ent_live :: bool

definition agetnum :: "entry \<Rightarrow> string \<Rightarrow> int result" where
  "agetnum e key = (if ent_live e then tgetnum (ent_buf e) key else Inl UseAfterFree)"

definition agetflag :: "entry \<Rightarrow> string \<Rightarrow> bool result" where
  "agetflag e key = (if ent_live e then tgetflag (ent_buf e) key else Inl UseAfterFree)"

definition agetstr :: "entry \<Rightarrow> string \<Rightarrow> nat \<Rightarrow> (string option \<times> nat) result" where
  "agetstr e key room = (if ent_live e then tgetstr (ent_buf e) key room else Inl UseAfterFree)"

definition MAYHAVE :: "entry \<Rightarrow> string \<Rightarrow> int \<Rightarrow> int result" where
  "MAYHAVE e cap def = bind_r (agetnum e cap) (\<lambda>v. Inr (if v < 0 then def else v))"

fun decimal :: "nat \<Rightarrow> string" where
  "decimal n = (if n < 10 then [char_of (48 + n)] else decimal (n div 10) @ [char_of (48 + n mod 10)])"

declare decimal.simps [simp del]

definition makeentry :: "nat \<Rightarrow> int \<Rightarrow> string \<Rightarrow> string" where
  "makeentry len i str = take (len - 1) (if i < 0 then str else str @ decimal (nat i))"

abbreviation (input) entbuf :: "int \<Rightarrow> string \<Rightarrow> string" where
  "entbuf \<equiv> makeentry 256"

text \<open>The value of an assignment of a \<open>long\<close> to an \<open>int\<close>.\<close>

definition s32 :: "int \<Rightarrow> int" where
  "s32 v = sint (word_of_int v :: 32 word)"

abbreviation (input) MAXPREFIX :: nat where "MAXPREFIX \<equiv> 100"
abbreviation (input) MAXROUTE :: nat where "MAXROUTE \<equiv> 100"
abbreviation (input) IPV6_MMTU :: int where "IPV6_MMTU \<equiv> 1280"

section \<open>The interface\<close>

definition if_getmtu :: "cfgenv \<Rightarrow> string \<Rightarrow> int" where
  "if_getmtu env name =
     (case getifaddrs env of
        None \<Rightarrow> 0
      | Some ifap \<Rightarrow>
          let mtu = (case find (\<lambda>ifa. ifa_name ifa = name) ifap of
                       None \<Rightarrow> 0
                     | Some ifa \<Rightarrow> (case ifa_mtu ifa of None \<Rightarrow> 0 | Some m \<Rightarrow> m))
          in if mtu = 0 then (case siocgifmtu env of None \<Rightarrow> 0 | Some m \<Rightarrow> m) else mtu)"

text \<open>The object \<open>ELM_MALLOC\<close> allocates: every field is zero, every list is empty.\<close>

definition rainfo_zero :: "nat \<Rightarrow> rainfo" where
  "rainfo_zero r = \<lparr>rai_id = r, rai_timer = None, initcounter = 0, lastsent = Timeval 0 0, waiting = 0,
     ifindex = 0, advlinkopt = False, sdl = None, ifname = [], phymtu = 0, lifetime = 0,
     maxinterval = 0, mininterval = 0, managedflg = 0, otherflg = 0, rtpref = 0, linkmtu = 0,
     reachabletime = 0, retranstimer = 0, hoplimit = 0, prefix_list = [], pfxs = 0, clockskew = 0,
     route_list = [], routes = 0, rdnss_list = [], rdnss_length = 0, rdnss_lifetime = 0,
     dnssl_list = [], dnssl_length = 0, dnssl_lifetime = 0, dnssl_option_length = 0,
     capport = None, capport_length = 0, capport_option_length = 0,
     pref64_specified = False, pref64_prefix_length = 0, pref64_lifetime_plc = 0,
     pref64_addr = replicate 16 0, ra_datalen = 0, ra_data = None, raoutput = 0, rainput = 0,
     rainconsistent = 0, rsinput = 0, soliciter = []\<rparr>"

definition config_iface :: "cfgenv \<Rightarrow> entry \<Rightarrow> string \<Rightarrow> rainfo \<Rightarrow> rainfo result" where
  "config_iface env e intface rai =
     bind_r (agetflag e ''nolladdr'') (\<lambda>nolladdr.
     bind_r (if \<not> nolladdr then
               bind_r (if_nametosdl (iflist_sysctl env) intface) (\<lambda>d.
               case d of
                 None \<Rightarrow> Inl (Exit 1)
               | Some d \<Rightarrow> Inr (rai\<lparr>advlinkopt := True, sdl := Some d, ifindex := sdl_index d\<rparr>))
             else Inr (rai\<lparr>advlinkopt := False, ifindex := nametoindex env intface\<rparr>)) (\<lambda>rai1.
     let mtu = if_getmtu env intface
     in Inr (rai1\<lparr>ifname := take 15 intface, phymtu := (if mtu = 0 then IPV6_MMTU else mtu)\<rparr>)))"

section \<open>Router variables\<close>

definition config_intervals :: "entry \<Rightarrow> rainfo \<Rightarrow> rainfo result" where
  "config_intervals e rai =
     bind_r (MAYHAVE e ''maxinterval'' 600) (\<lambda>maxi.
     if maxi < 4 \<or> maxi > 1800 then Inl (Exit 1)
     else bind_r (MAYHAVE e ''mininterval'' (maxi div 3)) (\<lambda>mini.
     if mini < 3 \<or> mini > (maxi * 3) div 4 then Inl (Exit 1)
     else Inr (rai\<lparr>maxinterval := word_of_int maxi, mininterval := word_of_int mini\<rparr>)))"

definition raflags_of :: "string \<Rightarrow> int result" where
  "raflags_of flagstr =
     (let v0 = (if CHR ''m'' \<in> set flagstr then 0x80 else 0);
          v1 = v0 OR (if CHR ''o'' \<in> set flagstr then 0x40 else 0);
          v2 = v1 OR (if CHR ''h'' \<in> set flagstr then 0x08 else 0)
      in if CHR ''l'' \<in> set flagstr then (if v2 AND 0x08 \<noteq> 0 then Inl (Exit 1) else Inr (v2 OR 0x18))
         else Inr v2)"

definition config_flags :: "entry \<Rightarrow> rainfo \<Rightarrow> nat \<Rightarrow> (rainfo \<times> nat) result" where
  "config_flags e rai room =
     bind_r (MAYHAVE e ''chlim'' 64) (\<lambda>chlim.
     bind_r (agetstr e ''raflags'' room) (\<lambda>(flagstr, room').
     bind_r (case flagstr of Some f \<Rightarrow> raflags_of f | None \<Rightarrow> MAYHAVE e ''raflags'' 0) (\<lambda>val.
     if val AND 0x18 = 0x10 then Inl (Exit 1)
     else Inr (rai\<lparr>hoplimit := word_of_int (chlim AND 0xff), managedflg := val AND 0x80,
                   otherflg := val AND 0x40, rtpref := val AND 0x18\<rparr>, room'))))"

definition config_lifetimes :: "entry \<Rightarrow> int \<Rightarrow> rainfo \<Rightarrow> rainfo result" where
  "config_lifetimes e forwarding rai =
     bind_r (MAYHAVE e ''rltime'' (uint (maxinterval rai * 3))) (\<lambda>rltime.
     if rltime \<noteq> 0 \<and> (rltime < uint (maxinterval rai) \<or> rltime > 9000) then Inl (Exit 1)
     else if rltime \<noteq> 0 \<and> forwarding = 0 then Inl (Exit 1)
     else bind_r (MAYHAVE e ''rtime'' 0) (\<lambda>rtime.
     if rtime < 0 \<or> rtime > 3600000 then Inl (Exit 1)
     else bind_r (MAYHAVE e ''retrans'' 0) (\<lambda>retrans.
     if retrans < 0 \<or> retrans > 0xffffffff then Inl (Exit 1)
     else bind_r (agetnum e ''hapref'') (\<lambda>hapref.
     bind_r (if hapref \<noteq> -1 then Inr True else bind_r (agetnum e ''hatime'') (\<lambda>hatime. Inr (hatime \<noteq> -1))) (\<lambda>ha.
     if ha then Inl (Exit 1)
     else bind_r (MAYHAVE e ''clockskew'' 0) (\<lambda>skew.
     Inr (rai\<lparr>lifetime := word_of_int (rltime AND 0xffff), reachabletime := word_of_int rtime,
             retranstimer := word_of_int retrans, clockskew := skew\<rparr>)))))))"

section \<open>Prefixes\<close>

text \<open>The indices of a loop \<open>for (i = -1; i < n; i++)\<close>.\<close>

definition up_to :: "nat \<Rightarrow> int list" where
  "up_to n = -1 # map int [0..<n]"

definition range32 :: "int \<Rightarrow> u32 result" where
  "range32 val64 = (if val64 < 0 \<or> val64 > 0xffffffff then Inl (Exit 1) else Inr (word_of_int val64))"

definition pinfoflags_of :: "string \<Rightarrow> int" where
  "pinfoflags_of flagstr =
     (if CHR ''l'' \<in> set flagstr then 0x80 else 0) OR (if CHR ''a'' \<in> set flagstr then 0x40 else 0)"

text \<open>The expiration times: the clock is read only when the flag is given.\<close>

definition config_decr :: "entry \<Rightarrow> string \<Rightarrow> u32 \<Rightarrow> rtadvd \<Rightarrow> (int \<times> rtadvd) result" where
  "config_decr e key life s =
     bind_r (agetflag e key) (\<lambda>decr.
     if decr then let (now, s1) = gettimeofday s in Inr (tv_sec now + uint life, s1) else Inr (0, s))"

definition config_prefix ::
    "cfgenv \<Rightarrow> entry \<Rightarrow> int \<Rightarrow> rainfo \<times> nat \<times> rtadvd \<Rightarrow> (rainfo \<times> nat \<times> rtadvd) result" where
  "config_prefix env e i = (\<lambda>(rai, room, s).
     bind_r (agetstr e (entbuf i ''addr'') room) (\<lambda>(addr, room1).
     case addr of
       None \<Rightarrow> Inr (rai, room1, s)
     | Some addr \<Rightarrow>
         (case inet_pton env addr of
            None \<Rightarrow> Inl (Exit 1)
          | Some a \<Rightarrow>
              if IN6_IS_ADDR_MULTICAST a then Inl (Exit 1)
              else bind_r (MAYHAVE e (entbuf i ''prefixlen'') 64) (\<lambda>plen.
              if plen < 0 \<or> plen > 128 then Inl (Exit 1)
              else bind_r (agetstr e (entbuf i ''pinfoflags'') room1) (\<lambda>(flagstr, room2).
              bind_r (case flagstr of
                        Some f \<Rightarrow> Inr (pinfoflags_of f)
                      | None \<Rightarrow> MAYHAVE e (entbuf i ''pinfoflags'') (0x80 OR 0x40)) (\<lambda>flags.
              bind_r (bind_r (MAYHAVE e (entbuf i ''vltime'') (uint DEF_ADVVALIDLIFETIME)) range32) (\<lambda>vltime.
              bind_r (config_decr e (entbuf i ''vltimedecr'') vltime s) (\<lambda>(vexpire, s1).
              bind_r (bind_r (MAYHAVE e (entbuf i ''pltime'') (uint DEF_ADVPREFERREDLIFETIME)) range32) (\<lambda>pltime.
              bind_r (config_decr e (entbuf i ''pltimedecr'') pltime s1) (\<lambda>(pexpire, s2).
              let pfx = \<lparr>pfx_id = next_addr s2, pfx_timer = None, validlifetime = vltime, vltimeexpire = vexpire,
                    preflifetime = pltime, pltimeexpire = pexpire, onlinkflg = word_of_int (flags AND 0x80),
                    autoconfflg = word_of_int (flags AND 0x40), pfx_prefixlen = nat plen,
                    origin = PREFIX_FROM_CONFIG, pfx_prefix = a\<rparr>
              in Inr (rai\<lparr>prefix_list := pfx # prefix_list rai, pfxs := pfxs rai + 1\<rparr>, room2,
                      s2\<lparr>next_addr := Suc (next_addr s2)\<rparr>)))))))))))"

text \<open>\<open>get_prefix\<close>: the prefixes of the addresses the interface has.\<close>

definition mask_addr :: "in6_addr \<Rightarrow> byte list \<Rightarrow> in6_addr" where
  "mask_addr a m = map (\<lambda>(x, y). x AND y) (zip a m) @ replicate (16 - length m) 0"

definition get_prefix_one :: "ifaddrs \<Rightarrow> rainfo \<times> rtadvd \<Rightarrow> (rainfo \<times> rtadvd) result" where
  "get_prefix_one ifa = (\<lambda>(rai, s).
     if ifa_name ifa \<noteq> ifname rai then Inr (rai, s)
     else (case ifa_inet6 ifa of
             None \<Rightarrow> Inr (rai, s)
           | Some a \<Rightarrow>
               if IN6_IS_ADDR_LINKLOCAL a then Inr (rai, s)
               else let plen = prefixlen (ifa_netmask ifa)
                    in if plen \<le> 0 \<or> plen > 128 then Inl (Exit 1)
                       else if plen = 128 then Inr (rai, s)
                       else if find_prefix rai a (nat plen) \<noteq> None then Inr (rai, s)
                       else let pfx = \<lparr>pfx_id = next_addr s, pfx_timer = None,
                                  validlifetime = DEF_ADVVALIDLIFETIME, vltimeexpire = 0,
                                  preflifetime = DEF_ADVPREFERREDLIFETIME, pltimeexpire = 0,
                                  onlinkflg = 1, autoconfflg = 1, pfx_prefixlen = nat plen,
                                  origin = PREFIX_FROM_KERNEL, pfx_prefix = mask_addr a (ifa_netmask ifa)\<rparr>
                            in Inr (rai\<lparr>prefix_list := pfx # prefix_list rai, pfxs := pfxs rai + 1\<rparr>,
                                    s\<lparr>next_addr := Suc (next_addr s)\<rparr>)))"

definition get_prefix :: "cfgenv \<Rightarrow> rainfo \<times> rtadvd \<Rightarrow> (rainfo \<times> rtadvd) result" where
  "get_prefix env x =
     (case getifaddrs env of None \<Rightarrow> Inl (Exit 1) | Some ifap \<Rightarrow> fold_r get_prefix_one ifap x)"

definition config_prefixes ::
    "cfgenv \<Rightarrow> entry \<Rightarrow> rainfo \<times> nat \<times> rtadvd \<Rightarrow> (rainfo \<times> nat \<times> rtadvd) result" where
  "config_prefixes env e x =
     bind_r (fold_r (config_prefix env e) (up_to MAXPREFIX) x) (\<lambda>(rai, room, s).
     if pfxs rai = 0 then bind_r (get_prefix env (rai, s)) (\<lambda>(rai', s'). Inr (rai', room, s'))
     else Inr (rai, room, s))"

section \<open>MTU and routes\<close>

definition config_mtu :: "entry \<Rightarrow> rainfo \<Rightarrow> nat \<Rightarrow> (rainfo \<times> nat) result" where
  "config_mtu e rai room =
     bind_r (bind_r (MAYHAVE e ''mtu'' 0) range32) (\<lambda>mtu.
     if mtu = 0 then
       bind_r (agetstr e ''mtu'' room) (\<lambda>(mtustr, room').
       Inr (rai\<lparr>linkmtu := (if mtustr = Some ''auto'' then word_of_int (phymtu rai) else 0)\<rparr>, room'))
     else if mtu < word_of_int IPV6_MMTU \<or> word_of_int (phymtu rai) < mtu then Inl (Exit 1)
     else Inr (rai\<lparr>linkmtu := mtu\<rparr>, room))"

definition rtflags_of :: "string \<Rightarrow> int result" where
  "rtflags_of flagstr =
     (let v = (if CHR ''h'' \<in> set flagstr then 0x08 else 0)
      in if CHR ''l'' \<in> set flagstr then (if v AND 0x08 \<noteq> 0 then Inl (Exit 1) else Inr (v OR 0x18))
         else Inr v)"

text \<open>
  A value under its name, else under its obsolete name, else the default; \<open>none\<close> is the
  value that stands for a missing one.
\<close>

definition obsolete :: "entry \<Rightarrow> string \<Rightarrow> int \<Rightarrow> int \<Rightarrow> int \<Rightarrow> int result" where
  "obsolete e oentbuf none def val =
     (if val = none then
        bind_r (MAYHAVE e oentbuf none) (\<lambda>val'. Inr (if val' \<noteq> none then val' else def))
      else Inr val)"

definition config_route :: "cfgenv \<Rightarrow> entry \<Rightarrow> int \<Rightarrow> rainfo \<times> nat \<Rightarrow> (rainfo \<times> nat) result" where
  "config_route env e i = (\<lambda>(rai, room).
     bind_r (agetstr e (entbuf i ''rtprefix'') room) (\<lambda>(addr0, room1).
     bind_r (case addr0 of
               None \<Rightarrow> agetstr e (entbuf i ''rtrprefix'') room1
             | Some a \<Rightarrow> Inr (Some a, room1)) (\<lambda>(addr, room2).
     case addr of
       None \<Rightarrow> Inr (rai, room2)
     | Some addr \<Rightarrow>
         (case inet_pton env addr of
            None \<Rightarrow> Inl (Exit 1)
          | Some a \<Rightarrow>
              bind_r (bind_r (MAYHAVE e (entbuf i ''rtplen'') 256) (obsolete e (entbuf i ''rtrplen'') 256 64)) (\<lambda>plen.
              if plen < 0 \<or> plen > 128 then Inl (Exit 1)
              else bind_r (agetstr e (entbuf i ''rtflags'') room2) (\<lambda>(flagstr, room3).
              bind_r (case flagstr of
                        Some f \<Rightarrow> rtflags_of f
                      | None \<Rightarrow> MAYHAVE e (entbuf i ''rtflags'') 256) (\<lambda>flags0.
              bind_r (obsolete e (entbuf i ''rtrflags'') 256 0 flags0) (\<lambda>flags.
              if flags AND 0x18 = 0x10 then Inl (Exit 1)
              else bind_r (bind_r (bind_r (MAYHAVE e (entbuf i ''rtltime'') (-1))
                             (obsolete e (entbuf i ''rtrltime'') (-1) (uint (lifetime rai)))) range32) (\<lambda>ltm.
              let rti = \<lparr>ltime = ltm, rti_rtpref = word_of_int (flags AND 0x18),
                         rti_prefixlen = nat plen, rti_prefix = a\<rparr>
              in Inr (rai\<lparr>route_list := rti # route_list rai, routes := routes rai + 1\<rparr>, room3))))))))))"

definition config_routes :: "cfgenv \<Rightarrow> entry \<Rightarrow> rainfo \<times> nat \<Rightarrow> (rainfo \<times> nat) result" where
  "config_routes env e = fold_r (config_route env e) (up_to MAXROUTE)"

section \<open>DNS servers and search domains\<close>

text \<open>A numbered string; the number may be left out when there is one only.\<close>

definition numbered :: "entry \<Rightarrow> nat \<Rightarrow> string \<Rightarrow> int \<Rightarrow> int \<Rightarrow> nat \<Rightarrow> (string option \<times> nat) result" where
  "numbered e len key n i room =
     bind_r (agetstr e (makeentry len i key) room) (\<lambda>(str, room1).
     if str = None \<and> n = 1 then agetstr e (makeentry len (-1) key) room1 else Inr (str, room1))"

definition config_rdnss :: "cfgenv \<Rightarrow> entry \<Rightarrow> int \<Rightarrow> int \<Rightarrow> rainfo \<times> nat \<Rightarrow> (rainfo \<times> nat) result" where
  "config_rdnss env e n i = (\<lambda>(rai, room).
     bind_r (numbered e 256 ''rdnssaddr'' n i room) (\<lambda>(addr, room1).
     case addr of
       None \<Rightarrow> Inl (Exit 1)
     | Some addr \<Rightarrow>
         (case inet_pton env addr of
            None \<Rightarrow> Inl (Exit 1)
          | Some a \<Rightarrow>
              if IN6_IS_ADDR_MULTICAST a then Inl (Exit 1)
              else Inr (rai\<lparr>rdnss_list := a # rdnss_list rai\<rparr>, room1))))"

text \<open>The indices of a loop \<open>for (i = n - 1; i >= 0; i--)\<close>.\<close>

definition down_from :: "int \<Rightarrow> int list" where
  "down_from n = rev (map int [0..<nat n])"

definition config_dns :: "cfgenv \<Rightarrow> entry \<Rightarrow> rainfo \<Rightarrow> nat \<Rightarrow> (rainfo \<times> nat) result" where
  "config_dns env e rai room =
     bind_r (MAYHAVE e ''rdnsslifetime'' (uint (2 * maxinterval rai))) (\<lambda>life.
     bind_r (agetnum e ''rdnssaddrs'') (\<lambda>num.
     let n = s32 num; rai1 = rai\<lparr>rdnss_lifetime := word_of_int life\<rparr>
     in if n < 0 then Inr (rai1\<lparr>rdnss_length := 0\<rparr>, room)
        else fold_r (config_rdnss env e n) (down_from n) (rai1\<lparr>rdnss_length := n\<rparr>, room)))"

definition trim_dots :: "string \<Rightarrow> string" where
  "trim_dots domain = rev (dropWhile (\<lambda>c. c = CHR ''.'') (rev (dropWhile (\<lambda>c. c = CHR ''.'') domain)))"

definition config_domain :: "entry \<Rightarrow> int \<Rightarrow> rainfo \<times> nat \<Rightarrow> (rainfo \<times> nat) result" where
  "config_domain e i = (\<lambda>(rai, room).
     bind_r (numbered e 32 ''dnssldomain'' (dnssl_length rai) i room) (\<lambda>(domain, room1).
     case domain of
       None \<Rightarrow> Inl (Exit 1)
     | Some domain \<Rightarrow>
         let d = trim_dots domain
         in Inr (if d \<noteq> [] then rai\<lparr>dnssl_list := d # dnssl_list rai,
                     dnssl_option_length := dnssl_option_length rai + of_nat (length d + 2)\<rparr>
                 else rai, room1)))"

definition config_dnssl :: "entry \<Rightarrow> rainfo \<Rightarrow> nat \<Rightarrow> (rainfo \<times> nat) result" where
  "config_dnssl e rai room =
     bind_r (MAYHAVE e ''dnssllifetime'' (uint (2 * maxinterval rai))) (\<lambda>life.
     bind_r (agetnum e ''dnssldomains'') (\<lambda>num.
     let n = s32 num; rai1 = rai\<lparr>dnssl_lifetime := word_of_int life, dnssl_option_length := 8\<rparr>
     in if n < 0 then Inr (rai1\<lparr>dnssl_length := 0\<rparr>, room)
        else bind_r (fold_r (config_domain e) (down_from n) (rai1\<lparr>dnssl_length := n\<rparr>, room)) (\<lambda>(rai2, room').
          Inr (rai2\<lparr>dnssl_option_length :=
                 dnssl_option_length rai2 + (8 - (dnssl_option_length rai2 AND 7))\<rparr>, room'))))"

section \<open>Captive portal and NAT64 prefix\<close>

definition config_capport :: "entry \<Rightarrow> rainfo \<Rightarrow> nat \<Rightarrow> (rainfo \<times> nat) result" where
  "config_capport e rai room =
     bind_r (agetstr e ''capport'' room) (\<lambda>(str, room').
     case str of
       None \<Rightarrow> Inr (rai, room')
     | Some url \<Rightarrow>
         let l = of_nat (length url) :: u32; ol = 2 + l
         in Inr (rai\<lparr>capport := Some url, capport_length := l, capport_option_length := ol + (8 - (ol AND 7))\<rparr>, room'))"

definition pref64_prefix_length_get_plc :: "byte \<Rightarrow> int option" where
  "pref64_prefix_length_get_plc prefix_length =
     (if prefix_length = 32 then Some 5
      else if prefix_length = 40 then Some 4
      else if prefix_length = 48 then Some 3
      else if prefix_length = 56 then Some 2
      else if prefix_length = 64 then Some 1
      else if prefix_length = 96 then Some 0
      else None)"

definition config_pref64 :: "cfgenv \<Rightarrow> entry \<Rightarrow> rainfo \<Rightarrow> nat \<Rightarrow> (rainfo \<times> nat) result" where
  "config_pref64 env e rai room =
     bind_r (agetstr e ''pref64addr'' room) (\<lambda>(str, room').
     case str of
       None \<Rightarrow> Inr (rai, room')
     | Some pref64 \<Rightarrow>
         (case inet_pton env pref64 of
            None \<Rightarrow> Inl (Exit 1)
          | Some a \<Rightarrow>
              bind_r (MAYHAVE e ''pref64len'' 64) (\<lambda>plen.
              case pref64_prefix_length_get_plc (word_of_int plen) of
                None \<Rightarrow> Inl (Exit 1)
              | Some plc \<Rightarrow>
                  bind_r (agetnum e ''pref64lifetime'') (\<lambda>num.
                  if 0 \<le> num \<and> num > 65528 then Inl (Exit 1)
                  else let val = (if num < 0 then min (uint (maxinterval rai * 3)) 65528 else num);
                           val' = (if val AND 7 \<noteq> 0 then val + (8 - (val AND 7)) else val)
                       in Inr (rai\<lparr>pref64_specified := True, pref64_prefix_length := word_of_int plen,
                                   pref64_lifetime_plc := word_of_int (val' OR plc), pref64_addr := a\<rparr>, room')))))"

section \<open>All of it\<close>

definition config_finish :: "rainfo \<Rightarrow> rtadvd \<Rightarrow> rtadvd result" where
  "config_finish rai s =
     (let r = rai_id rai
      in bind_r (make_packet rai (s\<lparr>ralist := rai # ralist s\<rparr>)) (\<lambda>(rai', s1).
         bind_r (rtadvd_add_timer (Some (Ra_timeout r)) (Some (Ra_timer_update r)) (rai_upd r (\<lambda>_. rai') s1)) (\<lambda>(t, s2).
         let s3 = rai_upd r (\<lambda>rai. rai\<lparr>rai_timer := Some t\<rparr>) s2
         in bind_r (ra_timer_update r s3) (\<lambda>(v, s4). rtadvd_set_timer v t (set_tm t v s4)))))"

text \<open>The fields of the new object, in the order of the source.\<close>

definition config_rainfo :: "cfgenv \<Rightarrow> entry \<Rightarrow> string \<Rightarrow> int \<Rightarrow> rtadvd \<Rightarrow> (rainfo \<times> rtadvd) result" where
  "config_rainfo env e intface forwarding s =
     bind_r (config_iface env e intface (rainfo_zero (next_addr s))) (\<lambda>rai1.
     bind_r (config_intervals e rai1) (\<lambda>rai2.
     bind_r (config_flags e rai2 BUFSIZ) (\<lambda>(rai3, room3).
     bind_r (config_lifetimes e forwarding rai3) (\<lambda>rai4.
     bind_r (config_prefixes env e (rai4, room3, s\<lparr>next_addr := Suc (next_addr s)\<rparr>)) (\<lambda>(rai5, room5, s5).
     bind_r (config_mtu e rai5 room5) (\<lambda>(rai6, room6).
     bind_r (config_routes env e (rai6, room6)) (\<lambda>(rai7, room7).
     bind_r (config_dns env e rai7 room7) (\<lambda>(rai8, room8).
     bind_r (config_dnssl e rai8 room8) (\<lambda>(rai9, room9).
     bind_r (config_capport e rai9 room9) (\<lambda>(rai10, room10).
     bind_r (config_pref64 env e rai10 room10) (\<lambda>(rai11, room11).
     Inr (rai11, s5))))))))))))"

text \<open>The static \<open>forwarding\<close>, read from the kernel the first time.\<close>

definition get_forwarding :: "cfgenv \<Rightarrow> int \<Rightarrow> int result" where
  "get_forwarding env forwarding =
     (if forwarding < 0 then
        (case forwarding_sysctl env of
           None \<Rightarrow> Inl (Exit 1)
         | Some v \<Rightarrow> if v < 0 then Inl (Exit 1) else Inr v)
      else Inr forwarding)"

definition config_entry :: "cfgenv \<Rightarrow> string \<Rightarrow> nat \<Rightarrow> (entry \<times> nat) result" where
  "config_entry env intface hopcount =
     bind_r (tgetent (advcap env) (tbuf0 env) intface hopcount) (\<lambda>(stat, b, hopcount', live).
     Inr (\<lparr>ent_buf = (if stat \<le> 0 then replicate BUFSIZ NUL else b), ent_live = live\<rparr>, hopcount'))"

definition getconfig :: "cfgenv \<Rightarrow> string \<Rightarrow> nat \<times> int \<times> rtadvd \<Rightarrow> (nat \<times> int \<times> rtadvd) result" where
  "getconfig env intface = (\<lambda>(hopcount, forwarding, s).
     bind_r (config_entry env intface hopcount) (\<lambda>(e, hopcount').
     bind_r (get_forwarding env forwarding) (\<lambda>forwarding'.
     bind_r (config_rainfo env e intface forwarding' s) (\<lambda>(rai, s1).
     bind_r (config_finish rai s1) (\<lambda>s2. Inr (hopcount', forwarding', s2))))))"

text \<open>
  \<open>main\<close> from the check of the arguments to the last \<open>getconfig\<close>; the statics \<open>hopcount\<close> and
  \<open>forwarding\<close> start at zero and minus one.
\<close>

definition main_init :: "cfgenv \<Rightarrow> string list \<Rightarrow> rtadvd \<Rightarrow> rtadvd result" where
  "main_init env argv s =
     (if argv = [] then Inl (Exit 1)
      else let s1 = rtadvd_timer_init s
           in bind_r (init_iflist (kiflist s1 (kiflist_calls s1)) (ifilist s1)) (\<lambda>ifl.
              bind_r (fold_r (getconfig env) argv
                (0, -1, s1\<lparr>ifilist := ifl, kiflist_calls := Suc (kiflist_calls s1)\<rparr>)) (\<lambda>(hopcount, forwarding, s2).
              Inr s2)))"

end
