(* ===== verification/Capdb.thy ===== *)
theory Capdb
  imports Config
begin

text \<open>
  What the capability functions (\<open>src/rtadvd.tproj/advcap.c\<close>) find in an entry that is written
  field by field: \<open>tgetnum\<close>, \<open>tgetflag\<close> and \<open>tgetstr\<close> agree with a search in the list of the
  fields, a number and an escaped string are read back as they were written, and a \<open>tc=\<close>
  that names no entry leaves the static pointer \<open>tbuf\<close> at a buffer that is gone.
\<close>

section \<open>Skipping fields\<close>

definition plain :: "string \<Rightarrow> bool" where
  "plain f \<longleftrightarrow> (\<forall>c \<in> set f. c \<noteq> NUL \<and> c \<noteq> CHR '':'' \<and> c \<noteq> BACKSLASH \<and> c \<noteq> CHR ''^'' \<and> c \<noteq> CHR 0x22)"

lemma plain_simps [simp]:
  "plain []"
  "plain (c # f) \<longleftrightarrow> c \<noteq> NUL \<and> c \<noteq> CHR '':'' \<and> c \<noteq> BACKSLASH \<and> c \<noteq> CHR ''^'' \<and> c \<noteq> CHR 0x22 \<and> plain f"
  "plain (f @ g) \<longleftrightarrow> plain f \<and> plain g"
  by (auto simp: plain_def)

lemma chr_at_append [simp]:
  "chr_at (pre @ c # rest) (length pre) = Inr c" "chr_at (c # rest) 0 = Inr c"
  "chr_at (pre @ rest) (length pre + n) = chr_at rest n"
  by (simp_all add: chr_at_def nth_append)

lemma chr_at_Suc [simp]: "chr_at (c # rest) (Suc n) = chr_at rest n"
  by (simp add: chr_at_def)

lemma tskip_loop_plain:
  "plain f \<Longrightarrow> c = NUL \<or> c = CHR '':'' \<Longrightarrow>
   tskip_loop (pre @ f @ c # rest) False (length pre) = Inr (length pre + length f)"
proof (induction f arbitrary: pre)
  case Nil
  then show ?case by (subst tskip_loop.simps) auto
next
  case (Cons d f)
  from Cons.IH [of "pre @ [d]"] Cons.prems show ?case by (subst tskip_loop.simps) auto
qed

lemma tskip_colon: "plain f \<Longrightarrow> tskip (pre @ f @ CHR '':'' # rest) (length pre) = Inr (length pre + length f + 1)"
  using tskip_loop_plain [of f "CHR '':''" pre rest] by (simp add: tskip_def chr_at_def nth_append)

text \<open>
  An escape takes three characters, not two: the case of the backslash falls through. A
  colon after an escaped character does not end the field.
\<close>

lemma tskip_escape_colon:
  assumes "plain f" "plain g" "\<not> isdigit c"
  shows "tskip (pre @ f @ BACKSLASH # c # CHR '':'' # g @ CHR '':'' # rest) (length pre) =
    Inr (length pre + length f + length g + 4)"
proof -
  let ?b = "pre @ f @ BACKSLASH # c # CHR '':'' # g @ CHR '':'' # rest"
  have "tskip_loop ?b False (length pre) = Inr (length pre + length f + length g + 3)"
    using assms(1)
  proof (induction f arbitrary: pre)
    case Nil
    have "tskip_loop ((pre @ [BACKSLASH, c, CHR '':'']) @ g @ CHR '':'' # rest) False (length (pre @ [BACKSLASH, c, CHR '':''])) =
        Inr (length (pre @ [BACKSLASH, c, CHR '':'']) + length g)"
      using tskip_loop_plain [OF assms(2)] by blast
    then show ?case using assms(3) by (subst tskip_loop.simps) (simp add: chr_at_def nth_append)
  next
    case (Cons d f)
    from Cons.IH [of "pre @ [d]"] Cons.prems show ?case by (subst tskip_loop.simps) auto
  qed
  then show ?thesis by (simp add: tskip_def chr_at_def nth_append)
qed

section \<open>An entry as the list of its fields\<close>

definition cap_fields :: "string list \<Rightarrow> char list \<Rightarrow> char list" where
  "cap_fields fs junk = concat (map (\<lambda>f. f @ '':'') fs) @ NUL # junk"

definition entry_buf :: "string \<Rightarrow> string list \<Rightarrow> char list \<Rightarrow> char list" where
  "entry_buf nm fs junk = nm @ CHR '':'' # cap_fields fs junk"

lemma cap_fields_simps: "cap_fields [] junk = NUL # junk" "cap_fields (f # fs) junk = f @ CHR '':'' # cap_fields fs junk"
  by (simp_all add: cap_fields_def)

lemma strn_eq_field:
  "CHR '':'' \<notin> set key \<Longrightarrow> strn_eq (pre @ f @ CHR '':'' # rest) (length pre) key = Inr (take (length key) f = key)"
proof (induction key arbitrary: pre f)
  case (Cons k key)
  show ?case
  proof (cases f)
    case Nil
    then show ?thesis using Cons.prems by auto
  next
    case (Cons d f')
    with Cons.IH [of "pre @ [d]" f'] Cons.prems show ?thesis by auto
  qed
qed simp

text \<open>The characters of a field behind its name.\<close>

definition behind :: "string \<Rightarrow> string \<Rightarrow> string option" where
  "behind key f = (if take (length key) f = key then Some (drop (length key) f) else None)"

lemma behind_None: "behind key f = None \<Longrightarrow> take (length key) f \<noteq> key"
  by (simp add: behind_def split: if_splits)

lemma behind_Some: "behind key f = Some h \<Longrightarrow> f = key @ h"
  by (auto simp: behind_def split: if_splits) (metis append_take_drop_id)

text \<open>
  The search in the list: \<open>decide\<close> is the answer that the characters behind the name give,
  \<open>None\<close> when the search goes on.
\<close>

fun field_search :: "string \<Rightarrow> (string \<Rightarrow> 'r option) \<Rightarrow> 'r \<Rightarrow> string list \<Rightarrow> 'r" where
  "field_search key decide none [] = none"
| "field_search key decide none (f # fs) =
     (case behind key f of
        None \<Rightarrow> field_search key decide none fs
      | Some h \<Rightarrow> (case decide h of Some r \<Rightarrow> r | None \<Rightarrow> field_search key decide none fs))"

text \<open>What the three loops have in common.\<close>

locale field_loop =
  fixes key :: string and loop :: "char list \<Rightarrow> nat \<Rightarrow> 'r"
    and decide :: "string \<Rightarrow> 'r option" and none :: 'r
  assumes at_end: "tskip b bp = Inr p \<Longrightarrow> chr_at b p = Inr NUL \<Longrightarrow> loop b bp = none"
    and other: "tskip b bp = Inr p \<Longrightarrow> chr_at b p = Inr c \<Longrightarrow> c \<noteq> NUL \<Longrightarrow> strn_eq b p key = Inr False \<Longrightarrow>
      loop b bp = loop b p"
    and same: "tskip (pre @ key @ h @ CHR '':'' # rest) bp = Inr (length pre) \<Longrightarrow>
      chr_at (pre @ key @ h @ CHR '':'' # rest) (length pre) = Inr c \<Longrightarrow> c \<noteq> NUL \<Longrightarrow>
      strn_eq (pre @ key @ h @ CHR '':'' # rest) (length pre) key = Inr True \<Longrightarrow> plain h \<Longrightarrow>
      loop (pre @ key @ h @ CHR '':'' # rest) bp =
        (case decide h of Some r \<Rightarrow> r | None \<Rightarrow> loop (pre @ key @ h @ CHR '':'' # rest) (length pre + length key))"
begin

lemma loop_search:
  assumes key: "CHR '':'' \<notin> set key"
  shows "plain g \<Longrightarrow> \<forall>f \<in> set fs. plain f \<Longrightarrow>
    loop (pre @ g @ CHR '':'' # cap_fields fs junk) (length pre) = field_search key decide none fs"
proof (induction fs arbitrary: pre g)
  case Nil
  from tskip_colon [OF Nil(1), of pre "NUL # junk"] show ?case
    by (intro at_end [THEN trans]) (auto simp: cap_fields_simps chr_at_def nth_append)
next
  case (Cons f fs)
  let ?pre = "pre @ g @ '':''"
  let ?b = "?pre @ f @ CHR '':'' # cap_fields fs junk"
  have b: "pre @ g @ CHR '':'' # cap_fields (f # fs) junk = ?b" by (simp add: cap_fields_simps)
  have sk: "tskip ?b (length pre) = Inr (length ?pre)"
    using tskip_colon [OF Cons.prems(1), of pre "f @ CHR '':'' # cap_fields fs junk"] by simp
  have f: "plain f" "\<forall>f \<in> set fs. plain f" using Cons.prems(2) by simp_all
  obtain c where c: "chr_at ?b (length ?pre) = Inr c" "c \<noteq> NUL"
    using f(1) by (cases f) (simp_all add: chr_at_def nth_append)
  have eq: "strn_eq ?b (length ?pre) key = Inr (take (length key) f = key)" by (rule strn_eq_field [OF key])
  show ?case
  proof (cases "behind key f")
    case None
    then have "loop ?b (length pre) = loop ?b (length ?pre)" using other [OF sk c] eq behind_None by simp
    with Cons.IH [OF f, of ?pre] None show ?thesis unfolding b by simp
  next
    case (Some h)
    note fh = behind_Some [OF Some]
    have "plain h" using f(1) fh by simp
    then have "loop ?b (length pre) = (case decide h of Some r \<Rightarrow> r | None \<Rightarrow> loop ?b (length ?pre + length key))"
      using same [of ?pre h "cap_fields fs junk" "length pre" c] sk c eq unfolding fh
      by (simp cong: option.case_cong)
    moreover have "loop ?b (length ?pre + length key) = field_search key decide none fs"
      using Cons.IH [OF \<open>plain h\<close> f(2), of "?pre @ key"] unfolding fh by (simp add: add.assoc)
    ultimately show ?thesis unfolding b by (simp add: Some cong: option.case_cong)
  qed
qed

end

section \<open>Numbers\<close>

fun digits_val :: "int \<Rightarrow> int \<Rightarrow> string \<Rightarrow> int result" where
  "digits_val base i [] = Inr i"
| "digits_val base i (c # cs) =
     (if isdigit c then (if 2 ^ 63 \<le> i * base + digit c then Inl SignedOverflow
                         else digits_val base (i * base + digit c) cs)
      else Inr i)"

definition number :: "string \<Rightarrow> int result" where
  "number ds = digits_val (if take 1 ds = ''0'' then 8 else 10) 0 ds"

definition num_decide :: "string \<Rightarrow> int result option" where
  "num_decide h =
     (case h of
        [] \<Rightarrow> None
      | c # ds \<Rightarrow> if c = CHR ''@'' then Some (Inr (-1)) else if c = CHR ''#'' then Some (number ds) else None)"

lemma digits_loop_val:
  "digits_loop (pre @ ds @ CHR '':'' # rest) base i (length pre) = digits_val base i ds"
proof (induction ds arbitrary: pre i)
  case Nil
  then show ?case by (subst digits_loop.simps) (simp add: isdigit_def)
next
  case (Cons c ds)
  from Cons.IH [of "pre @ [c]"] show ?case by (subst digits_loop.simps) simp
qed

lemma chr_behind:
  "chr_at (pre @ key @ h @ CHR '':'' # rest) (length pre + length key) = Inr (case h of [] \<Rightarrow> CHR '':'' | c # _ \<Rightarrow> c)"
  by (cases h) (simp_all add: chr_at_def nth_append)

lemma digits_behind:
  "bind_r (chr_at (pre @ key @ (CHR ''#'' # ds) @ CHR '':'' # rest) (Suc (length pre + length key))) (\<lambda>d.
     digits_loop (pre @ key @ (CHR ''#'' # ds) @ CHR '':'' # rest) (if d = CHR ''0'' then 8 else 10) 0
       (Suc (length pre + length key))) = number ds"
proof -
  let ?p = "pre @ key @ ''#''"
  have "chr_at (?p @ ds @ CHR '':'' # rest) (length ?p) = Inr (case ds of [] \<Rightarrow> CHR '':'' | c # _ \<Rightarrow> c)"
    by (cases ds) (simp_all add: chr_at_def nth_append)
  moreover note digits_loop_val [of ?p ds rest]
  ultimately show ?thesis by (cases ds) (simp_all add: number_def)
qed

interpretation num: field_loop key "\<lambda>b bp. tgetnum_loop b key bp" num_decide "Inr (-1)" for key
proof (unfold_locales, goal_cases)
  case (3 pre h rest bp c)
  then show ?case
    using chr_behind [of pre key h rest] digits_behind [of pre key _ rest]
    by (subst tgetnum_loop.simps) (cases h; simp add: num_decide_def)
qed (subst tgetnum_loop.simps, simp)+

lemma tgetnum_entry:
  assumes "CHR '':'' \<notin> set key" "plain nm" "\<forall>f \<in> set fs. plain f"
  shows "tgetnum (entry_buf nm fs junk) key = field_search key num_decide (Inr (-1)) fs"
  using num.loop_search [OF assms, of "[]"] by (simp add: tgetnum_def entry_buf_def)

lemma of_char_int: "(of_char c :: int) = int (of_char c)"
  by (cases c) (simp add: of_char_def)

lemma digit_of_nat: "n < 10 \<Longrightarrow> isdigit (char_of (48 + n)) \<and> digit (char_of (48 + n :: nat)) = int n"
proof -
  assume "n < 10"
  then have "n \<in> {0, 1, 2, 3, 4, 5, 6, 7, 8, 9}" by auto
  then show ?thesis
    unfolding isdigit_def digit_def of_char_int by auto
qed

lemma digits_val_append:
  "digits_val base i xs = Inr v \<Longrightarrow> \<forall>c \<in> set xs. isdigit c \<Longrightarrow> digits_val base i (xs @ ys) = digits_val base v ys"
  by (induction xs arbitrary: i) (auto split: if_splits)

lemma decimal_digits: "\<forall>c \<in> set (decimal n). isdigit c"
proof (induction n rule: decimal.induct)
  case (1 n)
  have "isdigit (char_of (48 + n mod 10))" using digit_of_nat [of "n mod 10"] by simp
  with 1 digit_of_nat [of n] show ?case by (subst decimal.simps) auto
qed

lemma decimal_val: "n < 2 ^ 63 \<Longrightarrow> digits_val 10 0 (decimal n) = Inr (int n)"
proof (induction n rule: decimal.induct)
  case (1 n)
  show ?case
  proof (cases "n < 10")
    case True
    with digit_of_nat [of n] show ?thesis by (subst decimal.simps) simp
  next
    case False
    have "digits_val 10 0 (decimal (n div 10)) = Inr (int (n div 10))" using 1 False by simp
    from digits_val_append [OF this decimal_digits]
    have "digits_val 10 0 (decimal n) = digits_val 10 (int (n div 10)) [char_of (48 + n mod 10)]"
      by (subst decimal.simps) (use False in simp)
    moreover have "int (n div 10) * 10 + int (n mod 10) = int n"
      by (metis div_mult_mod_eq of_nat_add of_nat_mult of_nat_numeral)
    ultimately show ?thesis
      using 1(2) digit_of_nat [of "n mod 10"] by simp
  qed
qed

lemma decimal_hd: "0 < n \<Longrightarrow> take 1 (decimal n) \<noteq> ''0''"
proof (induction n rule: decimal.induct)
  case (1 n)
  show ?case
  proof (cases "n < 10")
    case True
    moreover have "digit (CHR ''0'') = 0" by (simp add: digit_def)
    ultimately show ?thesis using 1(2) digit_of_nat [of n] by (subst decimal.simps) auto
  next
    case False
    then have "take 1 (decimal (n div 10)) \<noteq> ''0''" using 1 by simp
    moreover have "decimal (n div 10) \<noteq> []" by (subst decimal.simps) simp
    ultimately show ?thesis
      using False by (subst decimal.simps) (cases "decimal (n div 10)"; simp)
  qed
qed

lemma number_decimal: "n < 2 ^ 63 \<Longrightarrow> number (decimal n) = Inr (int n)"
proof (cases "n = 0")
  case True
  then show ?thesis using digit_of_nat [of 0] by (simp add: number_def decimal.simps)
next
  case False
  assume "n < 2 ^ 63"
  with decimal_val [of n] decimal_hd [of n] False show ?thesis by (simp add: number_def)
qed

section \<open>Flags and strings\<close>

definition flag_decide :: "string \<Rightarrow> bool result option" where
  "flag_decide h = (case h of [] \<Rightarrow> Some (Inr True) | c # _ \<Rightarrow> if c = CHR ''@'' then Some (Inr False) else None)"

interpretation flag: field_loop key "\<lambda>b bp. tgetflag_loop b key bp" flag_decide "Inr False" for key
proof (unfold_locales, goal_cases)
  case (3 pre h rest bp c)
  then show ?case
    using chr_behind [of pre key h rest]
    by (subst tgetflag_loop.simps) (cases h; simp add: flag_decide_def)
qed (subst tgetflag_loop.simps, simp)+

lemma tgetflag_entry:
  assumes "CHR '':'' \<notin> set key" "plain nm" "\<forall>f \<in> set fs. plain f"
  shows "tgetflag (entry_buf nm fs junk) key = field_search key flag_decide (Inr False) fs"
  using flag.loop_search [OF assms, of "[]"] by (simp add: tgetflag_def entry_buf_def)

text \<open>A string as the file has it: the characters of the table are written as escapes.\<close>

definition enc_char :: "char \<Rightarrow> string" where
  "enc_char c = (case map_of (map prod.swap escapes) c of Some k \<Rightarrow> [BACKSLASH, k] | None \<Rightarrow> [c])"

definition enc_str :: "string \<Rightarrow> string" where
  "enc_str v = concat (map enc_char v)"

lemma enc_char_cases:
  "(\<exists>k. enc_char c = [BACKSLASH, k] \<and> map_of escapes k = Some c) \<or>
   enc_char c = [c] \<and> c \<noteq> BACKSLASH \<and> c \<noteq> CHR ''^'' \<and> c \<noteq> CHR '':'' \<and> c \<noteq> CHR 0x22"
  by (auto simp: enc_char_def escapes_def)

lemma tdecode_loop_enc:
  "NUL \<notin> set v \<Longrightarrow> tdecode_loop (pre @ enc_str v @ CHR '':'' # rest) (CHR '':'') (length pre) = Inr v"
proof (induction v arbitrary: pre)
  case Nil
  then show ?case by (subst tdecode_loop.simps) (simp add: enc_str_def)
next
  case (Cons c v)
  from Cons.prems have v: "NUL \<notin> set v" "c \<noteq> NUL" by auto
  from enc_char_cases [of c] show ?case
  proof (elim disjE exE conjE)
    fix k assume k: "enc_char c = [BACKSLASH, k]" "map_of escapes k = Some c"
    from Cons.IH [OF v(1), of "pre @ [BACKSLASH, k]"] k show ?case
      by (subst tdecode_loop.simps) (simp add: enc_str_def tdecode_char_def chr_at_def nth_append)
  next
    assume "enc_char c = [c]" "c \<noteq> BACKSLASH" "c \<noteq> CHR ''^''" "c \<noteq> CHR '':''" "c \<noteq> CHR 0x22"
    with Cons.IH [OF v(1), of "pre @ [c]"] v(2) show ?case
      by (subst tdecode_loop.simps) (simp add: enc_str_def tdecode_char_def)
  qed
qed

lemma enc_str_hd: "take 1 (enc_str v) \<noteq> [CHR 0x22]"
  using enc_char_cases [of "hd v"] by (cases v) (auto simp: enc_str_def)

lemma tdecode_enc:
  assumes "NUL \<notin> set v"
  shows "tdecode (pre @ enc_str v @ CHR '':'' # rest) (length pre) room =
    (if room < Suc (length v) then Inl OutOfBounds else Inr (v, room - Suc (length v)))"
proof -
  obtain c where c: "chr_at (pre @ enc_str v @ CHR '':'' # rest) (length pre) = Inr c" "c \<noteq> CHR 0x22"
    using enc_str_hd [of v] by (cases "enc_str v") (simp_all add: chr_at_def nth_append)
  have "takeWhile (\<lambda>c. c \<noteq> NUL) v = v" using assms by (auto simp: takeWhile_eq_all_conv)
  with c tdecode_loop_enc [OF assms, of pre rest] show ?thesis by (simp add: tdecode_def)
qed

lemma tdecode_loop_plain:
  "plain v \<Longrightarrow> tdecode_loop (pre @ v @ CHR '':'' # rest) (CHR '':'') (length pre) = Inr v"
proof (induction v arbitrary: pre)
  case (Cons c v)
  from Cons.IH [of "pre @ [c]"] Cons.prems show ?case
    by (subst tdecode_loop.simps) (simp add: tdecode_char_def)
qed (subst tdecode_loop.simps, simp)

definition str_plain :: "nat \<Rightarrow> string \<Rightarrow> (string option \<times> nat) result" where
  "str_plain room v = (if room < Suc (length v) then Inl OutOfBounds else Inr (Some v, room - Suc (length v)))"

definition str_decide :: "nat \<Rightarrow> string \<Rightarrow> (string option \<times> nat) result option" where
  "str_decide room h =
     (case h of
        [] \<Rightarrow> None
      | c # v \<Rightarrow> if c = CHR ''@'' then Some (Inr (None, room))
                 else if c = CHR ''='' then Some (str_plain room v) else None)"

lemma tdecode_behind:
  assumes "plain v"
  shows "bind_r (tdecode (pre @ key @ (CHR ''='' # v) @ CHR '':'' # rest) (Suc (length pre + length key)) room)
     (\<lambda>(s, room'). Inr (Some s, room')) = str_plain room v"
proof -
  let ?p = "pre @ key @ ''=''"
  have "chr_at (?p @ v @ CHR '':'' # rest) (length ?p) = Inr (case v of [] \<Rightarrow> CHR '':'' | c # _ \<Rightarrow> c)"
    by (cases v) (simp_all add: chr_at_def nth_append)
  moreover have "takeWhile (\<lambda>c. c \<noteq> NUL) v = v" using assms by (auto simp: takeWhile_eq_all_conv plain_def)
  moreover note tdecode_loop_plain [OF assms, of ?p rest]
  ultimately show ?thesis using assms by (cases v) (simp_all add: tdecode_def str_plain_def)
qed

interpretation str: field_loop key "\<lambda>b bp. tgetstr_loop b key room bp" "str_decide room" "Inr (None, room)" for key room
proof (unfold_locales, goal_cases)
  case (3 pre h rest bp c)
  then show ?case
    using chr_behind [of pre key h rest] tdecode_behind [of _ pre key rest room]
    by (subst tgetstr_loop.simps) (cases h; simp add: str_decide_def)
qed (subst tgetstr_loop.simps, simp)+

lemma tgetstr_entry:
  assumes "CHR '':'' \<notin> set key" "plain nm" "\<forall>f \<in> set fs. plain f"
  shows "tgetstr (entry_buf nm fs junk) key room = field_search key (str_decide room) (Inr (None, room)) fs"
  using str.loop_search [OF assms, of "[]"] by (simp add: tgetstr_def entry_buf_def)

section \<open>References to other entries\<close>

text \<open>
  A \<open>tc=\<close> whose name is not in the file: \<open>getent\<close> has set the static \<open>tbuf\<close> to the \<open>tcbuf\<close> of
  the call that fails, and nothing sets it back.
\<close>

lemma tnchktc_dangling:
  assumes tc: "strlen tbuf 0 = Inr n" "last_colon tbuf (int n - 3) = Inr k"
    "chr_at tbuf (Suc k) = Inr (CHR ''t'')" "chr_at tbuf (Suc (Suc k)) = Inr (CHR ''c'')" "str_at tbuf (4 + k) = Inr src"
    and hop: "hopcount < MAXHOP" and conf: "conffile env = Some cs"
    and missing: "getent_search (takeWhile (\<lambda>c. c \<noteq> CHR '':'') (take 15 src)) cs (tcjunk env hopcount) = Inr None"
  shows "tnchktc env tbuf hopcount = Inr (0, tbuf, Suc hopcount, False)"
proof -
  have "getent env (tcjunk env hopcount) (takeWhile (\<lambda>c. c \<noteq> CHR '':'') (take 15 src)) (Suc hopcount) =
      Inr (0, tcjunk env hopcount, Suc hopcount, True)"
    using conf missing by (subst getent.simps) simp
  then show ?thesis using tc hop by (subst tnchktc.simps) (simp add: Let_def)
qed

end
