(* ===== verification/Formats.thy ===== *)
theory Formats
  imports Examples Capdb
begin

text \<open>
  The properties of the formats the daemon reads and writes: addresses and prefixes, the
  options of neighbour discovery, the advertisement, the messages of the routing socket and
  the capability entries of the configuration file.
\<close>

section \<open>Addresses and prefixes\<close>

text \<open>
  \<open>prefix_match\<close> compares whole bytes and then a masked byte; what it
  decides is that the second prefix is no longer than the first and that the addresses agree
  on its leading bits.
\<close>

theorem prefix_match_bits:
  assumes "in6_ok p0" "in6_ok p1" "plen1 \<le> 128"
  shows "prefix_match p0 plen0 p1 plen1 \<longleftrightarrow>
    plen1 \<le> plen0 \<and> take plen1 (addr_bits p0) = take plen1 (addr_bits p1)"
  using prefix_cmp_bits [OF assms] by (auto simp: prefix_match_def)

theorem prefix_match_bits_witness:
  "prefix_match (ex_addr 1) 64 (ex_addr 2) 62 \<and> \<not> prefix_match (ex_addr 1) 64 (ex_addr 2) 63"
proof -
  have ok: "in6_ok (ex_addr 1)" "in6_ok (ex_addr 2)" by (simp_all add: in6_ok_def ex_addr_def)
  show ?thesis
    unfolding prefix_match_bits [OF ok, of 62, simplified] prefix_match_bits [OF ok, of 63, simplified]
    by code_simp
qed

text \<open>
  C36. \<open>find_prefix\<close> returns the first prefix of the interface with the
  length asked for whose leading bits are those of the address, and null exactly when there
  is none.
\<close>

theorem find_prefix_refines:
  assumes "rainfo_wf rai" "in6_ok p"
  shows "find_prefix rai p plen =
    find (\<lambda>pp. pfx_prefixlen pp = plen \<and> take plen (addr_bits (pfx_prefix pp)) = take plen (addr_bits p)) (prefix_list rai)"
proof -
  have "\<forall>pp \<in> set (prefix_list rai). prefix_ok pp" using assms(1) by (simp add: rainfo_wf_parts)
  from find_prefix_spec [OF this assms(2)] show ?thesis by (simp add: same_prefix_def [abs_def])
qed

theorem find_prefix_refines_witness:
  "map_option pfx_id (find_prefix ex_rai (ex_addr 2) 64) = Some 2"
proof -
  have "in6_ok (ex_addr 2)" "take 64 (addr_bits (ex_addr 1)) \<noteq> take 64 (addr_bits (ex_addr 2))" by code_simp+
  with find_prefix_refines [OF ex_rai_wf, of "ex_addr 2" 64] show ?thesis by (simp add: ex_rai_def ex_prefix_def)
qed

text \<open>
  \<open>prefixlen\<close> inverts the construction of a netmask: of the mask with
  \<open>n\<close> leading ones it reads \<open>n\<close>.
\<close>

theorem prefixlen_roundtrip:
  assumes "n \<le> 8 * k"
  shows "prefixlen (mask_bytes k n) = int n"
  by (rule prefixlen_mask_bytes [OF assms])

theorem prefixlen_roundtrip_witness: "prefixlen (mask_bytes 16 61) = 61"
  using prefixlen_roundtrip [of 61 16] by simp

section \<open>Neighbour discovery options\<close>

text \<open>
  C24. \<open>nd6_options\<close> accepts exactly the byte strings that are a sequence of
  options, each at least its header long and with its length in units of eight bytes in its
  second byte, and then collects them from first to last.
\<close>

theorem nd6_options_exact:
  "nd6_options bs fl = Some nd \<longleftrightarrow>
    (\<exists>os. concat os = bs \<and> list_all (\<lambda>b. 2 \<le> length b \<and> 8 * unat (b ! 1) = length b) os \<and>
       nd = fold (nd6_option fl) os nd_opts_zero)"
proof -
  have ok: "list_all (\<lambda>b. 2 \<le> length b \<and> 8 * unat (b ! 1) = length b) os \<longleftrightarrow> (\<forall>b \<in> set os. opts.msg_ok b)" for os
    by (auto simp: list_all_iff opts.msg_ok_def opt_len_def)
  have "tlv_split 2 opt_len bs = Some os \<longleftrightarrow> concat os = bs \<and> (\<forall>b \<in> set os. opts.msg_ok b)" for os
    using opts.split_concat opts.split_sound [of bs os] opts.split_msg_ok [of bs os]
    by (auto simp: opt_len_def)
  then show ?thesis unfolding ok nd6_options_split by auto
qed


section \<open>The advertisement\<close>

text \<open>
  C7. For every well-formed interface \<open>make_packet\<close> returns: the length it
  computes beforehand is exactly that of the bytes it then writes, so it neither writes
  behind its buffer nor exits. The interface stays well-formed and holds the new packet.
\<close>

theorem make_packet_total:
  assumes "rainfo_wf rai"
  shows "\<exists>rai' s' b. make_packet rai s = Inr (rai', s') \<and> rainfo_wf rai' \<and>
    ra_data rai' = Some b \<and> ra_datalen rai' = length b \<and> 16 \<le> length b"
proof -
  obtain os s' where mp: "make_packet rai s =
      Inr ((settled rai)\<lparr>ra_data := Some (ra_header (settled rai) @ concat os),
             ra_datalen := 16 + length (concat os)\<rparr>, s')"
    using make_packet_ok [OF assms] by blast
  have len: "length (ra_header r) = 16" for r by (simp add: ra_header_def be16_def be32_def)
  define b where "b = ra_header (settled rai) @ concat os"
  define rai' where "rai' = (settled rai)\<lparr>ra_data := Some b, ra_datalen := 16 + length (concat os)\<rparr>"
  have "make_packet rai s = Inr (rai', s')" unfolding mp rai'_def b_def ..
  moreover have "rainfo_wf rai'" "ra_data rai' = Some b" "ra_datalen rai' = length b" "16 \<le> length b"
    using assms unfolding rai'_def by (simp_all add: b_def len)
  ultimately show ?thesis by blast
qed

theorem make_packet_total_witness: "\<exists>rai' s'. make_packet ex_rai ex_state = Inr (rai', s')"
  using make_packet_total [OF ex_rai_wf] by blast

lemma prefix_options_fields:
  "\<forall>pfx \<in> set ps. prefix_ok pfx \<Longrightarrow>
   map (\<lambda>b. (pi_prefix b, pi_prefix_len b)) (fst (prefix_options ps s)) = map (\<lambda>pfx. (pfx_prefix pfx, pfx_prefixlen pfx)) ps"
proof (induction ps arbitrary: s)
  case (Cons pfx ps)
  obtain now s1 where r: "(if reads_clock pfx then gettimeofday s else (Timeval 0 0, s)) = (now, s1)" by fastforce
  obtain os s2 where o: "prefix_options ps s1 = (os, s2)" by fastforce
  from Cons.IH [of s1] Cons.prems show ?case by (simp only: prefix_options.simps r o Let_def) (simp add: o prefix_option_fields)
qed simp

text \<open>
  C4. The advertisement \<open>make_packet\<close> writes is read back by
  \<open>nd6_options\<close>, the parser of received advertisements: it accepts the options and finds the
  prefixes of the interface, in order, the first one apart and the others in reverse.
\<close>

theorem packet_roundtrip:
  assumes "rainfo_wf rai" "options_small rai" "make_packet rai s = Inr (rai', s')"
    "ra_data rai' = Some b" "fl AND NDOPT_FLAG_PREFIXINFO \<noteq> 0"
  shows "\<exists>nd. nd6_options (drop 16 b) fl = Some nd \<and>
    map (\<lambda>p. (pi_prefix p, pi_prefix_len p))
        ((case nd_opts_pi nd of None \<Rightarrow> [] | Some p \<Rightarrow> [p]) @ rev (nd_opts_list nd)) =
    map (\<lambda>pfx. (pfx_prefix pfx, pfx_prefixlen pfx)) (prefix_list rai)"
proof -
  have st: "rainfo_wf (settled rai)" "options_small (settled rai)" "prefix_list (settled rai) = prefix_list rai"
    using assms(1,2) by simp_all
  obtain os s1 where os: "packet_options (settled rai) s = Inr (os, s1)"
    and mp: "make_packet rai s =
      Inr ((settled rai)\<lparr>ra_data := Some (ra_header (settled rai) @ concat os),
             ra_datalen := 16 + length (concat os)\<rparr>, s1)"
    using make_packet_ok [OF assms(1)] by blast
  have b: "drop 16 b = concat os"
    using mp assms(3,4) by (auto simp: ra_header_def)
  note msgs = packet_options_msgs [OF st(1,2) os]
  have pis: "map (\<lambda>p. (pi_prefix p, pi_prefix_len p)) (filter is_pi os) =
      map (\<lambda>pfx. (pfx_prefix pfx, pfx_prefixlen pfx)) (prefix_list rai)"
    using prefix_options_fields [of "prefix_list rai" s] assms(1) by (simp add: msgs(2) st(3) rainfo_wf_parts)
  show ?thesis
    using fold_nd6_option_pi [OF assms(5), of nd_opts_zero os] pis nd6_options_concat [OF msgs(1), of fl]
    unfolding b by (auto simp: nd_opts_zero_def split: list.splits)
qed

theorem packet_roundtrip_witness:
  "\<exists>b nd. nd6_options (drop 16 b) NDOPT_FLAG_PREFIXINFO = Some nd \<and>
    map (\<lambda>p. (pi_prefix p, pi_prefix_len p))
        ((case nd_opts_pi nd of None \<Rightarrow> [] | Some p \<Rightarrow> [p]) @ rev (nd_opts_list nd)) =
    [(ex_addr 1, 64), (ex_addr 2, 64)]"
proof -
  have small: "options_small ex_rai" by (simp add: options_small_def ex_rai_def)
  obtain rai' s' b where mp: "make_packet ex_rai ex_state = Inr (rai', s')" "ra_data rai' = Some b"
    using make_packet_ok [OF ex_rai_wf, of ex_state] by fastforce
  have "map (\<lambda>pfx. (pfx_prefix pfx, pfx_prefixlen pfx)) (prefix_list ex_rai) = [(ex_addr 1, 64), (ex_addr 2, 64)]"
    by (simp add: ex_rai_def ex_prefix_def)
  with packet_roundtrip [OF ex_rai_wf small mp, of NDOPT_FLAG_PREFIXINFO] show ?thesis by auto
qed

section \<open>Domain names\<close>

text \<open>The decoder of RFC 1035 names: a length byte before each label, zero at the end.\<close>

function domain_labels :: "byte list \<Rightarrow> byte list list option" where
  "domain_labels [] = None"
| "domain_labels (n # bs) =
     (if n = 0 then (if bs = [] then Some [] else None)
      else if length bs < unat n then None
      else map_option (Cons (take (unat n) bs)) (domain_labels (drop (unat n) bs)))"
  by pat_completeness auto
termination by (relation "measure length") auto

lemma and_63: "(n :: nat) AND 63 = n mod 64"
  using take_bit_eq_mask [of 6 n] by (simp add: take_bit_eq_mod mask_eq_exp_minus_1)

lemma domain_labels_encode:
  "list_all (\<lambda>l. l \<noteq> [] \<and> length l < 64) ls \<Longrightarrow>
   domain_labels (concat (map encode_label ls) @ [0]) = Some (map (map of_char) ls)"
proof (induction ls)
  case (Cons l ls)
  have "unat (of_nat (length l) :: byte) = length l" using Cons.prems by (simp add: unat_of_nat)
  with Cons show ?case by (auto simp: encode_label_def and_63)
qed simp

text \<open>
  C37. A domain name without empty labels whose labels have less than
  64 characters is encoded so that the decoder of RFC 1035 gives its labels back, within the
  length the option reserves for it.
\<close>

theorem encode_domain_roundtrip:
  assumes "list_all (\<lambda>l. l \<noteq> [] \<and> length l < 64) (strsep_dots d)"
  shows "domain_labels (encode_domain d) = Some (map (map of_char) (strsep_dots d)) \<and>
    length (encode_domain d) \<le> length d + 2"
  using domain_labels_encode [OF assms] length_encode_domain by (simp add: encode_domain_def)

theorem encode_domain_roundtrip_witness:
  "domain_labels (encode_domain ''example.org'') = Some [map of_char ''example'', map of_char ''org'']"
  using encode_domain_roundtrip [of "''example.org''"] by simp

text \<open>
  The mask \<open>0x3f\<close> does not reject a label of 64 characters or more
  but cuts it to its length modulo 64; one of exactly 64 characters vanishes from the name.
\<close>

theorem encode_label_truncates:
  assumes "length l = 64 + n" "n < 64"
  shows "encode_label l = (if n = 0 then [] else of_nat n # map of_char (take n l))"
  using assms by (simp add: encode_label_def and_63)

theorem encode_label_truncates_witness:
  "encode_label (replicate 65 CHR ''a'') = [1, of_char CHR ''a'']"
  using encode_label_truncates [of "replicate 65 CHR ''a''" 1] by (simp add: numeral_eq_Suc)


section \<open>Messages of the routing socket\<close>

text \<open>
  On a buffer of well-formed routing messages \<open>get_next_msg\<close> skips
  exactly the messages before the first one that matches the filter and the interface, and
  returns that one with everything behind it; when none matches it returns a zero length at
  the end of the buffer.
\<close>

theorem get_next_msg_first:
  assumes "\<forall>m \<in> set ms. 4 \<le> length m \<and> rtm_msglen m = length m \<and> returns (rtm_match idx flt m)"
  shows "get_next_msg idx flt (concat ms) =
    (case dropWhile (\<lambda>m. rtm_match idx flt m = Inr False) ms of
       [] \<Rightarrow> Inr ([], 0) | m # rest \<Rightarrow> Inr (concat (m # rest), length m))"
  by (rule get_next_msg_concat) (use assms in \<open>auto simp: rtmsgs.msg_ok_def\<close>)

definition ex_ifinfo :: "byte \<Rightarrow> byte list" where
  "ex_ifinfo i = [14, 0, 5, 14, 0, 0, 0, 0, 1, 0, 0, 0, i, 0]"

lemma ex_ifinfo_ok: "ifinfo_ok (ex_ifinfo i)"
proof -
  have "rtm_msglen (ex_ifinfo 0) = 14" by code_simp
  then show ?thesis by (simp add: ifinfo_ok_def rtmsgs.msg_ok_def ex_ifinfo_def rtm_msglen_def)
qed

theorem get_next_msg_first_witness:
  "get_next_msg 0 (push_bit 14 1) (concat [[4, 0, 5, 5], ex_ifinfo 4]) = Inr (ex_ifinfo 4, 14)"
proof -
  have "\<forall>m \<in> set [[4, 0, 5, 5], ex_ifinfo 4]. 4 \<le> length m \<and> rtm_msglen m = length m \<and> returns (rtm_match 0 (push_bit 14 1) m)"
    "dropWhile (\<lambda>m. rtm_match 0 (push_bit 14 1) m = Inr False) [[4, 0, 5, 5], ex_ifinfo 4] = [ex_ifinfo 4]"
    by code_simp+
  from get_next_msg_first [OF this(1)] this(2) show ?thesis by (simp add: ex_ifinfo_def)
qed

text \<open>
  C34. From an interface list of the kernel, in which every interface
  message is followed by its address messages and no interface comes twice,
  \<open>init_iflist\<close> collects every interface with its flags, in order.
\<close>

theorem init_iflist_complete:
  assumes "\<forall>g \<in> set gs. ifinfo_ok (fst g) \<and> (\<forall>a \<in> set (snd g). ifam_ok a)"
    "distinct (map (\<lambda>g. ifm_index (ifm_of (fst g))) gs)"
  shows "init_iflist (Some (concat (map (\<lambda>g. fst g @ concat (snd g)) gs))) ifl = Inr (map (\<lambda>g. ifm_of (fst g)) gs)"
proof -
  have gs: "\<forall>g \<in> set gs. group_ok g" using assms(1) by (simp add: group_ok_def)
  with parse_iflist_groups [OF gs group_fuel [OF gs], of "[]"] assms(2) show ?thesis
    unfolding group_bytes_def by (simp add: init_iflist_def parse_iflist_def purge_iflist_def comp_def)
qed

theorem init_iflist_complete_witness:
  "init_iflist (Some (ex_ifinfo 4 @ [4, 0, 5, 12] @ ex_ifinfo 5)) [] =
    Inr [\<lparr>ifm_index = 4, ifm_flags = 1\<rparr>, \<lparr>ifm_index = 5, ifm_flags = 1\<rparr>]"
proof -
  have m: "rtm_msglen [4, 0, 5, 12] = 4" by code_simp
  have i: "ifm_of (ex_ifinfo 4) = \<lparr>ifm_index = 4, ifm_flags = 1\<rparr>" "ifm_of (ex_ifinfo 5) = \<lparr>ifm_index = 5, ifm_flags = 1\<rparr>"
    by code_simp+
  show ?thesis
    using init_iflist_complete [of "[(ex_ifinfo 4, [[4, 0, 5, 12]]), (ex_ifinfo 5, [])]" "[]"]
    by (simp add: ex_ifinfo_ok ifam_ok_def rtmsgs.msg_ok_def m i)
qed

text \<open>
  C39. When the kernel's interface list has a second message for an interface,
  however many interfaces with their addresses precede it and whatever follows,
  \<open>parse_iflist\<close> does not return: the \<open>continue\<close> for an interface already in the list does not
  advance to the next message, whatever number of iterations is allowed.
\<close>

theorem parse_iflist_stuck:
  assumes "\<forall>g \<in> set gs. ifinfo_ok (fst g) \<and> (\<forall>a \<in> set (snd g). ifam_ok a)" "ifinfo_ok m"
    "ifm_index (ifm_of m) \<in> (\<lambda>g. ifm_index (ifm_of (fst g))) ` set gs"
  shows "parse_iflist_loop fuel (concat (map (\<lambda>g. fst g @ concat (snd g)) gs) @ m @ c) ifl = Inl Diverge"
proof -
  have "\<forall>g \<in> set gs. group_ok g" using assms(1) by (simp add: group_ok_def)
  from parse_iflist_repeated [OF this assms(2), of ifl fuel c] show ?thesis
    using assms(3) unfolding group_bytes_def by (simp add: image_Un image_image)
qed

theorem parse_iflist_stuck_witness:
  "parse_iflist_loop 100 (ex_ifinfo 4 @ [4, 0, 5, 12] @ ex_ifinfo 5 @ ex_ifinfo 4) [] = Inl Diverge"
proof -
  have "rtm_msglen [4, 0, 5, 12] = 4" by code_simp
  then show ?thesis
    using parse_iflist_stuck [of "[(ex_ifinfo 4, [[4, 0, 5, 12]]), (ex_ifinfo 5, [])]" "ex_ifinfo 4" 100 "[]" "[]"]
    by (simp add: ex_ifinfo_ok ifam_ok_def rtmsgs.msg_ok_def)
qed

section \<open>Capability entries\<close>

text \<open>
  C32. On an entry whose fields are free of escapes the three accessors of
  capabilities search the fields in order: of the fields that begin with the key the first
  whose continuation has the accessor's form decides, and the default is returned when
  there is none.
\<close>

theorem capability_lookup:
  assumes "CHR '':'' \<notin> set key" "plain nm" "\<forall>f \<in> set fs. plain f"
  shows "tgetnum (entry_buf nm fs junk) key = field_search key num_decide (Inr (-1)) fs \<and>
    tgetflag (entry_buf nm fs junk) key = field_search key flag_decide (Inr False) fs \<and>
    tgetstr (entry_buf nm fs junk) key room = field_search key (str_decide room) (Inr (None, room)) fs"
  by (intro conjI tgetnum_entry [OF assms] tgetflag_entry [OF assms] tgetstr_entry [OF assms])

theorem capability_lookup_witness:
  "tgetnum (entry_buf ''en0'' [''nolladdr'', ''mtu#1400'', ''addr=fe80''] []) ''mtu'' = Inr 1400 \<and>
   tgetflag (entry_buf ''en0'' [''nolladdr'', ''mtu#1400'', ''addr=fe80''] []) ''nolladdr'' = Inr True"
proof -
  let ?fs = "[''nolladdr'', ''mtu#1400'', ''addr=fe80'']"
  have "CHR '':'' \<notin> set ''mtu''" "CHR '':'' \<notin> set ''nolladdr''" "plain ''en0''" "\<forall>f \<in> set ?fs. plain f"
    "field_search ''mtu'' num_decide (Inr (-1)) ?fs = Inr 1400" "field_search ''nolladdr'' flag_decide (Inr False) ?fs = Inr True"
    by code_simp+
  with capability_lookup [of "''mtu''" "''en0''" ?fs "[]"] capability_lookup [of "''nolladdr''" "''en0''" ?fs "[]"]
  show ?thesis by simp
qed

lemma field_search_skip:
  "\<forall>f \<in> set fs. behind key f = None \<Longrightarrow> field_search key d r (fs @ gs) = field_search key d r gs"
  by (induction fs) auto

lemma plain_decimal: "plain (decimal n)"
proof (induction n rule: decimal.induct)
  case (1 n)
  have "plain [char_of (48 + k)]" if "k < 10" for k :: nat
  proof -
    have "\<forall>k \<in> set [0..<10]. plain [char_of (48 + k :: nat)]" by code_simp
    with that show ?thesis by simp
  qed
  with 1 show ?case by (subst decimal.simps) (auto simp: plain_def)
qed

text \<open>
  A number below 2^63 written in decimal into a field of an entry is
  the number \<open>tgetnum\<close> reads from that entry, when no field before it begins with the key.
\<close>

theorem tgetnum_roundtrip:
  assumes "plain key" "plain nm" "\<forall>f \<in> set (fs @ gs). plain f" "\<forall>f \<in> set fs. take (length key) f \<noteq> key" "n < 2 ^ 63"
  shows "tgetnum (entry_buf nm (fs @ (key @ CHR ''#'' # decimal n) # gs) junk) key = Inr (int n)"
proof -
  have "plain (key @ CHR ''#'' # decimal n)"
    using assms(1) plain_decimal [of n] by (auto simp: plain_def)
  then have "tgetnum (entry_buf nm (fs @ (key @ CHR ''#'' # decimal n) # gs) junk) key =
      field_search key num_decide (Inr (-1)) (fs @ (key @ CHR ''#'' # decimal n) # gs)"
    using assms(1-3) by (intro tgetnum_entry) (auto simp: plain_def)
  also have "\<dots> = number (decimal n)"
    using assms(4) by (subst field_search_skip) (auto simp: behind_def num_decide_def split: if_splits)
  finally show ?thesis using number_decimal [OF assms(5)] by simp
qed

theorem tgetnum_roundtrip_witness:
  "tgetnum (entry_buf ''en0'' ([''nolladdr''] @ (''mtu'' @ CHR ''#'' # decimal 1400) # [''raflags#64'']) []) ''mtu'' = Inr (int 1400)"
proof -
  have "plain ''mtu''" "plain ''en0''" "\<forall>f \<in> set ([''nolladdr''] @ [''raflags#64'']). plain f"
    "\<forall>f \<in> set [''nolladdr'']. take (length ''mtu'') f \<noteq> ''mtu''" by code_simp+
  from tgetnum_roundtrip [OF this] show ?thesis by simp
qed

text \<open>
  C33. \<open>tdecode\<close> inverts the escaping of a string value: for every string
  without NUL it gives the string back and takes from the area its length and one byte for
  the terminator; when the area is shorter it writes behind its end.
\<close>

theorem tdecode_roundtrip:
  assumes "NUL \<notin> set v"
  shows "tdecode (pre @ enc_str v @ CHR '':'' # rest) (length pre) room =
    (if room < Suc (length v) then Inl OutOfBounds else Inr (v, room - Suc (length v)))"
  by (rule tdecode_enc [OF assms])

theorem tdecode_roundtrip_witness:
  "tdecode (''a='' @ enc_str ''fe80::1'' @ CHR '':'' # [NUL]) (length ''a='') 64 = Inr (''fe80::1'', 56)"
  using tdecode_roundtrip [of "''fe80::1''" "''a=''" "[NUL]" 64] by simp

text \<open>
  Behind an escape \<open>tskip\<close> takes the next character whatever it is:
  a field that ends with an escaped character is not left at its colon, so the field that
  follows it is never seen.
\<close>

theorem tskip_swallows_colon:
  assumes "plain f" "plain g" "\<not> isdigit c"
  shows "tskip (pre @ f @ BACKSLASH # c # CHR '':'' # g @ CHR '':'' # rest) (length pre) =
    Inr (length pre + length f + length g + 4)"
  by (rule tskip_escape_colon [OF assms])

theorem tskip_swallows_colon_witness:
  "tskip (''x:'' @ ''a=b'' @ BACKSLASH # CHR ''n'' # CHR '':'' # ''mtu#1400'' @ CHR '':'' # [NUL]) (length ''x:'') = Inr 17"
proof -
  have "plain ''a=b''" "plain ''mtu#1400''" "\<not> isdigit CHR ''n''" by code_simp+
  from tskip_swallows_colon [OF this, of "''x:''" "[NUL]"] show ?thesis by simp
qed

end
