(* ===== verification/Safety.thy ===== *)
theory Safety
  imports Events
begin

text \<open>
  Invariants of the event loop. \<open>winv\<close> strengthens \<open>dinv\<close>: an interface whose advertisement
  timer is null is the first of its index on \<open>ralist\<close> and is not up, and router renumbering
  is not accepted (\<open>accept_rr\<close> is zero; no option sets it). Every handler keeps
  \<open>winv\<close>; the callbacks keep it too, so it interprets the contract of the timer queue a
  second time, and it holds in every reachable state.
\<close>

section \<open>Interfaces without a timer are down\<close>

type_synonym rai_key = "nat \<times> int \<times> nat option"

definition rai_key :: "rainfo \<Rightarrow> rai_key" where
  "rai_key rai = (rai_id rai, ifindex rai, rai_timer rai)"

abbreviation rai_keys :: "rtadvd \<Rightarrow> rai_key list" where
  "rai_keys s \<equiv> map rai_key (ralist s)"

definition if_up :: "int \<Rightarrow> if_msghdr list \<Rightarrow> bool" where
  "if_up i ifl \<longleftrightarrow> (\<exists>ifm. find (\<lambda>e. ifm_index e = i) ifl = Some ifm \<and> ifm_flags ifm AND IFF_UP \<noteq> 0)"

definition key_inv :: "rai_key list \<Rightarrow> if_msghdr list \<Rightarrow> bool" where
  "key_inv ks ifl \<longleftrightarrow>
     (\<forall>r i. (r, i, None) \<in> set ks \<longrightarrow> find (\<lambda>k. fst (snd k) = i) ks = Some (r, i, None) \<and> \<not> if_up i ifl)"

definition winv :: "rtadvd \<Rightarrow> bool" where
  "winv s \<longleftrightarrow> dinv s \<and> key_inv (rai_keys s) (ifilist s) \<and> \<not> accept_rr s"

definition same_ifs :: "rtadvd \<Rightarrow> rtadvd \<Rightarrow> bool" where
  "same_ifs s s' \<longleftrightarrow> rai_keys s' = rai_keys s \<and> ifilist s' = ifilist s \<and> accept_rr s' = accept_rr s"

lemma same_ifs_refl [simp]: "same_ifs s s"
  by (simp add: same_ifs_def)

lemma same_ifs_trans: "same_ifs s s' \<Longrightarrow> same_ifs s' s'' \<Longrightarrow> same_ifs s s''"
  by (simp add: same_ifs_def)

lemma winv_same_ifs: "winv s \<Longrightarrow> same_ifs s s' \<Longrightarrow> dinv s' \<Longrightarrow> winv s'"
  by (simp add: winv_def same_ifs_def)

lemma same_ifs_env [simp]:
  "same_ifs s (s\<lparr>gtod_calls := n\<rparr>)" "same_ifs s (s\<lparr>rand_calls := n\<rparr>)" "same_ifs s (s\<lparr>sent := x\<rparr>)"
  "same_ifs s (s\<lparr>next_addr := n\<rparr>)" "same_ifs s (s\<lparr>kflags_calls := n\<rparr>)"
  by (simp_all add: same_ifs_def)

lemma same_ifs_rai_upd:
  assumes "\<And>rai. rai \<in> set (ralist s) \<Longrightarrow> rai_id rai = r \<Longrightarrow> rai_key (f rai) = rai_key rai"
  shows "same_ifs s (rai_upd r f s)"
  using assms by (auto simp: same_ifs_def rai_upd_def)

lemma same_ifs_rai_upd_at:
  assumes "dinv s" "rai_at r s = Some rai" "rai_key (f rai) = rai_key rai"
  shows "same_ifs s (rai_upd r f s)"
proof (rule same_ifs_rai_upd)
  fix x assume "x \<in> set (ralist s)" "rai_id x = r"
  then have "x = rai" using rai_at_Some [OF assms(1)] assms(2) by (metis option.inject)
  with assms(3) show "rai_key (f x) = rai_key x" by simp
qed

section \<open>Callbacks and prefix operations leave the interfaces\<close>

lemma ra_output_ifs:
  assumes inv: "dinv s" and at: "rai_at r s = Some rai" and out: "ra_output r s = Inr s'"
  shows "same_ifs s s'"
proof (cases "\<exists>ifm. get_interface_entry (ifindex rai) s = Some ifm \<and> ifm_flags ifm AND IFF_UP \<noteq> 0")
  case False
  then have "s' = s" using at out by (auto simp: ra_output_def split: option.splits)
  then show ?thesis by simp
next
  case True
  have wf: "rainfo_wf rai" using rai_ok_wf [OF inv at] by simp
  from True obtain b n where s': "s' = rai_upd r (\<lambda>_. after_output (gtod s n) b rai)
      (s\<lparr>sent := sent s @ [(ifindex rai, b)], gtod_calls := Suc n\<rparr>)" (is "_ = rai_upd _ _ ?s")
    using ra_output_eq [OF at wf] out by fastforce
  have "dinv ?s" "rai_at r ?s = Some rai" using inv at by simp_all
  from same_ifs_rai_upd_at [OF this, of "\<lambda>_. after_output (gtod s n) b rai"]
  have "same_ifs ?s s'" unfolding s' by (simp add: rai_key_def)
  moreover have "same_ifs s ?s" by (simp add: same_ifs_def)
  ultimately show ?thesis by (rule same_ifs_trans [rotated])
qed

lemma set_timer_ifs: "rtadvd_set_timer v p (s::rtadvd) = Inr s' \<Longrightarrow> same_ifs s s'"
  by (auto simp: rtadvd_set_timer_def gettimeofday_def Let_def note_head_eq set_tm_def same_ifs_def split: if_splits)

lemma remove_timer_ifs: "rtadvd_remove_timer p (s::rtadvd) = Inr s' \<Longrightarrow> same_ifs s s'"
  by (auto simp: rtadvd_remove_timer_def same_ifs_def split: option.splits if_splits)

lemma set_short_delay_ifs: "set_short_delay r s = Inr s' \<Longrightarrow> same_ifs s s'"
  by (auto simp: set_short_delay_def random_def rtadvd_timer_rest_def gettimeofday_def Let_def res_simps
      split: option.splits dest!: set_timer_ifs) (auto simp: same_ifs_def)

lemma same_ifs_then_upd:
  "same_ifs s s1 \<Longrightarrow> (\<And>rai. rai_key (f rai) = rai_key rai) \<Longrightarrow> same_ifs s (rai_upd r f s1)"
  using same_ifs_trans [OF _ same_ifs_rai_upd] by blast

lemma same_ifs_upd_left:
  assumes "\<And>rai. rai_key (f rai) = rai_key rai"
  shows "same_ifs (rai_upd r f s) s' \<longleftrightarrow> same_ifs s s'"
  using same_ifs_then_upd [of s s f r, OF _ assms] by (simp add: same_ifs_def)

lemma rai_key_upd [simp]:
  "rai_key (rai\<lparr>prefix_list := ps, pfxs := k\<rparr>) = rai_key rai" "rai_key (set_pfx_timer p t rai) = rai_key rai"
  "rai_key (rai\<lparr>initcounter := i\<rparr>) = rai_key rai" "rai_key (rai\<lparr>initcounter := i, waiting := w\<rparr>) = rai_key rai"
  "rai_key (with_data b rai) = rai_key rai" "rai_key (cons_prefix q rai) = rai_key rai"
  "rai_key (rai\<lparr>rainput := n\<rparr>) = rai_key rai" "rai_key (rai\<lparr>rainconsistent := n\<rparr>) = rai_key rai"
  "rai_key (rai\<lparr>rsinput := n, soliciter := ss, waiting := w\<rparr>) = rai_key rai"
  by (simp_all add: rai_key_def set_pfx_timer_def cons_prefix_def)

lemma delete_prefix_ifs: "delete_prefix p s = Inr s' \<Longrightarrow> same_ifs s s'"
  by (auto simp: delete_prefix_def res_simps intro!: same_ifs_then_upd dest: remove_timer_ifs
      split: option.splits if_splits)

lemma update_prefix_ifs: "update_prefix p s = Inr s' \<Longrightarrow> same_ifs s s'"
  by (auto simp: update_prefix_def res_simps intro!: same_ifs_then_upd dest: remove_timer_ifs
      split: option.splits if_splits)

lemma add_timer_ifs: "rtadvd_add_timer e u (s::rtadvd) = Inr (t, s') \<Longrightarrow> same_ifs s s'"
  by (auto simp: rtadvd_add_timer_def Let_def same_ifs_def split: option.splits)

lemma invalidate_prefix_ifs: "invalidate_prefix p s = Inr s' \<Longrightarrow> same_ifs s s'"
  by (auto simp: invalidate_prefix_def res_simps same_ifs_upd_left dest!: set_timer_ifs add_timer_ifs
      split: option.splits if_splits) (simp add: same_ifs_def)

lemma add_prefix_ifs:
  assumes inv: "dinv s" and at: "rai_at r s = Some rai" and ipr: "in6_ok (ipr_prefix ipr)" "ipr_plen ipr \<le> 128"
    and add: "add_prefix r ipr s = Inr s'"
  shows "same_ifs s s'"
proof -
  obtain q b where "ralist s' = ralist (rai_upd r (\<lambda>_. with_data b (cons_prefix q rai)) s)"
    "ifilist s' = ifilist s" "accept_rr s' = accept_rr s"
    using add_prefix_ok [OF inv at ipr] add by auto
  moreover have "same_ifs s (rai_upd r (\<lambda>_. with_data b (cons_prefix q rai)) s)"
    using same_ifs_rai_upd_at [OF inv at] by simp
  ultimately show ?thesis by (simp add: same_ifs_def)
qed

lemma ra_timer_update_ifs: "ra_timer_update r s = Inr (v, s') \<Longrightarrow> same_ifs s s'"
  by (auto simp: ra_timer_update_def random_def Let_def split: option.splits if_splits)

section \<open>The callbacks satisfy the contract with the stronger invariant\<close>

lemma winv_dinv: "winv s \<Longrightarrow> dinv s"
  by (simp add: winv_def)

lemma expire_fn_winv:
  assumes "winv s" "timer_at p s = Some t" "expire_fn (expire t) s = Inr (alive, s')" "dinv s'"
  shows "winv s'"
proof -
  have t: "timer_ok (ralist s) t"
    using assms(1,2) timer_at_Some [of s p t] by (auto simp: winv_def dinv_def)
  have "same_ifs s s'"
  proof (cases "expire t")
    case (Ra_timeout r)
    then obtain rai where "rai_at r s = Some rai" using t rai_at_ex [of r s] by (auto simp: timer_ok_def)
    then show ?thesis
      using assms(3) Ra_timeout ra_output_ifs [OF winv_dinv [OF assms(1)]]
      by (auto simp: ra_timeout_def res_simps split: option.splits)
  next
    case (Prefix_timeout k)
    then show ?thesis using assms(3) by (auto simp: prefix_timeout_def res_simps delete_prefix_ifs)
  qed
  then show ?thesis using winv_same_ifs [OF assms(1)] assms(4) by blast
qed

lemma update_fn_winv:
  assumes "winv s" "update_fn u s = Inr (v, s')" "dinv s'"
  shows "winv s'"
  using assms winv_same_ifs ra_timer_update_ifs by (cases u) auto

lemma winv_queue [simp]:
  "winv (s\<lparr>gtod_calls := n\<rparr>) = winv s" "winv (s\<lparr>timer_head_tm := v\<rparr>) = winv s"
  "winv (s\<lparr>rand_calls := n\<rparr>) = winv s" "winv (s\<lparr>kflags_calls := n\<rparr>) = winv s"
  by (simp_all add: winv_def)

lemma winv_set_tm: "winv s \<Longrightarrow> tv_time v \<Longrightarrow> winv (set_tm p v s)"
  using dinv_set_tm [of s v p] by (simp add: winv_def set_tm_def)

interpretation rtw: timer_callbacks expire_fn update_fn winv
proof (unfold_locales, goal_cases)
  case (7 s p t)
  then show ?case using expire_fn_ok [OF winv_dinv [OF 7(1)] 7(2)] expire_fn_winv by blast
next
  case (8 s p t u)
  then show ?case using update_fn_ok [OF winv_dinv [OF 8(1)] 8(2,3)] update_fn_winv by blast
qed (simp_all add: winv_set_tm, auto simp: winv_def dinv_def timer_ok_def)

section \<open>Starting and stopping the timer of an interface\<close>

lemma dinv_ra_relink:
  fixes v :: "nat option"
  assumes inv: "dinv s" and at: "rai_at r s = Some rai" and dt: "distinct (map tid ts)"
    and nodes: "\<And>t. t \<in> set ts \<Longrightarrow> tid t < n \<and> timer_ok (ralist s) t"
    and keep: "\<And>q e. armed (timer_list s) q e \<Longrightarrow> e \<noteq> Ra_timeout r \<Longrightarrow> armed ts q e"
    and new: "armed ts v (Ra_timeout r)"
  shows "dinv (rai_upd r (\<lambda>rai. rai\<lparr>rai_timer := v\<rparr>) (s\<lparr>timer_list := ts, timer_next_id := n\<rparr>))"
    (is "dinv ?s'")
proof -
  define g where "g x = (if rai_id x = r then x\<lparr>rai_timer := v\<rparr> else x)" for x :: rainfo
  have ras: "ralist ?s' = map g (ralist s)" by (simp add: rai_upd_def g_def)
  have ids: "map rai_id (map g (ralist s)) = map rai_id (ralist s)" by (simp add: g_def)
  have idset: "rai_id ` set (map g (ralist s)) = rai_id ` set (ralist s)" using ids by (metis list.set_map)
  have pfx: "map prefix_list (map g (ralist s)) = map prefix_list (ralist s)" by (simp add: g_def)
  have tok: "timer_ok (map g (ralist s)) t = timer_ok (ralist s) t" for t
    unfolding timer_ok_def idset pfx ..
  have rok: "rai_ok ts x" if "x \<in> set (map g (ralist s))" for x
  proof -
    from that obtain y where y: "y \<in> set (ralist s)" "x = g y" by auto
    have yok: "rai_ok (timer_list s) y" using inv y(1) by (simp add: dinv_def)
    then have "\<forall>pp \<in> set (prefix_list y). armed ts (pfx_timer pp) (Prefix_timeout (pfx_id pp))"
      using keep by (simp add: rai_ok_def)
    with yok show ?thesis
      using new keep [of "rai_timer y" "Ra_timeout (rai_id y)"] unfolding y(2) g_def
      by (cases "rai_id y = r") (simp_all add: rai_ok_def)
  qed
  show ?thesis
    using inv dt nodes rok unfolding dinv_def ras ids pfx tok rai_upd_simps by simp
qed

lemma stop_ra_timer_ok:
  assumes inv: "dinv s" and at: "rai_at r s = Some rai" and p: "rai_timer rai = Some p"
  shows "\<exists>s'. stop_ra_timer r s = Inr s' \<and> dinv s' \<and> ifilist s' = ifilist s \<and> accept_rr s' = accept_rr s \<and>
    ralist s' = ralist (rai_upd r (\<lambda>rai. rai\<lparr>rai_timer := None\<rparr>) s)"
proof -
  let ?ts = "filter (\<lambda>t. tid t \<noteq> p) (timer_list s)"
  let ?s = "rai_upd r (\<lambda>rai. rai\<lparr>rai_timer := None\<rparr>) (s\<lparr>timer_list := ?ts, timer_next_id := timer_next_id s\<rparr>)"
  have dt: "distinct (timer_ids s)" using inv by (simp add: dinv_def)
  have ts: "filter (\<lambda>t. Some p \<noteq> Some (tid t)) (timer_list s) = ?ts" by (rule filter_cong) auto
  have ar: "armed (timer_list s) (Some p) (Ra_timeout r)"
    using rai_ok_wf [OF inv at] p by (auto simp: rai_ok_def)
  have "dinv ?s"
  proof (rule dinv_ra_relink [OF inv at])
    show "distinct (map tid ?ts)" using dt by (simp add: distinct_map_filter)
    show "tid t < timer_next_id s \<and> timer_ok (ralist s) t" if "t \<in> set ?ts" for t
      using that inv by (auto simp: dinv_def)
    show "armed ?ts q e" if "armed (timer_list s) q e" "e \<noteq> Ra_timeout r" for q e
      using armed_drop [OF dt ar that(2,1)] unfolding ts .
    show "armed ?ts None (Ra_timeout r)" by (simp add: armed_def)
  qed
  moreover have "timer_at p s \<noteq> None"
    using ar timer_at_None [of p s] by (auto simp: armed_def)
  ultimately show ?thesis
    using at p by (simp add: stop_ra_timer_def rtadvd_remove_timer_def rai_upd_def)
qed

lemma start_ra_timer_ok:
  assumes inv: "dinv s" and at: "rai_at r s = Some rai"
  shows "\<exists>s' k. start_ra_timer r s = Inr s' \<and> dinv s' \<and> ifilist s' = ifilist s \<and> accept_rr s' = accept_rr s \<and>
    ralist s' = ralist (rai_upd r (\<lambda>rai. rai\<lparr>initcounter := 0, waiting := 0, rai_timer := Some k\<rparr>) s) \<and>
    (\<exists>t. timer_at k s' = Some t \<and> tm t = gtod s (gtod_calls s) \<and> expire t = Ra_timeout r)"
proof -
  define s1 where "s1 = rai_upd r (\<lambda>rai. rai\<lparr>initcounter := 0, waiting := 0\<rparr>) s"
  let ?k = "timer_next_id s1"
  define T where "T = TIMEVAL_ADD (gtod s1 (gtod_calls s1)) (Timeval 0 0)"
  define t0 :: "timeval \<Rightarrow> timer_node" where
    "t0 v = \<lparr>tid = ?k, tm = v, expire = Ra_timeout r, update = Some (Ra_timer_update r)\<rparr>" for v
  let ?s = "\<lambda>v. rai_upd r (\<lambda>rai. rai\<lparr>rai_timer := Some ?k\<rparr>) (s1\<lparr>timer_list := t0 v # timer_list s1, timer_next_id := Suc ?k\<rparr>)"
  have d1: "dinv s1" unfolding s1_def by (rule dinv_counter [OF inv]) (simp_all add: rai_ok_def)
  have id: "rai_id rai = r" "mininterval rai < maxinterval rai"
    using rai_ok_wf [OF inv at] by (auto simp: rai_ok_def)
  have at1: "rai_at r s1 = Some (rai\<lparr>initcounter := 0, waiting := 0\<rparr>)"
    unfolding s1_def using rai_at_upd [OF _ at, of "\<lambda>rai. rai\<lparr>initcounter := 0, waiting := 0\<rparr>"] id by simp
  have lt: "\<forall>t \<in> set (timer_list s1). tid t < ?k" using d1 by (simp add: dinv_def)
  have tvn: "tv_time (gtod s1 n)" for n using d1 by (simp add: dinv_def)
  then have T: "tv_time T" unfolding T_def by (intro tv_time_add) (auto simp: tv_time_def)
  have Teq: "T = gtod s (gtod_calls s)"
  proof -
    have "tv_ok (gtod s (gtod_calls s))" using inv tv_timeD by (auto simp: dinv_def)
    then show ?thesis
      by (cases "gtod s (gtod_calls s)") (simp add: T_def s1_def TIMEVAL_ADD_def Let_def)
  qed
  have r: "r \<in> rai_id ` set (ralist s1)" using at1 rai_at_Some [OF d1] by (metis imageI)
  have d: "dinv (?s T)"
  proof (rule dinv_ra_relink [OF d1 at1])
    show "distinct (map tid (t0 T # timer_list s1))" using d1 lt by (auto simp: dinv_def t0_def)
    show "tid t < Suc ?k \<and> timer_ok (ralist s1) t" if "t \<in> set (t0 T # timer_list s1)" for t
      using that lt T r d1 by (auto simp: t0_def timer_ok_def dinv_def intro: less_SucI)
    show "armed (t0 T # timer_list s1) q e" if "armed (timer_list s1) q e" for q e
      using that by (auto simp: armed_def)
    show "armed (t0 T # timer_list s1) (Some ?k) (Ra_timeout r)" by (simp add: armed_def t0_def)
  qed
  define rai2 where "rai2 = rai\<lparr>initcounter := 0, waiting := 0, rai_timer := Some ?k\<rparr>"
  have "rai_at r (s1\<lparr>timer_list := t0 tm_max # timer_list s1, timer_next_id := Suc ?k\<rparr>) = Some (rai\<lparr>initcounter := 0, waiting := 0\<rparr>)"
    using at1 by (simp add: rai_at_def)
  from rai_at_upd [OF _ this, of "\<lambda>rai. rai\<lparr>rai_timer := Some ?k\<rparr>"] id(1)
  have at2: "rai_at r (?s tm_max) = Some rai2" by (simp add: rai2_def)
  have up: "ra_timer_update r (?s tm_max) = Inr (Timeval 0 0, (?s tm_max)\<lparr>rand_calls := Suc (rand_calls (?s tm_max))\<rparr>)"
    using ra_timer_update_eq [OF at2] id(2) by (simp add: rai2_def Let_def)
  let ?s3 = "(?s tm_max)\<lparr>rand_calls := Suc (rand_calls (?s tm_max))\<rparr>"
  define s' where "s' = note_head T ((?s T)\<lparr>rand_calls := Suc (rand_calls (?s tm_max)), gtod_calls := Suc (gtod_calls s1)\<rparr>)"
  have l3: "timer_list (set_tm ?k (Timeval 0 0) ?s3) = t0 (Timeval 0 0) # timer_list s1"
    using lt by (auto simp: set_tm_def t0_def intro!: map_idI)
  have st: "rtadvd_set_timer (Timeval 0 0) ?k (set_tm ?k (Timeval 0 0) ?s3) = Inr s'"
    using lt by (subst set_timer_new [OF l3])
      (auto simp: t0_def T_def s'_def Let_def set_tm_def rai_upd_def
        intro!: arg_cong [where f = "note_head _"] rtadvd.equality)
  have "start_ra_timer r s = Inr s'"
    unfolding start_ra_timer_def s1_def [symmetric]
    using up st by (simp add: rtadvd_add_timer_def Let_def t0_def)
  moreover have "dinv s'" using d by (simp add: s'_def note_head_eq)
  moreover have "ralist s' = ralist (rai_upd r (\<lambda>rai. rai\<lparr>initcounter := 0, waiting := 0, rai_timer := Some ?k\<rparr>) s)"
    "ifilist s' = ifilist s" "accept_rr s' = accept_rr s"
    by (simp_all add: s'_def note_head_eq s1_def rai_upd_def)
  moreover have "timer_at ?k s' = Some (t0 T)"
    by (simp add: s'_def timer_at_def t0_def)
  ultimately show ?thesis using Teq by (auto simp: t0_def)
qed

section \<open>Routing messages keep the invariant\<close>

lemma find_mem: "find P xs = Some x \<Longrightarrow> x \<in> set xs"
  by (induction xs) (auto split: if_splits)

lemma find_set_ifm_flags:
  "find (\<lambda>e. ifm_index e = j) (set_ifm_flags i fl ifl) =
     (if j = i then map_option (\<lambda>e. e\<lparr>ifm_flags := fl\<rparr>) (find (\<lambda>e. ifm_index e = i) ifl)
      else find (\<lambda>e. ifm_index e = j) ifl)"
  by (induction ifl) auto

lemma if_up_set_ifm_flags:
  "if_up j (set_ifm_flags i fl ifl) \<longleftrightarrow>
     (if j = i then find (\<lambda>e. ifm_index e = i) ifl \<noteq> None \<and> fl AND IFF_UP \<noteq> 0 else if_up j ifl)"
  by (auto simp: if_up_def find_set_ifm_flags)

definition set_key :: "nat \<Rightarrow> nat option \<Rightarrow> rai_key \<Rightarrow> rai_key" where
  "set_key r v k = (if fst k = r then (fst k, fst (snd k), v) else k)"

lemma find_map_index:
  assumes "\<And>k. fst (snd (g k)) = fst (snd k)"
  shows "find (\<lambda>k. fst (snd k) = i) (map g ks) = map_option g (find (\<lambda>k. fst (snd k) = i) (ks :: rai_key list))"
  using assms by (induction ks) auto

lemma key_inv_flags:
  assumes inv: "key_inv ks ifl" and first: "find (\<lambda>k. fst (snd k) = idx) ks = Some (r, idx, t)"
    and dist: "distinct (map fst ks)" and new: "fl AND IFF_UP \<noteq> 0 \<Longrightarrow> v \<noteq> None"
  shows "key_inv (map (set_key r v) ks) (set_ifm_flags idx fl ifl)"
  unfolding key_inv_def
proof (intro allI impI)
  fix r' i' assume "(r', i', None) \<in> set (map (set_key r v) ks)"
  then obtain k where k: "k \<in> set ks" "(r', i', None) = set_key r v k" by auto
  have rk: "(r, idx, t) \<in> set ks" using find_mem [OF first] .
  have fm: "find (\<lambda>k. fst (snd k) = j) (map (set_key r v) ks) =
      map_option (set_key r v) (find (\<lambda>k. fst (snd k) = j) ks)" for j
    by (rule find_map_index) (simp add: set_key_def)
  show "find (\<lambda>k. fst (snd k) = i') (map (set_key r v) ks) = Some (r', i', None) \<and>
      \<not> if_up i' (set_ifm_flags idx fl ifl)"
  proof (cases "fst k = r")
    case True
    then have "k = (r, idx, t)" using k(1) rk dist by (auto simp: distinct_map inj_on_def)
    then have "r' = r" "i' = idx" "v = None" using k(2) by (auto simp: set_key_def)
    then show ?thesis using fm [of idx] first new by (auto simp: set_key_def if_up_set_ifm_flags)
  next
    case False
    then have k': "k = (r', i', None)" "r' \<noteq> r" using k(2) by (auto simp: set_key_def)
    then have "find (\<lambda>k. fst (snd k) = i') ks = Some (r', i', None)" "\<not> if_up i' ifl"
      using inv k(1) by (auto simp: key_inv_def)
    moreover from this(1) have "i' \<noteq> idx" using first k'(2) by auto
    ultimately show ?thesis using k'(2) by (simp add: fm set_key_def if_up_set_ifm_flags)
  qed
qed

lemma rai_keys_timer: "rai_keys (rai_upd r (\<lambda>rai. rai\<lparr>rai_timer := v\<rparr>) s) = map (set_key r v) (rai_keys s)"
  "rai_keys (rai_upd r (\<lambda>rai. rai\<lparr>initcounter := a, waiting := w, rai_timer := v\<rparr>) s) = map (set_key r v) (rai_keys s)"
  by (simp_all add: rai_upd_def rai_key_def set_key_def)

lemma find_rai_key:
  "if_indextorainfo i s = Some rai \<Longrightarrow> find (\<lambda>k. fst (snd k) = i) (rai_keys s) = Some (rai_key rai)"
proof -
  have "find (\<lambda>k. fst (snd k) = i) (map rai_key xs) = map_option rai_key (find (\<lambda>rai. ifindex rai = i) xs)" for xs
    by (induction xs) (auto simp: rai_key_def)
  then show "if_indextorainfo i s = Some rai \<Longrightarrow> ?thesis" by (simp add: if_indextorainfo_def)
qed

lemma key_at:
  assumes "dinv s" "(r, i, t) \<in> set (rai_keys s)"
  shows "\<exists>rai. rai_at r s = Some rai \<and> ifindex rai = i \<and> rai_timer rai = t"
proof -
  from assms(2) obtain rai where "rai \<in> set (ralist s)" "rai_key rai = (r, i, t)" by auto
  then show ?thesis using rai_at_Some [OF assms(1), of r rai] by (auto simp: rai_key_def)
qed

lemma set_key_id: "distinct (map fst ks) \<Longrightarrow> (r, i, t) \<in> set ks \<Longrightarrow> map (set_key r t) ks = ks"
  by (intro map_idI) (fastforce simp: set_key_def distinct_map inj_on_def)

lemma flags_changed_ok:
  assumes d: "dinv s" and keys: "key_inv (rai_keys s) ifl" and rr: "\<not> accept_rr s"
    and first: "find (\<lambda>k. fst (snd k) = idx) (rai_keys s) = Some (r, idx, t)"
    and ifm: "find (\<lambda>e. ifm_index e = idx) ifl = Some ifm" and new: "ifilist s = set_ifm_flags idx fl ifl"
  shows "\<exists>s'. flags_changed r (ifm_flags ifm) fl c s = Inr s' \<and> winv s'"
proof -
  have "(r, idx, t) \<in> set (rai_keys s)" using find_mem [OF first] .
  then obtain rai where at: "rai_at r s = Some rai" "ifindex rai = idx" "rai_timer rai = t"
    and mem: "(r, idx, t) \<in> set (rai_keys s)"
    using key_at [OF d] by blast
  have dist: "distinct (map fst (rai_keys s))"
    using d by (simp add: dinv_def rai_key_def comp_def)
  have inv: "key_inv (map (set_key r v) (rai_keys s)) (ifilist s)" if "fl AND IFF_UP \<noteq> 0 \<Longrightarrow> v \<noteq> None" for v
    unfolding new using key_inv_flags [OF keys first dist that] .
  have up: "t \<noteq> None" if "ifm_flags ifm AND IFF_UP \<noteq> 0"
  proof
    assume "t = None"
    then have "\<not> if_up idx ifl" using keys mem unfolding key_inv_def by blast
    with that ifm show False by (simp add: if_up_def)
  qed
  consider (down) "ifm_flags ifm AND IFF_UP \<noteq> 0" "fl AND IFF_UP = 0"
    | (up) "ifm_flags ifm AND IFF_UP = 0" "fl AND IFF_UP \<noteq> 0"
    | (same) "(ifm_flags ifm AND IFF_UP = 0) = (fl AND IFF_UP = 0)" by blast
  then show ?thesis
  proof cases
    case down
    then obtain p where "rai_timer rai = Some p" using up at(3) by auto
    from stop_ra_timer_ok [OF d at(1) this] down rr inv [of None] show ?thesis
      by (auto simp: flags_changed_def winv_def rai_keys_timer)
  next
    case up
    from start_ra_timer_ok [OF d at(1)] up rr inv show ?thesis
      by (auto simp: flags_changed_def winv_def rai_keys_timer)
  next
    case same
    have "key_inv (map (set_key r t) (rai_keys s)) (ifilist s)" using inv up same by blast
    then have w: "winv s" unfolding set_key_id [OF dist mem] using d rr by (simp add: winv_def)
    let ?s = "rai_upd r (\<lambda>rai. rai\<lparr>initcounter := 0\<rparr>) s"
    have d': "dinv ?s" by (rule dinv_counter [OF d]) (simp_all add: rai_ok_def)
    have "same_ifs s ?s" by (rule same_ifs_rai_upd) simp
    then have w': "winv ?s" using winv_same_ifs [OF w _ d'] by simp
    have "rai_at r ?s = Some (rai\<lparr>initcounter := 0\<rparr>)"
      using rai_at_upd [OF _ at(1), of "\<lambda>rai. rai\<lparr>initcounter := 0\<rparr>"] rai_ok_wf [OF d at(1)] by simp
    from set_short_delay_ok [OF d' this] obtain s' where "set_short_delay r ?s = Inr s'" "dinv s'" by blast
    then have "set_short_delay r ?s = Inr s' \<and> winv s'"
      using winv_same_ifs [OF w' set_short_delay_ifs] by blast
    with w same show ?thesis by (auto simp: flags_changed_def)
  qed
qed

text \<open>
  Reading a message stops for three reasons only: a load past the end of the buffer, an
  address the message does not have, and a type too large for the shift of the filter.
\<close>

definition parse_stops :: "stop set" where
  "parse_stops = {OutOfBounds, NullDeref, BadShift}"

abbreviation reads :: "'a result \<Rightarrow> bool" where
  "reads \<equiv> safe_r (\<lambda>_. True) parse_stops"

lemma reads_bind: "reads m \<Longrightarrow> (\<And>x. reads (f x)) \<Longrightarrow> reads (bind_r m f)"
  by (rule safe_r_bind)

lemma reads_loads [simp]: "reads (bytes_at b i n)" "reads (ld8 b i)" "reads (ld16 b i)" "reads (ld32 b i)"
  by (auto simp: bytes_at_def ld8_def ld16_def ld32_def parse_stops_def intro!: reads_bind)

lemma reads_rtaddrs [simp]: "reads (get_rtaddrs addrs sa)"
proof -
  have "reads (rtaddrs_loop is addrs sa)" for "is"
    by (induction "is" arbitrary: sa) (auto simp: NEXT_SA_def intro!: reads_bind)
  then show ?thesis by (simp add: get_rtaddrs_def)
qed

lemma reads_rtm_addr: "reads (rtm_addr i rtm)"
  by (auto simp: rtm_addr_def parse_stops_def [symmetric] intro!: reads_bind split: option.split)
    (simp add: parse_stops_def)

lemma reads_fields [simp]:
  "reads (rtmsg_type b)" "reads (get_addr b)" "reads (get_prefixlen b)" "reads (get_ifm_flags b)"
  "reads (rtmsg_ifindex typ b)"
  by (auto simp: rtmsg_type_def get_addr_def get_prefixlen_def get_ifm_flags_def rtmsg_ifindex_def
      get_rtm_ifindex_def get_ifam_ifindex_def get_ifm_ifindex_def intro!: reads_bind reads_rtm_addr)

lemma reads_match: "reads (rtm_match idx flt b)"
  by (auto simp: rtm_match_def rtm_route_match_def route_checks_def ifam_match_def ifam_checks_def sin6_local_def
      intro!: reads_bind split: option.split) (simp_all add: parse_stops_def)

lemma reads_get_next_msg: "reads (get_next_msg idx flt b)"
proof (induction idx flt b rule: get_next_msg.induct)
  case (1 idx flt b)
  have "e \<in> parse_stops" if "ld16 b 0 = Inl e \<or> rtm_match idx flt b = Inl e" for e
    using that reads_loads(3) reads_match by (metis safe_r_simps(2))
  with 1 show ?case by (subst get_next_msg.simps) (auto split: sum.split)
qed

text \<open>The stops of one pass: besides those of reading, only \<open>exit\<close>.\<close>

definition pass_stops :: "stop set" where
  "pass_stops = insert (Exit 0) (insert (Exit 1) parse_stops)"

lemma reads_pass: "reads r \<Longrightarrow> safe_r (\<lambda>_. True) pass_stops r"
  by (erule safe_r_mono) (auto simp: pass_stops_def)

lemmas safe_r_field = reads_fields [THEN reads_pass, THEN safe_r_bind]

lemma find_prefix_mem: "find_prefix rai a n = Some pp \<Longrightarrow> pp \<in> set (prefix_list rai)"
  unfolding find_prefix_def by (rule find_mem)

lemma get_addr_ok: "get_addr b = Inr a \<Longrightarrow> in6_ok a"
  by (auto simp: get_addr_def bytes_at_def res_simps in6_ok_def split: if_splits)

lemma make_prefix_safe:
  assumes "dinv s" "rai_at r s = Some rai" "in6_ok a" "n \<le> 128"
  shows "safe_r (\<lambda>s'. dinv s' \<and> same_ifs s s') pass_stops (make_prefix r idx a n s)"
proof -
  define ipr where "ipr = init_prefix \<lparr>ipr_prefix = a, ipr_plen = n mod 256, ipr_vltime = 0, ipr_pltime = 0,
    ipr_raf_onlink = 0, ipr_raf_auto = 0\<rparr>"
  have "in6_ok (ipr_prefix ipr)" "ipr_plen ipr \<le> 128" using assms(3,4) by (simp_all add: ipr_def init_prefix_def)
  then show ?thesis
    using add_prefix_ok [OF assms(1,2)] add_prefix_ifs [OF assms(1,2)]
    unfolding make_prefix_def ipr_def Let_def by (fastforce simp: pass_stops_def)
qed

lemma rtm_add_safe:
  assumes inv: "dinv s" and at: "rai_at (rai_id rai) s = Some rai"
  shows "safe_r (\<lambda>(c, s'). dinv s' \<and> same_ifs s s') pass_stops (rtm_add rai idx msg s)"
proof -
  have mem: "rai \<in> set (ralist s)" using rai_at_Some [OF inv] at by blast
  have upd: "safe_r (\<lambda>s'. dinv s' \<and> same_ifs s s') pass_stops (update_prefix (pfx_id pp) s)"
    if "pp \<in> set (prefix_list rai)" "pfx_timer pp \<noteq> None" for pp
    using that update_prefix_ok [OF inv mem that(1)] update_prefix_ifs by (auto intro!: safe_r_ex)
  show ?thesis
    unfolding rtm_add_def
    by (auto simp: inv nat_le_iff intro!: safe_r_field safe_r_bind [OF upd]
        safe_r_bind [OF make_prefix_safe [OF inv at]] find_prefix_mem get_addr_ok split: option.split)
qed

lemma rtm_delete_safe:
  assumes inv: "dinv s" and at: "rai_at (rai_id rai) s = Some rai"
  shows "safe_r (\<lambda>(c, s'). dinv s' \<and> same_ifs s s') pass_stops (rtm_delete rai msg s)"
proof -
  have mem: "rai \<in> set (ralist s)" using rai_at_Some [OF inv] at by blast
  have iv: "safe_r (\<lambda>s'. dinv s' \<and> same_ifs s s') pass_stops (invalidate_prefix (pfx_id pp) s)"
    if "pp \<in> set (prefix_list rai)" for pp
    using that invalidate_prefix_ok [OF inv mem that] invalidate_prefix_twice [OF inv mem that] invalidate_prefix_ifs
    by (cases "pfx_timer pp") (auto simp: pass_stops_def)
  show ?thesis
    unfolding rtm_delete_def
    by (auto simp: inv intro!: safe_r_field safe_r_bind [OF iv]
        find_prefix_mem split: option.split)
qed

lemma if_getflags_state: "snd (if_getflags fl s) = s\<lparr>kflags_calls := Suc (kflags_calls s)\<rparr>"
  by (simp add: if_getflags_def)

lemma rtmsg_switch_safe:
  assumes w: "winv s" and at: "rai_at (rai_id rai) s = Some rai"
  shows "safe_r (\<lambda>(fl, c, s'). dinv s' \<and> rai_keys s' = rai_keys s \<and> \<not> accept_rr s' \<and>
      ifilist s' = set_ifm_flags idx fl (ifilist s)) pass_stops
    (rtmsg_switch typ rai idx oldifflags msg nxt s)"
proof -
  obtain fl s1 where rl: "reload_flags idx oldifflags s = (fl, s1)" by force
  then have s1: "s1 = s\<lparr>kflags_calls := Suc (kflags_calls s), ifilist := set_ifm_flags idx fl (ifilist s)\<rparr>"
    by (auto simp: reload_flags_def Let_def if_getflags_def split: prod.splits)
  have d1: "dinv s1" and a1: "rai_at (rai_id rai) s1 = Some rai"
    using w at by (simp_all add: s1 winv_def rai_at_def)
  have post: "dinv s' \<and> rai_keys s' = rai_keys s \<and> \<not> accept_rr s' \<and> ifilist s' = set_ifm_flags idx fl (ifilist s)"
    if "dinv s' \<and> same_ifs s1 s'" for s'
    using that w by (simp add: s1 same_ifs_def winv_def)
  have add: "safe_r (\<lambda>x. dinv (snd x) \<and> same_ifs s1 (snd x)) pass_stops (rtm_add rai idx msg s1)"
    and del: "safe_r (\<lambda>x. dinv (snd x) \<and> same_ifs s1 (snd x)) pass_stops (rtm_delete rai msg s1)"
    using rtm_add_safe [OF d1 a1] rtm_delete_safe [OF d1 a1] by (simp_all add: case_prod_unfold)
  consider "typ = RTM_IFINFO" | "typ = RTM_ADD" | "typ = RTM_DELETE"
    | "typ \<noteq> RTM_IFINFO" "typ \<noteq> RTM_ADD" "typ \<noteq> RTM_DELETE" by blast
  then show ?thesis
  proof cases
    case 1
    then show ?thesis using w
      by (auto simp: rtmsg_switch_def winv_def intro!: safe_r_field)
  next
    case 2
    then show ?thesis
      by (auto simp: rtmsg_switch_def rl intro!: safe_r_bind [OF add] dest!: post)
  next
    case 3
    then show ?thesis
      by (auto simp: rtmsg_switch_def rl intro!: safe_r_bind [OF del] dest!: post)
  next
    case 4
    then show ?thesis using post [of s1] d1 by (simp add: rtmsg_switch_def rl)
  qed
qed

lemma rtmsg_step_safe:
  assumes w: "winv s"
  shows "safe_r (\<lambda>x. winv (snd x)) pass_stops (rtmsg_step msg nxt c s)"
proof -
  have body: "safe_r (\<lambda>x. winv (snd x)) pass_stops
      (bind_r (rtmsg_switch ty rai idx (ifm_flags ifm) msg nxt s) (\<lambda>(fl, c', s1).
         bind_r (flags_changed (rai_id rai) (ifm_flags ifm) fl (c \<or> c') s1) (\<lambda>s2. Inr (c \<or> c', s2))))"
    if rai: "if_indextorainfo idx s = Some rai" and ifm: "get_interface_entry idx s = Some ifm" for ty rai idx ifm
  proof (rule safe_r_bind [OF rtmsg_switch_safe [OF w]], safe)
    show "rai_at (rai_id rai) s = Some rai" using if_indextorainfo_at [OF winv_dinv [OF w] rai] by simp
    fix fl c' s1
    assume s1: "dinv s1" "rai_keys s1 = rai_keys s" "\<not> accept_rr s1" "ifilist s1 = set_ifm_flags idx fl (ifilist s)"
    have "ifindex rai = idx" using if_indextorainfo_at [OF winv_dinv [OF w] rai] by simp
    then have first: "find (\<lambda>k. fst (snd k) = idx) (rai_keys s1) = Some (rai_id rai, idx, rai_timer rai)"
      using find_rai_key [OF rai] s1(2) by (simp add: rai_key_def)
    have "find (\<lambda>e. ifm_index e = idx) (ifilist s) = Some ifm" using ifm by (simp add: get_interface_entry_def)
    from flags_changed_ok [OF s1(1) _ s1(3) first this s1(4), of "c \<or> c'"] w s1(2)
    show "safe_r (\<lambda>x. winv (snd x)) pass_stops
        (bind_r (flags_changed (rai_id rai) (ifm_flags ifm) fl (c \<or> c') s1) (\<lambda>s2. Inr (c \<or> c', s2)))"
      by (auto simp: winv_def)
  qed
  show ?thesis
    unfolding rtmsg_step_def Let_def
    by (intro safe_r_field) (auto simp: w intro: body split: option.split)
qed

lemma rtmsg_loop_safe: "winv s \<Longrightarrow> safe_r winv pass_stops (rtmsg_loop msg nxt c s)"
proof (induction msg nxt c s rule: rtmsg_loop.induct)
  case loop: (1 msg nxt c s)
  show ?case
  proof (subst rtmsg_loop.simps, cases "nxt = []")
    case False
    have "safe_r winv pass_stops (bind_r (rtmsg_step msg n c s) (\<lambda>(c', s'). rtmsg_loop msg (drop k n) c' s'))"
      if g: "get_next_msg 0 rtmsg_filter nxt = Inr (n, k)" "k \<noteq> 0" for n k
      by (rule safe_r_bind [OF rtmsg_step_safe [OF loop(2)]]) (use loop(1) [OF False g(1) refl g(2)] in force)
    with False loop(2) show "safe_r winv pass_stops (if nxt = [] then Inr s
        else bind_r (get_next_msg 0 rtmsg_filter nxt) (\<lambda>(n, k). if k = 0 then Inr s
          else bind_r (rtmsg_step msg n c s) (\<lambda>(c', s'). rtmsg_loop msg (drop k n) c' s')))"
      by (auto intro!: safe_r_bind [OF reads_pass [OF reads_get_next_msg]])
  qed (simp add: loop)
qed

end
