(* ===== verification/Mainloop.thy ===== *)
theory Mainloop
  imports Safety
begin

text \<open>
  The loop of \<open>main\<close> (\<open>src/rtadvd.tproj/rtadvd.c\<close>): every pass keeps \<open>winv\<close> and stops only by
  \<open>exit\<close> or while it reads a malformed routing message or compares the flags of an
  advertisement; \<open>die\<close> sends one last advertisement, of lifetime zero, on every interface
  that is up. The invariant follows for every reachable state.
\<close>

section \<open>ICMPv6 packets keep the invariant\<close>

lemma rs_input_ifs: "rs_input rs i from s = Inr s' \<Longrightarrow> same_ifs s s'"
  by (auto simp: rs_input_def Let_def same_ifs_upd_left split: option.splits if_splits
      dest!: set_short_delay_ifs intro!: same_ifs_then_upd)

lemma rs_input_winv:
  assumes "winv s"
  shows "\<exists>s'. rs_input rs i from s = Inr s' \<and> winv s'"
  using rs_input_ok [OF winv_dinv [OF assms], of rs i "from"] winv_same_ifs [OF assms rs_input_ifs] by blast

lemma reads_flag_check: "reads (flag_check b flg)"
  by (auto simp: flag_check_def on_off_def parse_stops_def)

lemma winv_counter:
  assumes "winv s" "\<And>rai. rai_key (f rai) = rai_key rai"
    and "\<And>rai. rai_ok (timer_list s) rai \<Longrightarrow> rai_ok (timer_list s) (f rai)"
    and "\<And>rai. prefix_list (f rai) = prefix_list rai"
  shows "winv (rai_upd r f s)"
proof (rule winv_same_ifs [OF assms(1)])
  show "same_ifs s (rai_upd r f s)" by (rule same_ifs_then_upd) (simp_all add: assms(2))
  have "rai_id (f rai) = rai_id rai" for rai using assms(2) by (simp add: rai_key_def)
  then show "dinv (rai_upd r f s)" using dinv_counter [OF winv_dinv [OF assms(1)]] assms(3,4) by blast
qed

lemma ra_input_safe:
  assumes w: "winv s"
  shows "safe_r winv pass_stops (ra_input ra i s)"
proof -
  have upd: "winv (rai_upd r (\<lambda>rai. rai\<lparr>rainput := Suc (rainput rai)\<rparr>) s)"
    "winv s' \<Longrightarrow> winv (rai_upd r (\<lambda>rai. rai\<lparr>rainconsistent := Suc (rainconsistent rai)\<rparr>) s')" for r s'
    by (rule winv_counter; simp add: w)+
  have checks: "winv (snd (prefix_checks ps rai s1))" if "winv s1" for ps rai s1
    using prefix_checks_state [of ps rai s1] that by auto
  show ?thesis
    unfolding ra_input_def Let_def case_prod_unfold
    by (auto simp: w upd checks simp del: prefix_checks.simps split: option.split
        intro!: safe_r_bind [OF reads_pass [OF reads_flag_check]])
qed

lemma rtadvd_input_safe:
  assumes w: "winv s"
  shows "safe_r winv pass_stops (rtadvd_input pkt s)"
proof -
  have rs: "safe_r winv pass_stops (rs_input b i a s)" for b i a
    using rs_input_winv [OF w] by (rule safe_r_ex)
  have "\<not> accept_rr s" using w by (simp add: winv_def)
  then show ?thesis
    unfolding rtadvd_input_def icmp6_switch_def Let_def case_prod_unfold
    by (auto simp: w rs ra_input_safe split: option.split)
qed

section \<open>The last advertisements\<close>

definition lifetimes :: "rtadvd \<Rightarrow> (nat \<times> u16) list" where
  "lifetimes s = map (\<lambda>rai. (rai_id rai, lifetime rai)) (ralist s)"

lemma settled_lifetime [simp]: "lifetime (settled rai) = lifetime rai" "lifetime (with_data b rai) = lifetime rai"
  by (simp_all add: settled_def with_data_def split: option.splits)

lemma die_packet_ok:
  assumes inv: "dinv s" and at: "rai_at r s = Some ra"
  shows "\<exists>ra' n. make_packet (ra\<lparr>lifetime := 0\<rparr>) s = Inr (ra', s\<lparr>gtod_calls := n\<rparr>) \<and>
    dinv (rai_upd r (\<lambda>_. ra') s) \<and> same_ifs s (rai_upd r (\<lambda>_. ra') s) \<and>
    lifetimes (rai_upd r (\<lambda>_. ra') s) = map (\<lambda>(q, l). (q, if q = r then 0 else l)) (lifetimes s)"
proof -
  have ok: "rai_ok (timer_list s) ra" "rainfo_wf ra" "rai_id ra = r" using rai_ok_wf [OF inv at] by auto
  from make_packet_data [of "ra\<lparr>lifetime := 0\<rparr>" s] ok obtain b n
    where mp: "make_packet (ra\<lparr>lifetime := 0\<rparr>) s = Inr (with_data b (ra\<lparr>lifetime := 0\<rparr>), s\<lparr>gtod_calls := n\<rparr>)"
    by auto
  let ?ra = "with_data b (ra\<lparr>lifetime := 0\<rparr>)"
  have "rai_ok (timer_list s) ?ra" using ok by (simp add: rai_ok_with_data)
  then have "dinv (rai_upd r (\<lambda>_. ?ra) s)"
    using at ok(3) by (intro dinv_rai_upd [OF inv]) simp
  moreover have "same_ifs s (rai_upd r (\<lambda>_. ?ra) s)"
    by (rule same_ifs_rai_upd_at [OF inv at]) (simp add: rai_key_def)
  moreover have "lifetimes (rai_upd r (\<lambda>_. ?ra) s) = map (\<lambda>(q, l). (q, if q = r then 0 else l)) (lifetimes s)"
    using ok(3) by (auto simp: lifetimes_def rai_upd_def)
  ultimately show ?thesis using mp by blast
qed

lemma same_ifs_ids: "same_ifs s s' \<Longrightarrow> rai_id ` set (ralist s') = rai_id ` set (ralist s)"
proof -
  have "map rai_id (ralist s) = map fst (rai_keys s)" for s by (simp add: rai_key_def)
  then show "same_ifs s s' \<Longrightarrow> ?thesis" unfolding same_ifs_def by (metis list.set_map)
qed

lemma die_packets_ok:
  assumes "dinv s" "set rs \<subseteq> rai_id ` set (ralist s)"
  shows "\<exists>s'. die_packets rs s = Inr s' \<and> dinv s' \<and> same_ifs s s' \<and> sent s' = sent s \<and>
    lifetimes s' = map (\<lambda>(q, l). (q, if q \<in> set rs then 0 else l)) (lifetimes s)"
  using assms
proof (induction rs arbitrary: s)
  case (Cons r rs)
  from Cons.prems(2) obtain ra where at: "rai_at r s = Some ra" using rai_at_ex [of r s] by auto
  from die_packet_ok [OF Cons.prems(1) this] obtain ra' n where
    mp: "make_packet (ra\<lparr>lifetime := 0\<rparr>) s = Inr (ra', s\<lparr>gtod_calls := n\<rparr>)"
    and d: "dinv (rai_upd r (\<lambda>_. ra') s)" and same: "same_ifs s (rai_upd r (\<lambda>_. ra') s)"
    and lt: "lifetimes (rai_upd r (\<lambda>_. ra') s) = map (\<lambda>(q, l). (q, if q = r then 0 else l)) (lifetimes s)"
    by blast
  let ?s = "rai_upd r (\<lambda>_. ra') (s\<lparr>gtod_calls := n\<rparr>)"
  have s: "?s = (rai_upd r (\<lambda>_. ra') s)\<lparr>gtod_calls := n\<rparr>" by (simp add: rai_upd_def)
  have "dinv ?s" "same_ifs s ?s" using d same unfolding s by (simp_all add: same_ifs_def)
  with Cons.IH [of ?s] Cons.prems(2) same_ifs_ids [of s ?s] obtain s' where
    "die_packets rs ?s = Inr s'" "dinv s'" "same_ifs ?s s'" "sent s' = sent ?s"
    "lifetimes s' = map (\<lambda>(q, l). (q, if q \<in> set rs then 0 else l)) (lifetimes ?s)"
    by auto
  then show ?case
    using at mp lt same_ifs_trans [OF \<open>same_ifs s ?s\<close>] by (auto simp: lifetimes_def rai_upd_def)
qed (auto simp: lifetimes_def)

lemma make_packet_header:
  assumes "rainfo_wf rai" "make_packet rai s = Inr (with_data b rai, s')"
  shows "rd16 (drop 6 b) = lifetime rai"
proof -
  from make_packet_ok [OF assms(1), of s] assms(2) obtain os where
    "with_data b rai = (settled rai)\<lparr>ra_data := Some (ra_header (settled rai) @ concat os),
      ra_datalen := 16 + length (concat os)\<rparr>"
    by (metis sum.inject(2) prod.inject)
  from arg_cong [OF this, of ra_data] have "b = ra_header (settled rai) @ concat os" by simp
  then show ?thesis by (simp add: ra_header_def rd16_be16)
qed

lemma ra_output_sent:
  assumes inv: "dinv s" and at: "rai_at r s = Some rai"
  shows "\<exists>s' bs. ra_output r s = Inr s' \<and> dinv s' \<and> same_ifs s s' \<and> lifetimes s' = lifetimes s \<and>
    sent s' = sent s @ bs \<and> map fst bs = (if if_up (ifindex rai) (ifilist s) then [ifindex rai] else []) \<and>
    (\<forall>(i, b) \<in> set bs. rd16 (drop 6 b) = lifetime rai)"
proof (cases "if_up (ifindex rai) (ifilist s)")
  case False
  then have "ra_output r s = Inr s"
    using at by (auto simp: ra_output_def if_up_def get_interface_entry_def split: option.split)
  with inv False show ?thesis by auto
next
  case True
  then obtain ifm where ifm: "get_interface_entry (ifindex rai) s = Some ifm" "ifm_flags ifm AND IFF_UP \<noteq> 0"
    by (auto simp: if_up_def get_interface_entry_def)
  have wf: "rainfo_wf rai" "rai_id rai = r" using rai_ok_wf [OF inv at] by auto
  from ra_output_eq [OF at wf(1) ifm] obtain b n where
    mp: "make_packet rai s = Inr (with_data b rai, s\<lparr>gtod_calls := n\<rparr>)" and
    out: "ra_output r s = Inr (rai_upd r (\<lambda>_. after_output (gtod s n) b rai)
      (s\<lparr>sent := sent s @ [(ifindex rai, b)], gtod_calls := Suc n\<rparr>))" (is "_ = Inr ?s")
    by blast
  have "x = rai" if "x \<in> set (ralist s)" "rai_id x = r" for x
    using rai_at_Some [OF inv] at that by (metis option.inject)
  then have "lifetimes ?s = lifetimes s"
    using wf(2) by (auto simp: lifetimes_def rai_upd_def after_output_def)
  moreover have "dinv ?s" using ra_output_ok [OF inv at] out by auto
  ultimately show ?thesis
    using True out ra_output_ifs [OF inv at out] make_packet_header [OF wf(1) mp] by (auto simp: rai_upd_def)
qed

lemma die_outputs_ok:
  assumes "dinv s" "\<forall>p \<in> set (lifetimes s). snd p = 0" "set ks \<subseteq> set (rai_keys s)"
  shows "\<exists>s' bs. die_outputs (map fst ks) s = Inr s' \<and> sent s' = sent s @ bs \<and> dinv s' \<and> same_ifs s s' \<and>
    map fst bs = map (fst \<circ> snd) (filter (\<lambda>k. if_up (fst (snd k)) (ifilist s)) ks) \<and>
    (\<forall>(i, b) \<in> set bs. rd16 (drop 6 b) = 0)"
  using assms
proof (induction ks arbitrary: s)
  case (Cons k ks)
  obtain r i t where k: "k = (r, i, t)" by (metis prod_cases3)
  then obtain rai where at: "rai_at r s = Some rai" "ifindex rai = i"
    using key_at [OF Cons.prems(1), of r i t] Cons.prems(3) by auto
  have l0: "lifetime rai = 0"
    using Cons.prems(2) rai_at_Some [OF Cons.prems(1)] at(1) by (auto simp: lifetimes_def)
  from ra_output_sent [OF Cons.prems(1) at(1)] obtain s1 bs where
    s1: "ra_output r s = Inr s1" "dinv s1" "same_ifs s s1" "lifetimes s1 = lifetimes s" "sent s1 = sent s @ bs"
    and bs: "map fst bs = (if if_up i (ifilist s) then [i] else [])" "\<forall>(i, b) \<in> set bs. rd16 (drop 6 b) = 0"
    unfolding at(2) l0 by blast
  have "set ks \<subseteq> set (rai_keys s1)" using Cons.prems(3) s1(3) by (simp add: same_ifs_def)
  with Cons.IH [OF s1(2)] Cons.prems(2) s1(4) obtain s' bs' where
    "die_outputs (map fst ks) s1 = Inr s'" "sent s' = sent s1 @ bs'" "dinv s'" "same_ifs s1 s'"
    "map fst bs' = map (fst \<circ> snd) (filter (\<lambda>k. if_up (fst (snd k)) (ifilist s1)) ks)"
    "\<forall>(i, b) \<in> set bs'. rd16 (drop 6 b) = 0"
    by auto
  moreover have "ifilist s1 = ifilist s" using s1(3) by (simp add: same_ifs_def)
  ultimately show ?case
    using s1 bs k same_ifs_trans [OF s1(3)] by (intro exI [of _ s'] exI [of _ "bs @ bs'"]) auto
qed auto

lemma die_state_ok:
  assumes inv: "dinv s"
  shows "\<exists>s' bs. die_state s = Inr s' \<and> sent s' = sent s @ bs \<and>
    map fst bs = map ifindex (filter (\<lambda>rai. if_up (ifindex rai) (ifilist s)) (ralist s)) \<and>
    (\<forall>(i, b) \<in> set bs. rd16 (drop 6 b) = 0)"
proof -
  from die_packets_ok [OF inv, of "map rai_id (ralist s)"] obtain s1 where
    s1: "die_packets (map rai_id (ralist s)) s = Inr s1" "dinv s1" "same_ifs s s1" "sent s1 = sent s"
    and lt: "lifetimes s1 = map (\<lambda>(q, l). (q, if q \<in> set (map rai_id (ralist s)) then 0 else l)) (lifetimes s)"
    by auto
  have z: "\<forall>p \<in> set (lifetimes s1). snd p = 0" unfolding lt by (auto simp: lifetimes_def)
  have ids: "map rai_id (ralist s1) = map fst (rai_keys s1)" by (simp add: rai_key_def)
  have keys: "rai_keys s1 = rai_keys s" "ifilist s1 = ifilist s" using s1(3) by (simp_all add: same_ifs_def)
  have up: "map (fst \<circ> snd) (filter (\<lambda>k. if_up (fst (snd k)) ifl) (map rai_key xs)) =
      map ifindex (filter (\<lambda>rai. if_up (ifindex rai) ifl) xs)" for ifl xs
    by (induction xs) (simp_all add: rai_key_def)
  from die_outputs_ok [OF s1(2) z, of "rai_keys s1"] obtain s' bs where
    "die_outputs (map rai_id (ralist s1)) s1 = Inr s'" "sent s' = sent s1 @ bs" "\<forall>(i, b) \<in> set bs. rd16 (drop 6 b) = 0"
    "map fst bs = map (fst \<circ> snd) (filter (\<lambda>k. if_up (fst (snd k)) (ifilist s1)) (rai_keys s1))"
    unfolding ids by blast
  then show ?thesis using s1(1,4) keys up [of "ifilist s" "ralist s"] by (auto simp: die_state_def)
qed

section \<open>One pass and the reachable states\<close>

lemma main_iter_safe:
  assumes w: "winv s"
  shows "safe_r winv pass_stops (main_iter ev s)"
proof (cases "ev_die ev")
  case True
  from die_state_ok [OF winv_dinv [OF w]] show ?thesis
    using True by (auto simp: main_iter_def die_def pass_stops_def)
next
  case False
  obtain r s1 where ct: "rtadvd_check_timer expire_fn update_fn s = Inr (r, s1)" and w1: "winv s1"
    using rtw.check_timer_ok [OF w refl] by blast
  have rt: "safe_r winv pass_stops (case ev_rtsock ev of None \<Rightarrow> Inr s1
      | Some m \<Rightarrow> if sflag s1 then Inr s1 else rtmsg_input m s1)"
    using w1 rtmsg_loop_safe [OF w1] by (auto simp: rtmsg_input_def split: option.split)
  have "safe_r winv pass_stops (bind_r (case ev_rtsock ev of None \<Rightarrow> Inr s1
      | Some m \<Rightarrow> if sflag s1 then Inr s1 else rtmsg_input m s1) (\<lambda>s2.
      case ev_sock ev of None \<Rightarrow> Inr s2 | Some p \<Rightarrow> rtadvd_input p s2))"
    by (rule safe_r_bind [OF rt]) (auto simp: rtadvd_input_safe split: option.split)
  then show ?thesis using False ct by (simp add: main_iter_def)
qed

lemma reachable_winv: "reachable s0 s \<Longrightarrow> winv s0 \<Longrightarrow> winv s"
proof (induction rule: reachable.induct)
  case (step s s')
  then obtain ev where "main_iter ev s = Inr s'" by (auto elim: daemon_stepE)
  then show ?case using main_iter_safe [of s ev] step by simp
qed

end
