(* ===== verification/Protocol.thy ===== *)
theory Protocol
  imports Examples Mainloop
begin

text \<open>
  The properties of the daemon's reactions: the delays between advertisements, the life of
  a prefix, what a solicitation, an advertisement and a renumbering command change.
\<close>

section \<open>Delays between advertisements\<close>

text \<open>
  The arithmetic on seconds and microseconds refines that of
  microseconds: on normalised times \<open>TIMEVAL_ADD\<close> and \<open>TIMEVAL_SUB\<close> give the normalised sum
  and difference and \<open>TIMEVAL_LEQ\<close> and \<open>TIMEVAL_LT\<close> compare.
\<close>

theorem timeval_refines:
  assumes "tv_ok a" "tv_ok b"
  shows "tv_ok (TIMEVAL_ADD a b) \<and> usecs (TIMEVAL_ADD a b) = usecs a + usecs b \<and>
    tv_ok (TIMEVAL_SUB a b) \<and> usecs (TIMEVAL_SUB a b) = usecs a - usecs b \<and>
    (TIMEVAL_LEQ a b \<longleftrightarrow> usecs a \<le> usecs b) \<and> (TIMEVAL_LT a b \<longleftrightarrow> usecs a < usecs b)"
  using tv_ok_add [OF assms] tv_ok_sub [OF assms] tv_le_usecs [OF assms] tv_le_usecs [OF assms(2,1)]
  by (simp add: linorder_not_le [symmetric])

theorem timeval_refines_witness:
  "usecs (TIMEVAL_SUB (Timeval 5 100) (Timeval 3 200)) = 1999900 \<and> tv_ok (TIMEVAL_SUB (Timeval 5 100) (Timeval 3 200))"
  using timeval_refines [of "Timeval 5 100" "Timeval 3 200"] by (simp add: tv_ok_def usecs_def)

lemma timer_at_set_tm: "timer_at p s = Some t \<Longrightarrow> timer_at p (set_tm p v s) = Some (t\<lparr>tm := v\<rparr>)"
proof -
  have "find (\<lambda>t. tid t = p) ts = Some t \<Longrightarrow>
      find (\<lambda>t. tid t = p) (map (\<lambda>t. if tid t = p then t\<lparr>tm := v\<rparr> else t) ts) = Some (t\<lparr>tm := v\<rparr>)" for ts
    by (induction ts) (auto split: if_splits)
  then show "timer_at p s = Some t \<Longrightarrow> ?thesis" by (simp add: timer_at_def set_tm_def)
qed

lemma set_timer_deadline:
  fixes s :: "('e, 'u, 'z) timers_scheme"
  assumes "timer_at p s = Some t"
  shows "\<exists>s'. rtadvd_set_timer v p s = Inr s' \<and> timer_at p s' = Some (t\<lparr>tm := TIMEVAL_ADD (gtod s (gtod_calls s)) v\<rparr>)"
proof -
  have "timer_at p (note_head x u) = timer_at p u" for x and u :: "('e, 'u, 'z) timers_scheme"
    by (simp add: note_head_def timer_at_def)
  moreover have "timer_at p (s\<lparr>gtod_calls := n\<rparr>) = Some t" for n using assms by (simp add: timer_at_def)
  ultimately show ?thesis by (simp add: rtadvd_set_timer_def gettimeofday_def timer_at_set_tm Let_def)
qed

text \<open>The clock does not run backwards.\<close>

definition clock_ok :: "rtadvd \<Rightarrow> bool" where
  "clock_ok s \<longleftrightarrow> (\<forall>n. usecs (gtod s n) \<le> usecs (gtod s (Suc n)))"

lemma short_delay_set:
  assumes inv: "dinv s" and at: "rai_at r s = Some rai" "rai_timer rai = Some p"
    and clock: "clock_ok s" "usecs (lastsent rai) \<le> usecs (gtod s (gtod_calls s))"
  shows "\<exists>s' t. set_short_delay r s = Inr s' \<and> timer_at p s' = Some t \<and>
    usecs (lastsent rai) + 3000000 \<le> usecs (tm t) \<and>
    usecs (tm t) < usecs (gtod s (gtod_calls s + 2)) + 3500000"
proof -
  let ?g = "\<lambda>k. gtod s (gtod_calls s + k)"
  note ok = rai_ok_wf [OF inv at(1)]
  then obtain t where t: "timer_at p s = Some t" "tv_time (tm t)"
    using at(2) inv timer_at_Some [of s p] by (fastforce simp: rai_ok_def armed_def dinv_def timer_ok_def)
  define d where "d = short_delay (rand s (rand_calls s)) (tm t) (lastsent rai) (?g 0) (?g 1)"
  have times: "tv_time (?g k)" "tv_time (lastsent rai)" for k using inv ok by (auto simp: dinv_def rai_ok_def)
  obtain x where x: "0 \<le> x" "x < MAX_RA_DELAY_TIME"
    "usecs d = max 0 (MIN_DELAY_BETWEEN_RAS * MILLION - (usecs (?g 1) - usecs (lastsent rai))) + x"
    using short_delay_usecs [OF t(2) times(2) times(1) [of 0] times(1) [of 1]] unfolding d_def by blast
  have "usecs (?g 0) \<le> usecs (?g 1)" "usecs (?g 1) \<le> usecs (?g 2)"
    using clock(1) spec [of "\<lambda>n. usecs (gtod s n) \<le> usecs (gtod s (Suc n))" "Suc (gtod_calls s)"]
    by (simp_all add: clock_ok_def)
  with x clock(2) have b: "usecs (lastsent rai) + 3000000 \<le> usecs (?g 2) + usecs d" "usecs d < 3500000"
    by (simp_all add: max_def split: if_splits)
  let ?s = "s\<lparr>rand_calls := Suc (rand_calls s), gtod_calls := Suc (Suc (gtod_calls s))\<rparr>"
  have eq: "set_short_delay r s = rtadvd_set_timer d p ?s"
    using set_short_delay_eq [OF at t(1)] by (simp add: d_def)
  have "timer_at p ?s = Some t" using t(1) by (simp add: timer_at_def)
  from set_timer_deadline [OF this, of d] b show ?thesis unfolding eq by auto
qed

text \<open>
  C25. \<open>set_short_delay\<close> keeps the rate limit of RFC 4861: the timer of the
  interface is set to no earlier than three seconds after the last advertisement, and to
  less than three and a half seconds from now.
\<close>

theorem short_delay_window:
  assumes "dinv s" "rai_at r s = Some rai" "rai_timer rai = Some p" "clock_ok s"
    "usecs (lastsent rai) \<le> usecs (gtod s (gtod_calls s))"
  shows "\<exists>s' t. set_short_delay r s = Inr s' \<and> timer_at p s' = Some t \<and>
    usecs (lastsent rai) + 3000000 \<le> usecs (tm t) \<and>
    usecs (tm t) < usecs (gtod s (gtod_calls s + 2)) + 3500000"
  by (rule short_delay_set [OF assms])

lemma ex_clock: "clock_ok ex_state"
  by (simp add: clock_ok_def ex_state_def usecs_def)

theorem short_delay_window_witness:
  "\<exists>s' t. set_short_delay 0 ex_state = Inr s' \<and> timer_at 0 s' = Some t \<and> 102000000 \<le> usecs (tm t) \<and> usecs (tm t) < 105500000"
proof -
  have "rai_timer ex_rai = Some 0" "lastsent ex_rai = Timeval 99 0" by (simp_all add: ex_rai_def)
  with short_delay_window [OF ex_dinv ex_rai_at _ ex_clock, of 0] show ?thesis by (simp add: ex_state_def usecs_def)
qed

text \<open>
  C30. \<open>ra_timer_update\<close> waits between \<open>MinRtrAdvInterval\<close> and
  \<open>MaxRtrAdvInterval\<close>, at most sixteen seconds during the initial advertisements and not at
  all before the first.
\<close>

theorem ra_timer_update_window:
  assumes "dinv s" "rai_at r s = Some rai"
  shows "\<exists>n s'. ra_timer_update r s = Inr (Timeval n 0, s') \<and> 0 \<le> n \<and> n < uint (maxinterval rai) \<and>
    (if initcounter rai = 0 then n = 0
     else if initcounter rai < 3 then n \<le> 16
     else uint (mininterval rai) \<le> n)"
proof -
  have lt: "mininterval rai < maxinterval rai" using rai_ok_wf [OF assms] by (simp add: rai_ok_def)
  then have u: "uint (mininterval rai) < uint (maxinterval rai)" by (simp add: word_less_def)
  have "0 < uint (maxinterval rai)" using u uint_nonnegative [of "mininterval rai"] by linarith
  with u interval0_bounds [OF u, of "rand s (rand_calls s)"] uint_nonnegative [of "mininterval rai"]
  show ?thesis
    unfolding ra_timer_update_eq [OF assms(2) lt] Let_def by (auto simp: min_def)
qed

theorem ra_timer_update_window_witness:
  "\<exists>n s'. ra_timer_update 0 ex_state = Inr (Timeval n 0, s') \<and> 200 \<le> n \<and> n < 600"
  using ra_timer_update_window [OF ex_dinv ex_rai_at] by (simp add: ex_rai_def) blast


section \<open>The life of a prefix\<close>

lemma set_pfx_timer_undo:
  assumes "\<forall>pp \<in> set (prefix_list rai). pfx_id pp = p \<longrightarrow> pfx_timer pp = None"
  shows "set_pfx_timer p None (set_pfx_timer p k rai) = rai"
proof -
  have "map (\<lambda>pp. if pfx_id pp = p then pp\<lparr>pfx_timer := None\<rparr> else pp)
      (map (\<lambda>pp. if pfx_id pp = p then pp\<lparr>pfx_timer := k\<rparr> else pp) (prefix_list rai)) = prefix_list rai"
    using assms by (auto simp: list_eq_iff_nth_eq)
  then show ?thesis unfolding set_pfx_timer_def by simp
qed

lemma prefix_unique:
  assumes "dinv s" "rai \<in> set (ralist s)" "pp \<in> set (prefix_list rai)"
    "rai' \<in> set (ralist s)" "pp' \<in> set (prefix_list rai')" "pfx_id pp' = pfx_id pp"
  shows "pp' = pp"
proof -
  have "inj_on pfx_id (set (all_prefixes (ralist s)))"
    using assms(1) distinct_map [of pfx_id "all_prefixes (ralist s)"] by (simp add: dinv_def)
  with assms(2-6) show ?thesis by (auto dest: inj_onD)
qed

text \<open>
  C27. A prefix that the kernel deletes and then announces again is advertised
  as before: \<open>invalidate_prefix\<close> followed by \<open>update_prefix\<close> leaves the interfaces and their
  prefixes as they were.
\<close>

theorem prefix_comeback:
  assumes "dinv s" "rai \<in> set (ralist s)" "pp \<in> set (prefix_list rai)" "pfx_timer pp = None"
  shows "\<exists>s1 s2. invalidate_prefix (pfx_id pp) s = Inr s1 \<and> update_prefix (pfx_id pp) s1 = Inr s2 \<and>
    ralist s1 \<noteq> ralist s \<and> ralist s2 = ralist s \<and> dinv s2"
proof -
  define k where "k = timer_next_id s"
  obtain s1 where s1: "invalidate_prefix (pfx_id pp) s = Inr s1" "dinv s1"
    "ralist s1 = ralist (rai_upd (rai_id rai) (set_pfx_timer (pfx_id pp) (Some k)) s)"
    using invalidate_prefix_ok [OF assms] unfolding k_def by blast
  define rai1 where "rai1 = set_pfx_timer (pfx_id pp) (Some k) rai"
  have mem1: "rai1 \<in> set (ralist s1)" "pp\<lparr>pfx_timer := Some k\<rparr> \<in> set (prefix_list rai1)" "rai_id rai1 = rai_id rai"
    using assms(2,3) by (auto simp: s1(3) rai_upd_def rai1_def set_pfx_timer_def)
  obtain s2 where s2: "update_prefix (pfx_id pp) s1 = Inr s2" "dinv s2"
    "ralist s2 = ralist (rai_upd (rai_id rai) (set_pfx_timer (pfx_id pp) None) s1)"
    using update_prefix_ok [OF s1(2) mem1(1,2), of k] mem1(3) by auto
  have id: "rai_id (set_pfx_timer p q r) = rai_id r" for p q r by (simp add: set_pfx_timer_def)
  have "set_pfx_timer (pfx_id pp) None (set_pfx_timer (pfx_id pp) (Some k) r) = r" if "r \<in> set (ralist s)" for r
    using prefix_unique [OF assms(1-3) that] assms(4) by (intro set_pfx_timer_undo) metis
  then have same: "ralist s2 = ralist s"
    by (simp add: s2(3) s1(3) rai_upd_def id list_eq_iff_nth_eq)
  have "ralist s1 \<noteq> ralist s"
  proof
    assume "ralist s1 = ralist s"
    with mem1 have "pp\<lparr>pfx_timer := Some k\<rparr> = pp" by (intro prefix_unique [OF assms(1-3)]) auto
    then have "pfx_timer (pp\<lparr>pfx_timer := Some k\<rparr>) = pfx_timer pp" by metis
    then show False using assms(4) by simp
  qed
  with s1 s2 same show ?thesis by blast
qed

lemma ex_mem: "ex_rai \<in> set (ralist ex_state)" "ex_prefix 1 None 1 \<in> set (prefix_list ex_rai)"
    "ex_prefix 2 (Some 1) 2 \<in> set (prefix_list ex_rai)" "pfx_id (ex_prefix p q b) = p" "pfx_timer (ex_prefix p q b) = q"
  by (simp_all add: ex_state_def ex_rai_def ex_prefix_def)

theorem prefix_comeback_witness:
  "\<exists>s1 s2. invalidate_prefix 1 ex_state = Inr s1 \<and> update_prefix 1 s1 = Inr s2 \<and>
    ralist s1 \<noteq> ralist ex_state \<and> ralist s2 = ralist ex_state \<and> dinv s2"
  using prefix_comeback [OF ex_dinv ex_mem(1,2)] by (simp add: ex_mem)

text \<open>
  A second deletion of a prefix that is already counting down
  terminates the daemon: \<open>invalidate_prefix\<close> takes its timer for an internal error.
\<close>

theorem invalidate_twice_exits:
  assumes "dinv s" "rai \<in> set (ralist s)" "pp \<in> set (prefix_list rai)" "pfx_timer pp \<noteq> None"
  shows "invalidate_prefix (pfx_id pp) s = Inl (Exit 1)"
  by (rule invalidate_prefix_twice [OF assms])

theorem invalidate_twice_exits_witness: "invalidate_prefix 2 ex_state = Inl (Exit 1)"
  using invalidate_twice_exits [OF ex_dinv ex_mem(1,3)] by (simp add: ex_mem)

text \<open>
  C28. When the timer of an invalidated prefix expires the prefix leaves
  its interface and every other prefix stays; no timer is left that would refer to it, and
  the timer itself asks to be freed.
\<close>

theorem prefix_timeout_removes:
  assumes "dinv s" "rai \<in> set (ralist s)" "pp \<in> set (prefix_list rai)"
  shows "\<exists>s'. prefix_timeout (pfx_id pp) s = Inr (False, s') \<and>
    map (map pfx_id \<circ> prefix_list) (ralist s') =
      map (filter (\<lambda>i. i \<noteq> pfx_id pp) \<circ> map pfx_id \<circ> prefix_list) (ralist s) \<and>
    timer_list s' = filter (\<lambda>t. expire t \<noteq> Prefix_timeout (pfx_id pp)) (timer_list s)"
proof -
  have owner: "rai_id r = rai_id rai" if "r \<in> set (ralist s)" "pp' \<in> set (prefix_list r)" "pfx_id pp' = pfx_id pp" for r pp'
    using prefix_rainfo_eq [OF assms] prefix_rainfo_eq [OF assms(1) that(1,2)] that(3) by simp
  have "map pfx_id (prefix_list (if rai_id r = rai_id rai then drop_prefix (pfx_id pp) r else r)) =
      filter (\<lambda>i. i \<noteq> pfx_id pp) (map pfx_id (prefix_list r))" if "r \<in> set (ralist s)" for r
  proof (cases "rai_id r = rai_id rai")
    case False
    with owner [OF that] have "\<forall>q \<in> set (prefix_list r). pfx_id q \<noteq> pfx_id pp" by blast
    with False show ?thesis by (simp add: filter_map comp_def)
  qed (simp add: drop_prefix_def filter_map comp_def)
  moreover have "pfx_timer pp = Some (tid t) \<longleftrightarrow> expire t = Prefix_timeout (pfx_id pp)" if "t \<in> set (timer_list s)" for t
  proof
    assume e: "expire t = Prefix_timeout (pfx_id pp)"
    have "timer_ok (ralist s) t" using assms(1) that by (simp add: dinv_def)
    with e show "pfx_timer pp = Some (tid t)"
      using prefix_unique [OF assms] by (fastforce simp: timer_ok_def)
  next
    assume e: "pfx_timer pp = Some (tid t)"
    have "rai_ok (timer_list s) rai" "distinct (timer_ids s)" using assms(1,2) by (simp_all add: dinv_def)
    from this(1) e assms(3) obtain u where u: "u \<in> set (timer_list s)" "tid u = tid t" "expire u = Prefix_timeout (pfx_id pp)"
      unfolding rai_ok_def armed_def by blast
    with that \<open>distinct (timer_ids s)\<close> have "u = t" by (metis timer_at_Some option.inject)
    with u(3) show "expire t = Prefix_timeout (pfx_id pp)" by simp
  qed
  ultimately show ?thesis
    unfolding prefix_timeout_def delete_prefix_eq [OF assms] by (auto simp: rai_upd_def cong: filter_cong)
qed

theorem prefix_timeout_removes_witness:
  "\<exists>s'. prefix_timeout 2 ex_state = Inr (False, s') \<and> map (map pfx_id \<circ> prefix_list) (ralist s') = [[1]]"
proof -
  have "map (filter (\<lambda>i. i \<noteq> 2) \<circ> map pfx_id \<circ> prefix_list) (ralist ex_state) = [[1]]"
    by (simp add: ex_state_def ex_rai_def ex_prefix_def)
  then show ?thesis using prefix_timeout_removes [OF ex_dinv ex_mem(1,3)] by (auto simp: ex_mem)
qed

text \<open>
  A prefix that the kernel announces for an advertising interface is
  then found there with its address and length, in front of the others, and is advertised
  without a countdown.
\<close>

theorem make_prefix_found:
  assumes "dinv s" "rai_at r s = Some rai" "indextoname s idx" "in6_ok a" "n \<le> 128"
  shows "\<exists>s' rai' pp. make_prefix r idx a n s = Inr s' \<and> dinv s' \<and> rai_at r s' = Some rai' \<and>
    prefix_list rai' = pp # prefix_list rai \<and> find_prefix rai' a n = Some pp \<and> pfx_timer pp = None"
proof -
  let ?ipr = "init_prefix \<lparr>ipr_prefix = a, ipr_plen = n mod 256, ipr_vltime = 0, ipr_pltime = 0, ipr_raf_onlink = 0, ipr_raf_auto = 0\<rparr>"
  have ipr: "in6_ok (ipr_prefix ?ipr)" "ipr_plen ?ipr \<le> 128" "ipr_prefix ?ipr = a" "ipr_plen ?ipr = n"
    using assms(4,5) by (simp_all add: init_prefix_def)
  obtain s' q b where s': "add_prefix r ?ipr s = Inr s'" "dinv s'"
    and q: "pfx_prefix q = a" "pfx_prefixlen q = n" "pfx_timer q = None"
    and ras: "ralist s' = ralist (rai_upd r (\<lambda>_. with_data b (cons_prefix q rai)) s)"
    using add_prefix_ok [OF assms(1,2) ipr(1,2)] unfolding ipr(3,4) by blast
  have "rai_id rai = r" using rai_ok_wf [OF assms(1,2)] by simp
  then have at: "rai_at r s' = Some (with_data b (cons_prefix q rai))"
    unfolding rai_at_same [OF ras] by (intro rai_at_upd [OF _ assms(2)]) (simp add: cons_prefix_def)
  have "find_prefix (with_data b (cons_prefix q rai)) a n = Some q" "prefix_list (with_data b (cons_prefix q rai)) = q # prefix_list rai"
    by (simp_all add: find_prefix_def cons_prefix_def q prefix_cmp_def Let_def)
  with s' q(3) at show ?thesis using assms(3) by (simp add: make_prefix_def)
qed

theorem make_prefix_found_witness:
  "\<exists>s' rai' pp. make_prefix 0 4 (ex_addr 7) 64 ex_state = Inr s' \<and> dinv s' \<and> rai_at 0 s' = Some rai' \<and>
    prefix_list rai' = pp # prefix_list ex_rai \<and> find_prefix rai' (ex_addr 7) 64 = Some pp \<and> pfx_timer pp = None"
  using make_prefix_found [OF ex_dinv ex_rai_at, of 4 "ex_addr 7" 64] by (simp add: ex_state_def in6_ok_def ex_addr_def)


section \<open>Received packets\<close>

lemma set_short_delay_ralist: "set_short_delay r s = Inr s' \<Longrightarrow> ralist s' = ralist s"
  by (auto simp: set_short_delay_def rtadvd_timer_rest_def rtadvd_set_timer_def note_head_def set_tm_def random_def
      gettimeofday_def Let_def res_simps split: option.splits if_splits)

lemma rs_input_schedules:
  assumes "dinv s" "clock_ok s" "nd6_options (drop 8 rs) NDOPT_FLAG_SRCLINKADDR = Some nd"
    "\<not> (IN6_IS_ADDR_UNSPECIFIED from \<and> nd_opts_src_lladdr nd \<noteq> None)"
    "if_indextorainfo i s = Some rai" "rai_timer rai = Some p" "waiting rai = 0"
    "usecs (lastsent rai) \<le> usecs (gtod s (gtod_calls s))"
  shows "\<exists>s' rai' t. rs_input rs i from s = Inr s' \<and> rai_at (rai_id rai) s' = Some rai' \<and>
    waiting rai' = 1 \<and> soliciter rai' = from # soliciter rai \<and> timer_at p s' = Some t \<and>
    usecs (lastsent rai) + 3000000 \<le> usecs (tm t) \<and>
    usecs (tm t) < usecs (gtod s (gtod_calls s + 2)) + 3500000"
proof -
  let ?f = "\<lambda>ra. ra\<lparr>rsinput := rsinput ra + 1, soliciter := from # soliciter ra, waiting := waiting ra + 1\<rparr>"
  define s1 where "s1 = rai_upd (rai_id rai) ?f s"
  have fnd: "find (\<lambda>ra. i = ifindex ra) (ralist s) = Some rai"
    using assms(5) by (simp add: if_indextorainfo_def eq_commute [of i])
  have mem: "rai \<in> set (ralist s)" using fnd by (auto simp: find_Some_iff)
  then have at: "rai_at (rai_id rai) s = Some rai" using rai_at_Some [OF assms(1)] by simp
  have at1: "rai_at (rai_id rai) s1 = Some (?f rai)"
    unfolding s1_def by (rule rai_at_upd [OF _ at]) simp
  have inv1: "dinv s1"
    unfolding s1_def
  proof (rule dinv_rai_upd [OF assms(1)])
    fix ra assume a: "rai_at (rai_id rai) s = Some ra"
    show "rai_id (?f ra) = rai_id rai \<and> prefix_list (?f ra) = prefix_list ra \<and> rai_ok (timer_list s) (?f ra)"
      using rai_ok_wf [OF assms(1) a] by (simp add: rai_ok_def) metis
  qed
  have "clock_ok s1" "gtod s1 = gtod s" "gtod_calls s1 = gtod_calls s" using assms(2) by (simp_all add: clock_ok_def s1_def)
  then obtain s' t where s': "set_short_delay (rai_id rai) s1 = Inr s'" "timer_at p s' = Some t"
    "usecs (lastsent rai) + 3000000 \<le> usecs (tm t)" "usecs (tm t) < usecs (gtod s (gtod_calls s + 2)) + 3500000"
    using short_delay_set [OF inv1 at1, of p] assms(6,8) by auto
  have "rs_input rs i from s = Inr s'"
    using assms(3,4,7) fnd s'(1) by (auto simp: rs_input_def s1_def)
  moreover have "rai_at (rai_id rai) s' = Some (?f rai)"
    using at1 set_short_delay_ralist [OF s'(1)] by (simp add: rai_at_def)
  moreover have "waiting (?f rai) = 1" "soliciter (?f rai) = from # soliciter rai" using assms(7) by simp_all
  ultimately show ?thesis using s'(2-) by blast
qed

text \<open>
  C6. A valid solicitation on an advertising interface that waits for no
  answer is recorded with its source, and the interface's next advertisement is due within
  three and a half seconds, though no earlier than three seconds after the last one.
\<close>

theorem rs_input_answers:
  assumes "dinv s" "clock_ok s" "nd6_options (drop 8 rs) NDOPT_FLAG_SRCLINKADDR = Some nd"
    "\<not> (IN6_IS_ADDR_UNSPECIFIED from \<and> nd_opts_src_lladdr nd \<noteq> None)"
    "if_indextorainfo i s = Some rai" "rai_timer rai = Some p" "waiting rai = 0"
    "usecs (lastsent rai) \<le> usecs (gtod s (gtod_calls s))"
  shows "\<exists>s' rai' t. rs_input rs i from s = Inr s' \<and> rai_at (rai_id rai) s' = Some rai' \<and>
    waiting rai' = 1 \<and> soliciter rai' = from # soliciter rai \<and> timer_at p s' = Some t \<and>
    usecs (lastsent rai) + 3000000 \<le> usecs (tm t) \<and>
    usecs (tm t) < usecs (gtod s (gtod_calls s + 2)) + 3500000"
  by (rule rs_input_schedules [OF assms])

theorem rs_input_answers_witness:
  "\<exists>s' t. rs_input [133, 0, 0, 0, 0, 0, 0, 0] 4 (ex_addr 3) ex_state = Inr s' \<and> timer_at 0 s' = Some t \<and>
    102000000 \<le> usecs (tm t) \<and> usecs (tm t) < 105500000"
proof -
  have opts: "nd6_options (drop 8 [133, 0, 0, 0, 0, 0, 0, 0]) NDOPT_FLAG_SRCLINKADDR = Some nd_opts_zero"
    using nd6_options_concat [of "[]"] by simp
  have "\<not> (IN6_IS_ADDR_UNSPECIFIED (ex_addr 3) \<and> nd_opts_src_lladdr nd_opts_zero \<noteq> None)" by (simp add: nd_opts_zero_def)
  moreover have "if_indextorainfo 4 ex_state = Some ex_rai" "rai_timer ex_rai = Some 0" "waiting ex_rai = 0"
    "lastsent ex_rai = Timeval 99 0"
    by (simp_all add: if_indextorainfo_def ex_state_def ex_rai_def)
  ultimately show ?thesis
    using rs_input_answers [OF ex_dinv ex_clock opts, of "ex_addr 3" 4 ex_rai 0] by (auto simp: ex_state_def usecs_def)
qed

text \<open>
  C29. The comparison of received advertisements accepts the daemon's own:
  for an interface whose prefixes are distinct and not decremented against a skewed clock,
  \<open>ra_input\<close> counts the advertisement that \<open>make_packet\<close> wrote for it as received and not as
  inconsistent.
\<close>

theorem ra_input_consistent:
  assumes "rainfo_wf rai" "options_small rai" "comparable rai"
    "make_packet rai s0 = Inr (rai', s0')" "ra_data rai' = Some b" "if_indextorainfo i s = Some rai"
  shows "\<exists>n. ra_input b i s =
    Inr ((rai_upd (rai_id rai) (\<lambda>rai. rai\<lparr>rainput := rainput rai + 1\<rparr>) s)\<lparr>gtod_calls := n\<rparr>)"
  by (rule ra_input_own [OF assms])

theorem ra_input_consistent_witness:
  "\<exists>b n. ra_input b 4 ex_state =
    Inr ((rai_upd 0 (\<lambda>rai. rai\<lparr>rainput := rainput rai + 1\<rparr>) ex_state)\<lparr>gtod_calls := n\<rparr>)"
proof -
  have small: "options_small ex_rai" by (simp add: options_small_def ex_rai_def)
  have "\<not> prefix_cmp (ex_addr 2) (ex_addr 1) 64" by code_simp
  then have cmp: "comparable ex_rai"
    by (simp add: comparable_def ex_rai_def ex_prefix_def find_prefix_def prefix_cmp_def Let_def)
  obtain rai' s' b where mp: "make_packet ex_rai ex_state = Inr (rai', s')" "ra_data rai' = Some b"
    using make_packet_data [OF ex_rai_wf, of ex_state] by fastforce
  have "if_indextorainfo 4 ex_state = Some ex_rai" "rai_id ex_rai = 0"
    by (simp_all add: if_indextorainfo_def ex_state_def ex_rai_def)
  with ra_input_consistent [OF ex_rai_wf small cmp mp, of 4 ex_state] show ?thesis by auto
qed

lemma byte_flag: "(b :: byte) AND 2 ^ n \<in> {0, 2 ^ n}"
proof -
  have "b AND 2 ^ n = (if bit b n then 2 ^ n else 0)" by (rule bit_eqI) (auto simp: bit_simps)
  then show ?thesis by simp
qed

text \<open>
  C38. An advertisement of another router whose options are well formed
  makes \<open>ra_input\<close> read \<open>on_off\<close> far behind its two entries exactly when it clears the managed
  flag or the other flag where this interface sets it: the flag of the interface, 0x80 or 0x40,
  is the index for the message about the difference. Otherwise, also when the advertisement sets
  a flag the interface clears, \<open>ra_input\<close> returns.
\<close>

theorem ra_input_flag_overrun:
  assumes "nd6_options (drop 16 ra) ((NDOPT_FLAG_SRCLINKADDR OR NDOPT_FLAG_PREFIXINFO) OR NDOPT_FLAG_MTU) = Some nd"
    "if_indextorainfo i s = Some rai" "managedflg rai \<in> {0, 0x80}" "otherflg rai \<in> {0, 0x40}"
  shows "if managedflg rai = 0x80 \<and> ra ! 5 AND ND_RA_FLAG_MANAGED = 0 \<or> otherflg rai = 0x40 \<and> ra ! 5 AND ND_RA_FLAG_OTHER = 0
    then ra_input ra i s = Inl OutOfBounds else \<exists>s'. ra_input ra i s = Inr s'"
proof -
  have m: "flag_check (ra ! 5 AND ND_RA_FLAG_MANAGED) (managedflg rai) =
      (if managedflg rai = 0x80 \<and> ra ! 5 AND ND_RA_FLAG_MANAGED = 0 then Inl OutOfBounds
       else Inr (if uint (ra ! 5 AND ND_RA_FLAG_MANAGED) \<noteq> managedflg rai then 1 else 0))"
    using assms(3) byte_flag [of "ra ! 5" 7] by (auto simp: flag_check_def on_off_def)
  have o: "flag_check (ra ! 5 AND ND_RA_FLAG_OTHER) (otherflg rai) =
      (if otherflg rai = 0x40 \<and> ra ! 5 AND ND_RA_FLAG_OTHER = 0 then Inl OutOfBounds
       else Inr (if uint (ra ! 5 AND ND_RA_FLAG_OTHER) \<noteq> otherflg rai then 1 else 0))"
    using assms(4) byte_flag [of "ra ! 5" 6] by (auto simp: flag_check_def on_off_def)
  show ?thesis using assms(1,2) by (simp add: ra_input_def m o Let_def split: prod.split)
qed

theorem ra_input_flag_overrun_witness:
  "ra_input ([134, 0, 0, 0, 64, 0] @ replicate 10 0) 4 ex_state = Inl OutOfBounds"
proof -
  have "if_indextorainfo 4 ex_state = Some ex_rai" "managedflg ex_rai = 0x80" "otherflg ex_rai \<in> {0, 0x40}"
    by (simp_all add: if_indextorainfo_def ex_state_def ex_rai_def)
  moreover have "nd6_options [] fl = Some nd_opts_zero" for fl using nd6_options_concat [of "[]"] by simp
  ultimately show ?thesis using ra_input_flag_overrun [of "[134, 0, 0, 0, 64, 0] @ replicate 10 0" nd_opts_zero 4 ex_state ex_rai] by simp
qed

text \<open>
  When an interface comes up its timer is started with a deadline
  of now, so that the next check of the timers sends the first advertisement.
\<close>

theorem interface_up_advertises:
  assumes "dinv s" "rai_at r s = Some rai"
  shows "\<exists>s' rai' k t. start_ra_timer r s = Inr s' \<and> dinv s' \<and> rai_at r s' = Some rai' \<and>
    rai_timer rai' = Some k \<and> initcounter rai' = 0 \<and> waiting rai' = 0 \<and>
    timer_at k s' = Some t \<and> expire t = Ra_timeout r \<and> tm t = gtod s (gtod_calls s)"
proof -
  let ?f = "\<lambda>k rai. rai\<lparr>initcounter := 0, waiting := 0, rai_timer := Some k\<rparr>"
  obtain s' k t where s': "start_ra_timer r s = Inr s'" "dinv s'" "ralist s' = ralist (rai_upd r (?f k) s)"
    "timer_at k s' = Some t" "tm t = gtod s (gtod_calls s)" "expire t = Ra_timeout r"
    using start_ra_timer_ok [OF assms] by blast
  have "rai_at r s' = Some (?f k rai)"
    unfolding rai_at_same [OF s'(3)] by (rule rai_at_upd [OF _ assms(2)]) (use rai_ok_wf [OF assms] in simp)
  moreover have "rai_timer (?f k rai) = Some k" "initcounter (?f k rai) = 0" "waiting (?f k rai) = 0" by simp_all
  ultimately show ?thesis using s' by blast
qed

theorem interface_up_advertises_witness:
  "\<exists>s' k t. start_ra_timer 0 ex_state = Inr s' \<and> timer_at k s' = Some t \<and> tm t = Timeval 100 0"
  using interface_up_advertises [OF ex_dinv ex_rai_at] by (auto simp: ex_state_def)


section \<open>Router renumbering\<close>

text \<open>
  C35. \<open>do_rr\<close> carries out a command operation by operation: when the
  operations of a message, each with its length in its second byte, can be carried out one
  after the other, the loop over the bytes of the message gives the same result.
\<close>

theorem do_rr_operations:
  assumes "\<forall>m \<in> set ms. 24 \<le> length m \<and> 8 * unat (m ! 1) = length m" "length ms \<le> fuel" "do_pcos fl ms s = Inr r"
  shows "do_rr_loop fuel fl (concat ms) s = Inr r"
proof -
  have "\<forall>m \<in> set ms. pcos.msg_ok m" using assms(1) by (simp add: pcos.msg_ok_def pco_len_def)
  from do_rr_loop_concat [OF this assms(2)] assms(3) show ?thesis unfolding le_r_def by blast
qed

theorem do_rr_operations_witness:
  "do_rr_loop 2 0 (concat [[1, 3] @ replicate 22 0, [9, 3] @ replicate 22 0]) ex_state = Inr (True, ex_state)"
proof -
  have "rr_pco_check 24 ([1, 3] @ replicate 22 0) = Inr True" "rr_pco_check 24 ([9, 3] @ replicate 22 0) = Inr False"
    by code_simp+
  moreover have "pco_loop (Suc 65535) 0 24 ([1, 3] @ replicate 22 0) 1 irr ex_state = Inr ex_state" for irr
    unfolding pco_loop.simps by (simp add: ex_state_def)
  ultimately show ?thesis
    using do_rr_operations [of "[[1, 3] @ replicate 22 0, [9, 3] @ replicate 22 0]" 2 0 ex_state]
    by (simp add: do_pco_def Let_def)
qed

text \<open>
  A prefix control operation with length zero never ends \<open>do_rr\<close>: the
  loop does not advance, whatever number of iterations is allowed.
\<close>

theorem do_rr_zero_stuck:
  assumes "24 \<le> length cp" "cp ! 1 = 0"
  shows "do_rr_loop fuel fl cp s = Inl Diverge"
  by (rule do_rr_loop_zero) (use assms in \<open>simp_all add: rpm_len_def\<close>)

theorem do_rr_zero_stuck_witness: "do_rr_loop 1000 0 (replicate 24 0) ex_state = Inl Diverge"
  by (rule do_rr_zero_stuck) simp_all

text \<open>
  The record of the segments processed does not protect against
  duplicates: \<open>rr_command_check\<close> finds the segment of a repeated command recorded and still
  lets the command pass to be carried out again.
\<close>

theorem rr_replay_accepted:
  assumes "40 \<le> length rr" "\<not> IN6_IS_ADDR_MULTICAST dst" "rro_seqnum (rro s) = rr_seqnum rr"
    "rr ! 9 AND ICMP6_RR_FLAGS_TEST = 0" "RR_ISSET_SEGNUM (rro_segnum_bits (rro s)) (rr ! 8)"
  shows "rr_command_check rr dst s = (True, s)"
  by (rule rr_command_duplicate [OF assms])

definition ex_replay :: rtadvd where
  "ex_replay = ex_state\<lparr>rro := \<lparr>rro_seqnum = 0, rro_segnum_bits = RR_SET_SEGNUM (replicate 8 0) 0\<rparr>\<rparr>"

theorem rr_replay_accepted_witness:
  "rr_command_check (replicate 40 0) (ex_addr 1) ex_replay = (True, ex_replay)"
proof (rule rr_replay_accepted)
  show "\<not> IN6_IS_ADDR_MULTICAST (ex_addr 1)" by code_simp
  show "RR_ISSET_SEGNUM (rro_segnum_bits (rro ex_replay)) (replicate 40 0 ! 8)"
    by (simp add: ex_replay_def RR_ISSET_SET)
  have "rr_seqnum (replicate 40 0) = 0" by code_simp
  then show "rro_seqnum (rro ex_replay) = rr_seqnum (replicate 40 0)" by (simp add: ex_replay_def)
qed simp_all

text \<open>
  The sequence numbers are compared as they lie in memory, so that on
  a little-endian machine a later command can count as old: after command number 1, number
  256 is rejected.
\<close>

theorem rr_seqnum_backwards:
  assumes "rro_seqnum (rro s) = rr_seqnum ([t, c, k, l] @ be32 1 @ xs)"
  shows "rr_command_check ([t, c, k, l] @ be32 256 @ ys) dst s = (False, s)"
proof -
  have "rr_seqnum ([t, c, k, l] @ be32 1 @ xs) = 0x1000000" "rr_seqnum ([t, c, k, l] @ be32 256 @ ys) = 0x10000"
    by (simp_all add: rr_seqnum_def le32_def rd32_def be32_def)
  then show ?thesis using assms by (simp add: rr_command_check_def)
qed

theorem rr_seqnum_backwards_witness:
  "rr_command_check ([138, 0, 0, 0] @ be32 256 @ replicate 32 0) (ex_addr 1)
     (ex_state\<lparr>rro := \<lparr>rro_seqnum = rr_seqnum ([138, 0, 0, 0] @ be32 1 @ []), rro_segnum_bits = []\<rparr>\<rparr>) =
   (False, ex_state\<lparr>rro := \<lparr>rro_seqnum = rr_seqnum ([138, 0, 0, 0] @ be32 1 @ []), rro_segnum_bits = []\<rparr>\<rparr>)"
  by (rule rr_seqnum_backwards [where xs = "[]"]) simp

end
