(* ===== verification/Configured.thy ===== *)
theory Configured
  imports Config Safety
begin

text \<open>
  What \<open>getconfig\<close> (\<open>src/rtadvd.tproj/config.c\<close>) leaves behind. Every part of it keeps the new
  \<open>struct rainfo\<close> well-formed and sets its fields within the bounds of RFC 4861; the prefixes
  are new objects; so what is linked into \<open>ralist\<close>, with its timer, keeps the invariant of the
  daemon. Assumed of the environment: \<open>inet_pton\<close> and \<open>getifaddrs\<close> give addresses of sixteen
  bytes, and the kernel describes an Ethernet interface with an address of six.
\<close>

section \<open>Strings fit the buffer\<close>

lemma tgetstr_room:
  assumes "tgetstr b key room = Inr (x, room')"
  shows "room' + (case x of None \<Rightarrow> 0 | Some str \<Rightarrow> Suc (length str)) \<le> room"
proof -
  have dec: "room' + Suc (length str) \<le> room" if "tdecode b i room = Inr (str, room')" for b i str room
  proof -
    from that obtain r where "str = takeWhile (\<lambda>c. c \<noteq> NUL) r" "room' = room - Suc (length r)" "Suc (length r) \<le> room"
      by (auto simp: tdecode_def res_simps split: if_splits)
    then show ?thesis using length_takeWhile_le [of "\<lambda>c. c \<noteq> NUL" r] by simp
  qed
  have "tgetstr_loop b key room bp = Inr (x, room') \<Longrightarrow> ?thesis" for bp
  proof (induction b key room bp rule: tgetstr_loop.induct)
    case (1 b key room bp)
    then show ?case
      by (subst (asm) (3) tgetstr_loop.simps)
        (auto simp: res_simps split: sum.splits if_splits prod.splits dest: dec)
  qed
  then show ?thesis using assms by (simp add: tgetstr_def)
qed

lemma agetstr_room:
  "agetstr e key room = Inr (x, room') \<Longrightarrow>
   room' + (case x of None \<Rightarrow> 0 | Some str \<Rightarrow> Suc (length str)) \<le> room"
  by (auto simp: agetstr_def tgetstr_room split: if_splits)

lemma numbered_room:
  "numbered e len key n i room = Inr (x, room') \<Longrightarrow>
   room' + (case x of None \<Rightarrow> 0 | Some str \<Rightarrow> Suc (length str)) \<le> room"
  by (fastforce simp: numbered_def res_simps split: if_splits option.splits dest: agetstr_room)

section \<open>Each part keeps the object well-formed\<close>

text \<open>What the parts after the router variables leave alone.\<close>

definition core ::
    "rainfo \<Rightarrow> nat \<times> nat option \<times> int \<times> timeval \<times> int \<times> prefix list \<times> in6_addr list \<times> string list" where
  "core rai = (rai_id rai, rai_timer rai, initcounter rai, lastsent rai, waiting rai, prefix_list rai,
     rdnss_list rai, dnssl_list rai)"

definition router_vars :: "rainfo \<Rightarrow> u32 \<times> u32 \<times> u16 \<times> u32 \<times> u32 \<times> int \<times> int \<times> int" where
  "router_vars rai = (maxinterval rai, mininterval rai, lifetime rai, reachabletime rai, hoplimit rai,
     managedflg rai, otherflg rai, rtpref rai)"

definition seg :: "rainfo \<Rightarrow> rainfo \<Rightarrow> bool" where
  "seg rai rai' \<longleftrightarrow> rainfo_wf rai' \<and> core rai' = core rai \<and> router_vars rai' = router_vars rai"

text \<open>The same, but for the DNS lists.\<close>

definition segw :: "rainfo \<Rightarrow> rainfo \<Rightarrow> bool" where
  "segw rai rai' \<longleftrightarrow> rainfo_wf rai' \<and> router_vars rai' = router_vars rai \<and>
     core (rai'\<lparr>rdnss_list := [], dnssl_list := []\<rparr>) = core (rai\<lparr>rdnss_list := [], dnssl_list := []\<rparr>)"

lemmas seg_simps = seg_def segw_def core_def router_vars_def

lemma seg_segw: "seg rai rai' \<Longrightarrow> segw rai rai'"
  by (simp add: seg_simps)

lemma segw_trans: "segw a b \<Longrightarrow> segw b c \<Longrightarrow> segw a c"
  by (simp add: segw_def)

lemma seg_trans: "seg a b \<Longrightarrow> seg b c \<Longrightarrow> seg a c"
  by (simp add: seg_def)

lemma rainfo_zero_wf: "rainfo_wf (rainfo_zero r)"
  by (simp add: rainfo_zero_def rainfo_wf_def dnssl_ok_def capport_ok_def pref64_ok_def)

definition sdl_env_ok :: "cfgenv \<Rightarrow> bool" where
  "sdl_env_ok env \<longleftrightarrow> (\<forall>name d. if_nametosdl (iflist_sysctl env) name = Inr (Some d) \<longrightarrow> sdl_ok d)"

definition pton_ok :: "cfgenv \<Rightarrow> bool" where
  "pton_ok env \<longleftrightarrow> (\<forall>str a. inet_pton env str = Some a \<longrightarrow> in6_ok a)"

definition ifaddrs_ok :: "cfgenv \<Rightarrow> bool" where
  "ifaddrs_ok env \<longleftrightarrow> (\<forall>ifap ifa a. getifaddrs env = Some ifap \<longrightarrow> ifa \<in> set ifap \<longrightarrow> ifa_inet6 ifa = Some a \<longrightarrow> in6_ok a)"

lemma rainfo_wf_config [simp]:
  "rainfo_wf (rai\<lparr>ifindex := i\<rparr>) = rainfo_wf rai" "rainfo_wf (rai\<lparr>ifname := n\<rparr>) = rainfo_wf rai"
  "rainfo_wf (rai\<lparr>phymtu := m\<rparr>) = rainfo_wf rai" "rainfo_wf (rai\<lparr>maxinterval := w\<rparr>) = rainfo_wf rai"
  "rainfo_wf (rai\<lparr>mininterval := w\<rparr>) = rainfo_wf rai" "rainfo_wf (rai\<lparr>hoplimit := w\<rparr>) = rainfo_wf rai"
  "rainfo_wf (rai\<lparr>managedflg := i\<rparr>) = rainfo_wf rai" "rainfo_wf (rai\<lparr>otherflg := i\<rparr>) = rainfo_wf rai"
  "rainfo_wf (rai\<lparr>rtpref := i\<rparr>) = rainfo_wf rai" "rainfo_wf (rai\<lparr>reachabletime := w\<rparr>) = rainfo_wf rai"
  "rainfo_wf (rai\<lparr>retranstimer := w\<rparr>) = rainfo_wf rai" "rainfo_wf (rai\<lparr>clockskew := i\<rparr>) = rainfo_wf rai"
  "rainfo_wf (rai\<lparr>linkmtu := w\<rparr>) = rainfo_wf rai" "rainfo_wf (rai\<lparr>routes := i\<rparr>) = rainfo_wf rai"
  "rainfo_wf (rai\<lparr>rdnss_lifetime := w\<rparr>) = rainfo_wf rai" "rainfo_wf (rai\<lparr>dnssl_lifetime := w\<rparr>) = rainfo_wf rai"
  by (simp_all add: rainfo_wf_parts cong: option.case_cong)

lemma rainfo_wf_advlink:
  "rainfo_wf rai \<Longrightarrow> rainfo_wf (rai\<lparr>advlinkopt := False\<rparr>)"
  "rainfo_wf rai \<Longrightarrow> sdl_ok d \<Longrightarrow> rainfo_wf (rai\<lparr>advlinkopt := True, sdl := Some d\<rparr>)"
  by (simp_all add: rainfo_wf_parts cong: option.case_cong)

lemma seg_upd [simp]:
  "seg rai (x\<lparr>ifindex := i\<rparr>) = seg rai x" "seg rai (x\<lparr>ifname := n\<rparr>) = seg rai x"
  "seg rai (x\<lparr>phymtu := m\<rparr>) = seg rai x" "seg rai (x\<lparr>linkmtu := w\<rparr>) = seg rai x"
  "seg rai (x\<lparr>routes := i\<rparr>) = seg rai x"
  "seg rai (x\<lparr>rdnss_lifetime := w\<rparr>) = seg rai x" "seg rai (x\<lparr>dnssl_lifetime := w\<rparr>) = seg rai x"
  by (simp_all add: seg_simps)

lemma seg_refl: "rainfo_wf rai \<Longrightarrow> seg rai rai"
  by (simp add: seg_def)

lemma seg_advlink:
  "rainfo_wf rai \<Longrightarrow> seg rai (rai\<lparr>advlinkopt := False\<rparr>)"
  "rainfo_wf rai \<Longrightarrow> sdl_ok d \<Longrightarrow> seg rai (rai\<lparr>advlinkopt := True, sdl := Some d\<rparr>)"
  by (simp_all add: seg_simps rainfo_wf_advlink)

lemma config_iface_seg:
  assumes cfg: "config_iface env e intface rai = Inr rai'" and wf: "rainfo_wf rai" and env: "sdl_env_ok env"
  shows "seg rai rai'"
proof -
  from cfg obtain nolladdr rai1 n m where
    rai1: "(if \<not> nolladdr then
             bind_r (if_nametosdl (iflist_sysctl env) intface) (\<lambda>d.
               case d of None \<Rightarrow> Inl (Exit 1)
               | Some d \<Rightarrow> Inr (rai\<lparr>advlinkopt := True, sdl := Some d, ifindex := sdl_index d\<rparr>))
           else Inr (rai\<lparr>advlinkopt := False, ifindex := nametoindex env intface\<rparr>)) = Inr rai1"
    and rai': "rai' = rai1\<lparr>ifname := n, phymtu := m\<rparr>"
    unfolding config_iface_def res_simps Let_def sum.inject by blast
  have "seg rai rai1"
    using rai1 seg_advlink [OF wf] env
    by (cases nolladdr) (auto simp: res_simps sdl_env_ok_def split: option.splits)
  then show ?thesis using rai' by simp
qed

lemma uint_u32: "0 \<le> v \<Longrightarrow> v < 2 ^ 32 \<Longrightarrow> uint (word_of_int v :: u32) = v"
  by (simp add: uint_word_of_int_eq take_bit_int_eq_self)

lemma int_and_bit: "(x::int) AND 2 ^ n = (if bit x n then 2 ^ n else 0)"
  by (rule bit_eqI) (auto simp: bit_and_iff bit_exp_iff)

lemma int_and_flags:
  "(x::int) AND 0x80 \<in> {0, 0x80}" "x AND 0x40 \<in> {0, 0x40}" "x AND 0x18 \<in> {0, 0x08, 0x10, 0x18}"
proof -
  show "x AND 0x80 \<in> {0, 0x80}" "x AND 0x40 \<in> {0, 0x40}" using int_and_bit [of x 7] int_and_bit [of x 6] by auto
  have "x AND 0x18 = (x AND 2 ^ 3) OR (x AND 2 ^ 4)" by (simp flip: bit.conj_disj_distrib)
  then show "x AND 0x18 \<in> {0, 0x08, 0x10, 0x18}" unfolding int_and_bit by auto
qed

lemma int_and_255: "word_of_int (x AND 0xff) \<le> (0xff :: u32)"
proof -
  have "0 \<le> x AND 0xff" "x AND 0xff \<le> 0xff" by simp_all
  then show ?thesis by (simp add: word_le_def uint_u32)
qed
lemma config_intervals_ok:
  assumes "config_intervals e rai = Inr rai'" "rainfo_wf rai"
  shows "rainfo_wf rai'" "core rai' = core rai"
    "4 \<le> uint (maxinterval rai')" "uint (maxinterval rai') \<le> 1800"
    "3 \<le> uint (mininterval rai')" "4 * uint (mininterval rai') \<le> 3 * uint (maxinterval rai')"
  using assms by (auto simp: config_intervals_def res_simps seg_simps uint_u32 split: if_splits)

lemma config_flags_ok:
  assumes "config_flags e rai room = Inr (rai', room')" "rainfo_wf rai"
  shows "rainfo_wf rai'" "core rai' = core rai" "room' \<le> room"
    "maxinterval rai' = maxinterval rai" "mininterval rai' = mininterval rai"
    "hoplimit rai' \<le> 255" "managedflg rai' \<in> {0, 0x80}" "otherflg rai' \<in> {0, 0x40}" "rtpref rai' \<in> {0, 0x08, 0x18}"
proof -
  from assms(1) obtain chlim val where
    rai': "rai' = rai\<lparr>hoplimit := word_of_int (chlim AND 0xff), managedflg := val AND 0x80,
       otherflg := val AND 0x40, rtpref := val AND 0x18\<rparr>" and val: "val AND 0x18 \<noteq> 0x10"
    and str: "\<exists>flagstr. agetstr e ''raflags'' room = Inr (flagstr, room')"
    unfolding config_flags_def res_simps if_Inl_Inr sum.inject prod.inject case_prod_unfold
    by (metis prod.collapse)
  from str have "room' \<le> room" by (auto dest!: agetstr_room)
  with rai' val show "rainfo_wf rai'" "core rai' = core rai" "room' \<le> room"
    "maxinterval rai' = maxinterval rai" "mininterval rai' = mininterval rai"
    "hoplimit rai' \<le> 255" "managedflg rai' \<in> {0, 0x80}" "otherflg rai' \<in> {0, 0x40}" "rtpref rai' \<in> {0, 0x08, 0x18}"
    using assms(2) int_and_flags [of val] int_and_255 [of chlim] by (auto simp: core_def)
qed

lemma config_lifetimes_ok:
  assumes "config_lifetimes e fwd rai = Inr rai'" "rainfo_wf rai"
  shows "rainfo_wf rai'" "core rai' = core rai"
    "maxinterval rai' = maxinterval rai" "mininterval rai' = mininterval rai" "hoplimit rai' = hoplimit rai"
    "managedflg rai' = managedflg rai" "otherflg rai' = otherflg rai" "rtpref rai' = rtpref rai"
    "reachabletime rai' \<le> 3600000"
    "uint (lifetime rai') = 0 \<or> uint (maxinterval rai) \<le> uint (lifetime rai') \<and> uint (lifetime rai') \<le> 9000 \<and> fwd \<noteq> 0"
proof -
  from assms(1) obtain rltime rtime retrans skew where
    rai': "rai' = rai\<lparr>lifetime := word_of_int (rltime AND 0xffff), reachabletime := word_of_int rtime,
       retranstimer := word_of_int retrans, clockskew := skew\<rparr>"
    and lt: "\<not> (rltime \<noteq> 0 \<and> (rltime < uint (maxinterval rai) \<or> rltime > 9000))" "\<not> (rltime \<noteq> 0 \<and> fwd = 0)"
    and rt: "\<not> (rtime < 0 \<or> rtime > 3600000)"
    unfolding config_lifetimes_def res_simps if_Inl_Inr sum.inject by blast
  have "0 \<le> rltime" "rltime \<le> 9000" using lt(1) uint_ge_0 [of "maxinterval rai"] by linarith+
  moreover have "rltime AND 0xffff = take_bit 16 rltime" by (simp add: take_bit_eq_mask mask_eq_exp_minus_1)
  ultimately have "uint (word_of_int (rltime AND 0xffff) :: u16) = rltime"
    by (simp add: uint_word_of_int_eq take_bit_int_eq_self)
  with assms(2) rai' lt rt show "rainfo_wf rai'" "core rai' = core rai"
    "maxinterval rai' = maxinterval rai" "mininterval rai' = mininterval rai" "hoplimit rai' = hoplimit rai"
    "managedflg rai' = managedflg rai" "otherflg rai' = otherflg rai" "rtpref rai' = rtpref rai"
    "reachabletime rai' \<le> 3600000"
    "uint (lifetime rai') = 0 \<or> uint (maxinterval rai) \<le> uint (lifetime rai') \<and> uint (lifetime rai') \<le> 9000 \<and> fwd \<noteq> 0"
    by (auto simp: core_def word_le_def uint_u32)
qed

section \<open>The prefixes are new objects\<close>

definition allocated :: "rtadvd \<Rightarrow> rtadvd \<Rightarrow> bool" where
  "allocated s0 s \<longleftrightarrow> (\<exists>n k. s = s0\<lparr>next_addr := k, gtod_calls := n\<rparr> \<and> next_addr s0 < k)"

lemma allocated_clock: "allocated s0 s \<Longrightarrow> allocated s0 (s\<lparr>gtod_calls := n\<rparr>)"
  by (fastforce simp: allocated_def)

lemma allocated_next: "allocated s0 s \<Longrightarrow> allocated s0 (s\<lparr>next_addr := Suc (next_addr s)\<rparr>)"
proof -
  assume "allocated s0 s"
  then obtain n k where "s = s0\<lparr>next_addr := k, gtod_calls := n\<rparr>" "next_addr s0 < k" by (auto simp: allocated_def)
  then show ?thesis unfolding allocated_def by (intro exI [of _ n] exI [of _ "Suc k"]) simp
qed

definition pfx_inv :: "rtadvd \<Rightarrow> rainfo \<Rightarrow> rainfo \<Rightarrow> rtadvd \<Rightarrow> bool" where
  "pfx_inv s0 rai0 rai s \<longleftrightarrow> rainfo_wf rai \<and>
     core (rai\<lparr>prefix_list := []\<rparr>) = core (rai0\<lparr>prefix_list := []\<rparr>) \<and> router_vars rai = router_vars rai0 \<and>
     (\<forall>pp \<in> set (prefix_list rai). pfx_timer pp = None \<and> next_addr s0 < pfx_id pp \<and> pfx_id pp < next_addr s) \<and>
     distinct (map pfx_id (prefix_list rai)) \<and> allocated s0 s"

lemma pfx_inv_clock: "pfx_inv s0 rai0 rai s \<Longrightarrow> pfx_inv s0 rai0 rai (s\<lparr>gtod_calls := n\<rparr>)"
  by (auto simp: pfx_inv_def allocated_clock)

lemma pfx_inv_cons:
  assumes inv: "pfx_inv s0 rai0 rai s" and q: "prefix_ok q" "pfx_timer q = None" "pfx_id q = next_addr s"
  shows "pfx_inv s0 rai0 (rai\<lparr>prefix_list := q # prefix_list rai, pfxs := pfxs rai + 1\<rparr>) (s\<lparr>next_addr := Suc (next_addr s)\<rparr>)"
proof -
  have "rainfo_wf (rai\<lparr>prefix_list := q # prefix_list rai, pfxs := pfxs rai + 1\<rparr>)"
    using inv q(1) by (simp add: pfx_inv_def rainfo_wf_parts cong: option.case_cong)
  moreover have "next_addr s0 < next_addr s" using inv by (auto simp: pfx_inv_def allocated_def)
  moreover have "pfx_id q \<notin> pfx_id ` set (prefix_list rai)" using inv q(3) by (auto simp: pfx_inv_def)
  ultimately show ?thesis
    using inv q(2,3) by (auto simp: pfx_inv_def core_def router_vars_def less_SucI allocated_next)
qed

lemma config_decr_clock: "config_decr e key life s = Inr (x, s') \<Longrightarrow> \<exists>n. s' = s\<lparr>gtod_calls := n\<rparr>"
  by (cases s) (fastforce simp: config_decr_def res_simps gettimeofday_def Let_def split: if_splits)

lemma config_prefix_inv:
  assumes inv: "pfx_inv s0 rai0 rai s" and pton: "pton_ok env"
    and cfg: "config_prefix env e i (rai, room, s) = Inr (rai', room', s')"
  shows "pfx_inv s0 rai0 rai' s' \<and> room' \<le> room"
proof -
  from cfg obtain addr room1 where str: "agetstr e (entbuf i ''addr'') room = Inr (addr, room1)"
    unfolding config_prefix_def res_simps case_prod_unfold by auto
  note r1 = agetstr_room [OF str]
  show ?thesis
  proof (cases addr)
    case None
    then show ?thesis using cfg inv str r1 by (auto simp: config_prefix_def res_simps)
  next
    case (Some ad)
    from cfg str Some obtain a plen flagstr flags vltime vexpire s1 pltime pexpire s2 where
      a: "inet_pton env ad = Some a" and plen: "\<not> (plen < 0 \<or> plen > 128)"
      and fl: "agetstr e (entbuf i ''pinfoflags'') room1 = Inr (flagstr, room')"
      and d: "config_decr e (entbuf i ''vltimedecr'') vltime s = Inr (vexpire, s1)"
        "config_decr e (entbuf i ''pltimedecr'') pltime s1 = Inr (pexpire, s2)"
      and res: "rai' = rai\<lparr>prefix_list := \<lparr>pfx_id = next_addr s2, pfx_timer = None, validlifetime = vltime, vltimeexpire = vexpire,
                    preflifetime = pltime, pltimeexpire = pexpire, onlinkflg = word_of_int (flags AND 0x80),
                    autoconfflg = word_of_int (flags AND 0x40), pfx_prefixlen = nat plen,
                    origin = PREFIX_FROM_CONFIG, pfx_prefix = a\<rparr> # prefix_list rai, pfxs := pfxs rai + 1\<rparr>"
        "s' = s2\<lparr>next_addr := Suc (next_addr s2)\<rparr>"
      unfolding config_prefix_def by (cases "inet_pton env ad") (auto simp: res_simps if_Inl_Inr Let_def)
    from config_decr_clock [OF d(1)] config_decr_clock [OF d(2)] obtain n m
      where "s1 = s\<lparr>gtod_calls := m\<rparr>" "s2 = s1\<lparr>gtod_calls := n\<rparr>" by blast
    then have "pfx_inv s0 rai0 rai s2" using pfx_inv_clock [OF inv] by simp
    from pfx_inv_cons [OF this] show ?thesis
      using res a plen pton r1 agetstr_room [OF fl]
      by (auto simp: prefix_ok_def pton_ok_def nat_le_iff split: option.splits)
  qed
qed

lemma get_prefix_one_inv:
  assumes inv: "pfx_inv s0 rai0 rai s" and a: "\<And>a. ifa_inet6 ifa = Some a \<Longrightarrow> in6_ok a"
    and cfg: "get_prefix_one ifa (rai, s) = Inr (rai', s')"
  shows "pfx_inv s0 rai0 rai' s'"
proof -
  have "length (mask_addr x m) = 16" if "in6_ok x" for x m
    using that by (simp add: mask_addr_def in6_ok_def)
  then have "pfx_inv s0 rai0 (rai\<lparr>prefix_list := \<lparr>pfx_id = next_addr s, pfx_timer = None,
        validlifetime = v, vltimeexpire = 0, preflifetime = w, pltimeexpire = 0, onlinkflg = 1, autoconfflg = 1,
        pfx_prefixlen = nat plen, origin = PREFIX_FROM_KERNEL, pfx_prefix = mask_addr x m\<rparr> # prefix_list rai,
        pfxs := pfxs rai + 1\<rparr>) (s\<lparr>next_addr := Suc (next_addr s)\<rparr>)"
    if "in6_ok x" "plen \<le> 128" for v w plen x m
    using that by (intro pfx_inv_cons [OF inv]) (simp_all add: prefix_ok_def in6_ok_def nat_le_iff)
  then show ?thesis
    using cfg inv a by (auto simp: get_prefix_one_def Let_def split: if_splits option.splits)
qed

lemma get_prefix_inv:
  assumes inv: "pfx_inv s0 rai0 rai s" and a: "ifaddrs_ok env" and cfg: "get_prefix env (rai, s) = Inr (rai', s')"
  shows "pfx_inv s0 rai0 rai' s'"
proof -
  from cfg obtain ifap where ifap: "getifaddrs env = Some ifap" "fold_r get_prefix_one ifap (rai, s) = Inr (rai', s')"
    by (auto simp: get_prefix_def split: option.splits)
  have "safe_r (\<lambda>(rai, s). pfx_inv s0 rai0 rai s) UNIV (fold_r get_prefix_one ifap (rai, s))"
    by (rule fold_r_safe)
      (use inv a ifap get_prefix_one_inv in \<open>fastforce simp: safe_r_UNIV ifaddrs_ok_def\<close>)+
  with ifap show ?thesis by simp
qed

lemma config_prefixes_inv:
  assumes inv: "pfx_inv s0 rai0 rai s" and env: "pton_ok env" "ifaddrs_ok env"
    and cfg: "config_prefixes env e (rai, room, s) = Inr (rai', room', s')"
  shows "pfx_inv s0 rai0 rai' s' \<and> room' \<le> room"
proof -
  let ?P = "\<lambda>(rai, r, s). pfx_inv s0 rai0 rai s \<and> r \<le> room"
  have "safe_r ?P UNIV (fold_r (config_prefix env e) (up_to MAXPREFIX) (rai, room, s))"
  proof (rule fold_r_safe)
    fix i x assume "?P x"
    then obtain rai1 r1 s1 where x: "x = (rai1, r1, s1)" "pfx_inv s0 rai0 rai1 s1" "r1 \<le> room" by auto
    have "?P y" if "config_prefix env e i x = Inr y" for y
      using that config_prefix_inv [OF x(2) env(1), of e i r1] x by (cases y) force
    then show "safe_r ?P UNIV (config_prefix env e i x)" unfolding safe_r_UNIV by blast
  qed (use inv in simp)
  moreover from cfg obtain rai1 r1 s1 where
    "fold_r (config_prefix env e) (up_to MAXPREFIX) (rai, room, s) = Inr (rai1, r1, s1)"
    "(if pfxs rai1 = 0 then bind_r (get_prefix env (rai1, s1)) (\<lambda>(rai', s'). Inr (rai', r1, s'))
      else Inr (rai1, r1, s1)) = Inr (rai', room', s')"
    unfolding config_prefixes_def res_simps by auto
  ultimately show ?thesis
    by (auto simp: res_simps split: if_splits dest: get_prefix_inv [OF _ env(2)])
qed

section \<open>The other options\<close>

lemma config_mtu_seg:
  assumes "config_mtu e rai room = Inr (rai', room')" "rainfo_wf rai"
  shows "seg rai rai' \<and> room' \<le> room"
proof -
  from assms(1) obtain mtu where
    cfg: "(if mtu = 0 then
       bind_r (agetstr e ''mtu'' room) (\<lambda>(mtustr, room').
       Inr (rai\<lparr>linkmtu := (if mtustr = Some ''auto'' then word_of_int (phymtu rai) else 0)\<rparr>, room'))
     else if mtu < word_of_int IPV6_MMTU \<or> word_of_int (phymtu rai) < mtu then Inl (Exit 1)
     else Inr (rai\<lparr>linkmtu := mtu\<rparr>, room)) = Inr (rai', room')"
    unfolding config_mtu_def res_simps by blast
  show ?thesis
  proof (cases "mtu = 0")
    case True
    with cfg obtain x where "agetstr e ''mtu'' room = Inr (x, room')" "\<exists>w. rai' = rai\<lparr>linkmtu := w\<rparr>"
      by (auto simp: res_simps)
    then show ?thesis using seg_refl [OF assms(2)] by (auto dest!: agetstr_room)
  next
    case False
    with cfg have "rai' = rai\<lparr>linkmtu := mtu\<rparr>" "room' = room" by (simp_all only: if_False if_Inl_Inr sum.inject prod.inject)
    then show ?thesis using seg_refl [OF assms(2)] by simp
  qed
qed

lemma seg_route:
  "rainfo_wf rai \<Longrightarrow> route_ok rti \<Longrightarrow> seg rai (rai\<lparr>route_list := rti # route_list rai\<rparr>)"
  by (simp add: seg_simps rainfo_wf_parts cong: option.case_cong)

lemma config_route_seg:
  assumes wf: "rainfo_wf rai" and pton: "pton_ok env"
    and cfg: "config_route env e i (rai, room) = Inr (rai', room')"
  shows "seg rai rai' \<and> room' \<le> room"
proof -
  from cfg obtain p q where "agetstr e (entbuf i ''rtprefix'') room = Inr p"
    "(case fst p of None \<Rightarrow> agetstr e (entbuf i ''rtrprefix'') (snd p) | Some a \<Rightarrow> Inr (Some a, snd p)) = Inr q"
    unfolding config_route_def case_prod_unfold res_simps fst_conv snd_conv by blast
  then obtain addr0 room1 addr room2 where
    s1: "agetstr e (entbuf i ''rtprefix'') room = Inr (addr0, room1)" and
    s2: "(case addr0 of None \<Rightarrow> agetstr e (entbuf i ''rtrprefix'') room1 | Some a \<Rightarrow> Inr (Some a, room1)) = Inr (addr, room2)"
    by (metis prod.collapse)
  have r2: "room2 \<le> room"
    using agetstr_room [OF s1] s2 by (auto split: option.splits dest!: agetstr_room)
  show ?thesis
  proof (cases addr)
    case None
    then show ?thesis using cfg wf s1 s2 r2 by (auto simp: config_route_def res_simps seg_refl)
  next
    case (Some ad)
    from cfg s1 s2 Some obtain a plen flagstr ltm pref where
      a: "inet_pton env ad = Some a" and plen: "\<not> (plen < 0 \<or> plen > 128)"
      and fl: "agetstr e (entbuf i ''rtflags'') room2 = Inr (flagstr, room')"
      and res: "rai' = rai\<lparr>route_list := \<lparr>ltime = ltm, rti_rtpref = pref, rti_prefixlen = nat plen, rti_prefix = a\<rparr> #
        route_list rai, routes := routes rai + 1\<rparr>"
      unfolding config_route_def by (cases "inet_pton env ad") (auto simp: res_simps if_Inl_Inr Let_def)
    have "room' \<le> room" using r2 agetstr_room [OF fl] by simp
    moreover have "route_ok \<lparr>ltime = ltm, rti_rtpref = pref, rti_prefixlen = nat plen, rti_prefix = a\<rparr>"
      using a plen pton by (auto simp: route_ok_def pton_ok_def nat_le_iff)
    ultimately show ?thesis using seg_route [OF wf] res by simp
  qed
qed

lemma config_routes_seg:
  assumes wf: "rainfo_wf rai" and pton: "pton_ok env"
    and cfg: "config_routes env e (rai, room) = Inr (rai', room')"
  shows "seg rai rai' \<and> room' \<le> room"
proof -
  let ?P = "\<lambda>(rai1, r1). seg rai rai1 \<and> r1 \<le> room"
  have "safe_r ?P UNIV (fold_r (config_route env e) (up_to MAXROUTE) (rai, room))"
  proof (rule fold_r_safe)
    fix i x assume "?P x"
    then obtain rai1 r1 where x: "x = (rai1, r1)" "seg rai rai1" "r1 \<le> room" by auto
    have "?P y" if "config_route env e i x = Inr y" for y
      using that config_route_seg [OF _ pton, of rai1 e i r1] x seg_trans [OF x(2)]
      by (cases y) (force simp: seg_def)
    then show "safe_r ?P UNIV (config_route env e i x)" unfolding safe_r_UNIV by blast
  qed (use wf in \<open>simp add: seg_refl\<close>)
  with cfg show ?thesis by (simp add: config_routes_def)
qed

lemma config_rdnss_Inr:
  "config_rdnss env e n x (rai, room) = Inr y \<Longrightarrow>
   \<exists>addr a room1. numbered e 256 ''rdnssaddr'' n x room = Inr (Some addr, room1) \<and>
     inet_pton env addr = Some a \<and> y = (rai\<lparr>rdnss_list := a # rdnss_list rai\<rparr>, room1)"
  by (cases "numbered e 256 ''rdnssaddr'' n x room")
    (auto simp: config_rdnss_def split: prod.splits option.splits if_splits)

lemma config_rdnss_loop:
  assumes pton: "pton_ok env"
  shows "fold_r (config_rdnss env e n) xs (rai, room) = Inr (rai', room') \<Longrightarrow> rdnss_list rai = ls \<Longrightarrow>
    \<exists>as. length as = length xs \<and> (\<forall>a \<in> set as. in6_ok a) \<and> room' \<le> room \<and> rai' = rai\<lparr>rdnss_list := as @ ls\<rparr>"
proof (induction xs arbitrary: rai room ls)
  case Nil
  then show ?case by auto
next
  case (Cons x xs)
  from Cons.prems obtain addr a room1 where
    num: "numbered e 256 ''rdnssaddr'' n x room = Inr (Some addr, room1)" and a: "inet_pton env addr = Some a"
    and rest: "fold_r (config_rdnss env e n) xs (rai\<lparr>rdnss_list := a # rdnss_list rai\<rparr>, room1) = Inr (rai', room')"
    by (auto simp: res_simps dest!: config_rdnss_Inr)
  from Cons.IH [OF rest, of "a # ls"] Cons.prems(2) obtain as where
    as: "length as = length xs" "\<forall>a \<in> set as. in6_ok a" "room' \<le> room1"
    and rai': "rai' = rai\<lparr>rdnss_list := a # rdnss_list rai, rdnss_list := as @ a # ls\<rparr>" by auto
  have "rai' = rai\<lparr>rdnss_list := (as @ [a]) @ ls\<rparr>" unfolding rai' by simp
  moreover have "room' \<le> room" "in6_ok a" using as(3) numbered_room [OF num] pton a by (auto simp: pton_ok_def)
  ultimately show ?case using as(1,2) by (intro exI [of _ "as @ [a]"]) auto
qed

lemma seg_dns:
  "rainfo_wf rai \<Longrightarrow> n = int (length as) \<Longrightarrow> \<forall>a \<in> set as. in6_ok a \<Longrightarrow>
   segw rai (rai\<lparr>rdnss_lifetime := w, rdnss_length := n, rdnss_list := as\<rparr>)"
  by (simp add: seg_simps rainfo_wf_parts cong: option.case_cong)

lemma config_dns_seg:
  assumes wf: "rainfo_wf rai" "rdnss_list rai = []" and pton: "pton_ok env"
  shows "safe_r (\<lambda>(rai', room'). segw rai rai' \<and> dnssl_list rai' = dnssl_list rai \<and> room' \<le> room) UNIV (config_dns env e rai room)"
  unfolding config_dns_def Let_def
proof (intro safe_r_bind_any)
  fix life num
  let ?w = "word_of_int life" and ?n = "s32 num"
  let ?r = "fold_r (config_rdnss env e ?n) (down_from ?n) (rai\<lparr>rdnss_lifetime := ?w, rdnss_length := ?n\<rparr>, room)"
  have "safe_r (\<lambda>(rai', room'). segw rai rai' \<and> dnssl_list rai' = dnssl_list rai \<and> room' \<le> room) UNIV ?r" if "0 \<le> ?n"
    unfolding safe_r_UNIV
  proof (intro allI impI)
    fix x assume r: "?r = Inr x"
    obtain rai' room' where x: "x = (rai', room')" by fastforce
    from config_rdnss_loop [OF pton r [unfolded x], of "[]"] wf(2) obtain as where
      as: "length as = length (down_from ?n)" "\<forall>a \<in> set as. in6_ok a" "room' \<le> room"
      "rai' = rai\<lparr>rdnss_lifetime := ?w, rdnss_length := ?n, rdnss_list := as\<rparr>"
      unfolding append_Nil2 by auto
    then show "case x of (rai', room') \<Rightarrow> segw rai rai' \<and> dnssl_list rai' = dnssl_list rai \<and> room' \<le> room"
      using that seg_dns [OF wf(1), of ?n as ?w] x by (simp add: down_from_def)
  qed
  moreover have "segw rai (rai\<lparr>rdnss_lifetime := ?w, rdnss_length := 0\<rparr>)"
    using wf by (simp add: seg_simps rainfo_wf_parts cong: option.case_cong)
  ultimately show "safe_r (\<lambda>(rai', room'). segw rai rai' \<and> dnssl_list rai' = dnssl_list rai \<and> room' \<le> room) UNIV
      (if ?n < 0 then Inr (rai\<lparr>rdnss_lifetime := ?w, rdnss_length := 0\<rparr>, room) else ?r)"
    by simp
qed

lemma round8_word:
  assumes "k < 2 ^ 31"
  shows "(of_nat k :: u32) + (8 - (of_nat k AND 7)) = of_nat (k + (8 - k mod 8))"
proof -
  have "(of_nat k :: u32) AND 7 = take_bit 3 (of_nat k)" by (simp add: take_bit_eq_mask mask_eq_exp_minus_1)
  also have "\<dots> = of_nat (take_bit 3 k)" by (rule take_bit_of_nat)
  also have "take_bit 3 k = k mod 8" by (simp add: take_bit_eq_mod)
  finally show ?thesis by (simp add: of_nat_diff)
qed

lemma round8_and:
  assumes "k < 2 ^ 31"
  shows "(of_nat (k + (8 - k mod 8)) :: u32) AND 7 = 0" "unat (of_nat (k + (8 - k mod 8)) :: u32) = k + (8 - k mod 8)"
proof -
  have "(k + (8 - k mod 8)) mod 8 = 0" by presburger
  then have "take_bit 3 (k + (8 - k mod 8)) = 0" by (simp add: take_bit_eq_mod)
  then have "take_bit 3 (of_nat (k + (8 - k mod 8)) :: u32) = 0" by (subst take_bit_of_nat, elim ssubst) simp
  then show "(of_nat (k + (8 - k mod 8)) :: u32) AND 7 = 0"
    by (simp add: take_bit_eq_mask mask_eq_exp_minus_1 del: of_nat_add)
  show "unat (of_nat (k + (8 - k mod 8)) :: u32) = k + (8 - k mod 8)"
    using assms by (intro unat_of_nat_u32) simp
qed

lemma seg_capport:
  assumes "rainfo_wf rai" "length url < 2 ^ 30"
  shows "seg rai (rai\<lparr>capport := Some url, capport_length := of_nat (length url),
    capport_option_length := of_nat (2 + length url + (8 - (2 + length url) mod 8))\<rparr>)"
  using assms by (simp add: seg_simps rainfo_wf_def dnssl_ok_def pref64_ok_def capport_ok_def)

lemma config_capport_seg:
  assumes wf: "rainfo_wf rai" and room: "room \<le> BUFSIZ"
  shows "safe_r (\<lambda>(rai', room'). seg rai rai' \<and> room' \<le> room) UNIV (config_capport e rai room)"
  unfolding config_capport_def
proof (rule safe_r_bind_any)
  fix x assume x: "agetstr e ''capport'' room = Inr x"
  obtain str room' where x': "x = (str, room')" by fastforce
  note r = agetstr_room [OF x [unfolded x']]
  show "safe_r (\<lambda>(rai', room'). seg rai rai' \<and> room' \<le> room) UNIV
    (case x of (str, room') \<Rightarrow> case str of None \<Rightarrow> Inr (rai, room')
     | Some url \<Rightarrow> let l = of_nat (length url) :: u32; ol = 2 + l
         in Inr (rai\<lparr>capport := Some url, capport_length := l, capport_option_length := ol + (8 - (ol AND 7))\<rparr>, room'))"
  proof (cases str)
    case None
    then show ?thesis using x' r seg_refl [OF wf] by simp
  next
    case (Some url)
    have l: "length url < 2 ^ 30" using r Some room by simp
    then have "2 + length url < 2 ^ 31" by simp
    from round8_word [OF this] have
      "(2 + of_nat (length url) :: u32) + (8 - ((2 + of_nat (length url)) AND 7)) =
       of_nat (2 + length url + (8 - (2 + length url) mod 8))"
      by (simp del: of_nat_diff)
    then show ?thesis using x' Some r seg_capport [OF wf l] by (simp only: prod.case option.case Let_def safe_r_simps) simp
  qed
qed

definition dom_size :: "string list \<Rightarrow> nat" where
  "dom_size ds = (\<Sum>d\<leftarrow>ds. length d + 2)"

lemma trim_dots_length: "length (trim_dots d) \<le> length d"
  unfolding trim_dots_def by (metis length_dropWhile_le length_rev order_trans)

lemma config_domain_Inr:
  assumes "config_domain e x (rai, room) = Inr y"
  shows "\<exists>ds room1. dom_size ds + 2 * room1 \<le> 2 * room \<and>
     y = (rai\<lparr>dnssl_list := ds @ dnssl_list rai,
            dnssl_option_length := dnssl_option_length rai + of_nat (dom_size ds)\<rparr>, room1)"
proof -
  from assms obtain domain room1 where num: "numbered e 32 ''dnssldomain'' (dnssl_length rai) x room = Inr (Some domain, room1)"
    and y: "y = (let d = trim_dots domain
         in (if d \<noteq> [] then rai\<lparr>dnssl_list := d # dnssl_list rai,
                     dnssl_option_length := dnssl_option_length rai + of_nat (length d + 2)\<rparr>
                 else rai, room1))"
    by (cases "numbered e 32 ''dnssldomain'' (dnssl_length rai) x room")
      (auto simp: config_domain_def Let_def split: prod.splits option.splits)
  define ds where "ds = (if trim_dots domain \<noteq> [] then [trim_dots domain] else [])"
  have "dom_size ds + 2 * room1 \<le> 2 * room"
    using numbered_room [OF num] trim_dots_length [of domain] by (simp add: ds_def dom_size_def)
  moreover have "y = (rai\<lparr>dnssl_list := ds @ dnssl_list rai,
            dnssl_option_length := dnssl_option_length rai + of_nat (dom_size ds)\<rparr>, room1)"
    by (simp add: y ds_def Let_def dom_size_def)
  ultimately show ?thesis by blast
qed

lemma config_domain_loop:
  "fold_r (config_domain e) xs (rai, room) = Inr (rai', room') \<Longrightarrow>
   \<exists>ds. dom_size ds + 2 * room' \<le> 2 * room \<and>
     rai' = rai\<lparr>dnssl_list := ds @ dnssl_list rai,
       dnssl_option_length := dnssl_option_length rai + of_nat (dom_size ds)\<rparr>"
proof (induction xs arbitrary: rai room)
  case Nil
  then show ?case by (intro exI [of _ "[]"]) (simp add: dom_size_def)
next
  case (Cons x xs)
  from Cons.prems obtain ds1 room1 where s1: "dom_size ds1 + 2 * room1 \<le> 2 * room"
    and rest: "fold_r (config_domain e) xs (rai\<lparr>dnssl_list := ds1 @ dnssl_list rai,
       dnssl_option_length := dnssl_option_length rai + of_nat (dom_size ds1)\<rparr>, room1) = Inr (rai', room')"
    (is "fold_r _ _ (?rai1, _) = _")
    by (auto simp: res_simps dest!: config_domain_Inr)
  from Cons.IH [OF rest] obtain ds where s2: "dom_size ds + 2 * room' \<le> 2 * room1"
    and rai': "rai' = ?rai1\<lparr>dnssl_list := ds @ dnssl_list ?rai1,
       dnssl_option_length := dnssl_option_length ?rai1 + of_nat (dom_size ds)\<rparr>" by blast
  have "rai' = rai\<lparr>dnssl_list := (ds @ ds1) @ dnssl_list rai,
       dnssl_option_length := dnssl_option_length rai + of_nat (dom_size (ds @ ds1))\<rparr>"
    unfolding rai' by (simp add: dom_size_def)
  moreover have "dom_size (ds @ ds1) + 2 * room' \<le> 2 * room" using s1 s2 by (simp add: dom_size_def)
  ultimately show ?case by blast
qed

lemma seg_dnssl:
  assumes "rainfo_wf rai" "v AND 7 = 0" "8 + dom_size ds \<le> unat v"
  shows "segw rai (rai\<lparr>dnssl_lifetime := w, dnssl_option_length := v, dnssl_length := n, dnssl_list := ds\<rparr>)"
  using assms by (simp add: seg_simps rainfo_wf_parts dom_size_def cong: option.case_cong)

lemma config_dnssl_seg:
  assumes wf: "rainfo_wf rai" "dnssl_list rai = []" and room: "room \<le> BUFSIZ"
  shows "safe_r (\<lambda>(rai', room'). segw rai rai' \<and> room' \<le> room) UNIV (config_dnssl e rai room)"
  unfolding config_dnssl_def Let_def
proof (intro safe_r_bind_any)
  fix life num
  let ?w = "word_of_int life" and ?n = "s32 num"
  let ?rai = "rai\<lparr>dnssl_lifetime := ?w, dnssl_option_length := 8\<rparr>"
  let ?r = "bind_r (fold_r (config_domain e) (down_from ?n) (?rai\<lparr>dnssl_length := ?n\<rparr>, room)) (\<lambda>(rai2, room').
          Inr (rai2\<lparr>dnssl_option_length := dnssl_option_length rai2 + (8 - (dnssl_option_length rai2 AND 7))\<rparr>, room'))"
  have "safe_r (\<lambda>(rai', room'). segw rai rai' \<and> room' \<le> room) UNIV ?r"
  proof (rule safe_r_bind_any)
    fix x assume r: "fold_r (config_domain e) (down_from ?n) (?rai\<lparr>dnssl_length := ?n\<rparr>, room) = Inr x"
    obtain rai2 room' where x: "x = (rai2, room')" by fastforce
    from config_domain_loop [OF r [unfolded x]] obtain ds where sz: "dom_size ds + 2 * room' \<le> 2 * room"
      and rai2: "rai2 = ?rai\<lparr>dnssl_length := ?n, dnssl_list := ds @ dnssl_list (?rai\<lparr>dnssl_length := ?n\<rparr>),
        dnssl_option_length := dnssl_option_length (?rai\<lparr>dnssl_length := ?n\<rparr>) + of_nat (dom_size ds)\<rparr>" by blast
    have k: "8 + dom_size ds < 2 ^ 31" using sz room by simp
    have ol: "dnssl_option_length rai2 = of_nat (8 + dom_size ds)" unfolding rai2 by simp
    have "rai2\<lparr>dnssl_option_length := dnssl_option_length rai2 + (8 - (dnssl_option_length rai2 AND 7))\<rparr> =
       rai\<lparr>dnssl_lifetime := ?w, dnssl_option_length := of_nat (8 + dom_size ds + (8 - (8 + dom_size ds) mod 8)),
         dnssl_length := ?n, dnssl_list := ds\<rparr>"
      unfolding ol round8_word [OF k] unfolding rai2 using wf(2) by simp
    then show "safe_r (\<lambda>(rai', room'). segw rai rai' \<and> room' \<le> room) UNIV
      (case x of (rai2, room') \<Rightarrow>
         Inr (rai2\<lparr>dnssl_option_length := dnssl_option_length rai2 + (8 - (dnssl_option_length rai2 AND 7))\<rparr>, room'))"
      using seg_dnssl [OF wf(1) round8_and(1) [OF k], of ds] round8_and(2) [OF k] sz x
      by (simp only: prod.case safe_r_simps) simp
  qed
  moreover have "segw rai (?rai\<lparr>dnssl_length := 0\<rparr>)"
    using wf by (simp add: seg_simps rainfo_wf_parts cong: option.case_cong)
  ultimately show "safe_r (\<lambda>(rai', room'). segw rai rai' \<and> room' \<le> room) UNIV
      (if ?n < 0 then Inr (?rai\<lparr>dnssl_length := 0\<rparr>, room) else ?r)"
    by simp
qed

lemma seg_pref64:
  assumes "rainfo_wf rai" "in6_ok a" "l \<in> {32, 40, 48, 56, 64, 96}"
  shows "seg rai (rai\<lparr>pref64_specified := True, pref64_prefix_length := l, pref64_lifetime_plc := w, pref64_addr := a\<rparr>)"
  using assms(1,2,3) by (simp add: seg_simps rainfo_wf_parts cong: option.case_cong)

lemma config_pref64_seg:
  assumes wf: "rainfo_wf rai" and pton: "pton_ok env"
  shows "safe_r (\<lambda>(rai', room'). seg rai rai') UNIV (config_pref64 env e rai room)"
proof -
  have len: "l \<in> {32, 40, 48, 56, 64, 96}" if "pref64_prefix_length_get_plc l = Some plc" for l plc
    using that by (auto simp: pref64_prefix_length_get_plc_def split: if_splits)
  have "seg rai (rai\<lparr>pref64_specified := True, pref64_prefix_length := word_of_int plen,
      pref64_lifetime_plc := w, pref64_addr := a\<rparr>)"
    if "inet_pton env str = Some a" "pref64_prefix_length_get_plc (word_of_int plen) = Some plc" for str a plen plc w
    using seg_pref64 [OF wf _ len [OF that(2)]] pton that(1) by (auto simp: pton_ok_def)
  then show ?thesis
    unfolding config_pref64_def Let_def
    by (intro safe_r_bind_any) (auto simp: seg_refl [OF wf] split: prod.split option.split intro!: safe_r_bind_any)
qed

section \<open>The new interface\<close>

definition rfc_bounds :: "rainfo \<Rightarrow> bool" where
  "rfc_bounds rai \<longleftrightarrow>
     4 \<le> uint (maxinterval rai) \<and> uint (maxinterval rai) \<le> 1800 \<and>
     3 \<le> uint (mininterval rai) \<and> 4 * uint (mininterval rai) \<le> 3 * uint (maxinterval rai) \<and>
     (lifetime rai = 0 \<or> uint (maxinterval rai) \<le> uint (lifetime rai) \<and> uint (lifetime rai) \<le> 9000) \<and>
     reachabletime rai \<le> 3600000 \<and> hoplimit rai \<le> 255 \<and>
     managedflg rai \<in> {0, 0x80} \<and> otherflg rai \<in> {0, 0x40} \<and> rtpref rai \<in> {0, 0x08, 0x18}"

lemma rfc_bounds_vars: "router_vars rai' = router_vars rai \<Longrightarrow> rfc_bounds rai' = rfc_bounds rai"
  by (simp add: router_vars_def rfc_bounds_def)

definition new_rainfo :: "rtadvd \<Rightarrow> rainfo \<Rightarrow> rtadvd \<Rightarrow> bool" where
  "new_rainfo s0 rai s \<longleftrightarrow> rainfo_wf rai \<and> rai_id rai = next_addr s0 \<and> rai_timer rai = None \<and>
     initcounter rai = 0 \<and> lastsent rai = Timeval 0 0 \<and> waiting rai = 0 \<and>
     (\<forall>pp \<in> set (prefix_list rai). pfx_timer pp = None \<and> next_addr s0 < pfx_id pp \<and> pfx_id pp < next_addr s) \<and>
     distinct (map pfx_id (prefix_list rai)) \<and> allocated s0 s"

definition env_ok :: "cfgenv \<Rightarrow> bool" where
  "env_ok env \<longleftrightarrow> sdl_env_ok env \<and> pton_ok env \<and> ifaddrs_ok env"

lemma config_router_vars:
  assumes env: "env_ok env" and s1: "config_iface env e intface (rainfo_zero r) = Inr rai1"
    and s2: "config_intervals e rai1 = Inr rai2" and s3: "config_flags e rai2 BUFSIZ = Inr (rai3, room3)"
    and s4: "config_lifetimes e fwd rai3 = Inr rai4"
  shows "rainfo_wf rai4" "core rai4 = core (rainfo_zero r)" "rfc_bounds rai4" "room3 \<le> BUFSIZ"
proof -
  have g1: "seg (rainfo_zero r) rai1"
    using config_iface_seg [OF s1 rainfo_zero_wf] env by (simp add: env_ok_def)
  note wf1 = g1 [unfolded seg_def, THEN conjunct1]
  note g2 = config_intervals_ok [OF s2 wf1]
  note g3 = config_flags_ok [OF s3 g2(1)]
  note g4 = config_lifetimes_ok [OF s4 g3(1)]
  show "rainfo_wf rai4" "room3 \<le> BUFSIZ" by (fact g4(1), fact g3(3))
  show "core rai4 = core (rainfo_zero r)" using g1 g2(2) g3(2) g4(2) by (simp add: seg_def)
  have "lifetime rai4 = 0" if "uint (lifetime rai4) = 0" using that by (simp add: word_uint_eq_iff)
  then show "rfc_bounds rai4"
    using g2(3-6) g3(4-9) g4(3-10) by (auto simp: rfc_bounds_def)
qed

lemma config_rainfo_ok:
  assumes env: "env_ok env" and cfg: "config_rainfo env e intface fwd s = Inr (rai, s')"
  shows "new_rainfo s rai s'" "rfc_bounds rai"
proof -
  let ?r = "next_addr s"
  let ?s = "s\<lparr>next_addr := Suc ?r\<rparr>"
  from cfg obtain rai1 rai2 rai3 room3 rai4 rai5 room5 rai6 room6 rai7 room7 rai8 room8 rai9 room9 rai10 room10 room11 where
    s1: "config_iface env e intface (rainfo_zero ?r) = Inr rai1" and s2: "config_intervals e rai1 = Inr rai2"
    and s3: "config_flags e rai2 BUFSIZ = Inr (rai3, room3)" and s4: "config_lifetimes e fwd rai3 = Inr rai4"
    and s5: "config_prefixes env e (rai4, room3, ?s) = Inr (rai5, room5, s')"
    and s6: "config_mtu e rai5 room5 = Inr (rai6, room6)" and s7: "config_routes env e (rai6, room6) = Inr (rai7, room7)"
    and s8: "config_dns env e rai7 room7 = Inr (rai8, room8)" and s9: "config_dnssl e rai8 room8 = Inr (rai9, room9)"
    and s10: "config_capport e rai9 room9 = Inr (rai10, room10)" and s11: "config_pref64 env e rai10 room10 = Inr (rai, room11)"
    unfolding config_rainfo_def bind_r_Inr_iff by (auto simp: bind_r_Inr_iff)
  note v = config_router_vars [OF env s1 s2 s3 s4]
  have pl4: "prefix_list rai4 = []" using v(2) by (simp add: core_def rainfo_zero_def)
  have "allocated s ?s" unfolding allocated_def by (intro exI [of _ "gtod_calls s"] exI [of _ "Suc ?r"]) simp
  then have "pfx_inv s rai4 rai4 ?s" using v(1) pl4 by (simp add: pfx_inv_def)
  from config_prefixes_inv [OF this _ _ s5] env
  have p5: "pfx_inv s rai4 rai5 s'" and r5: "room5 \<le> BUFSIZ" using v(4) by (auto simp: env_ok_def)
  have wf5: "rainfo_wf rai5" using p5 by (simp add: pfx_inv_def)
  have pton: "pton_ok env" using env by (simp add: env_ok_def)
  have g6: "seg rai5 rai6" "room6 \<le> BUFSIZ" using config_mtu_seg [OF s6 wf5] r5 by auto
  have g7: "seg rai6 rai7" "room7 \<le> BUFSIZ" using config_routes_seg [OF _ pton s7] g6 by (auto simp: seg_def)
  have c5: "core (rai5\<lparr>prefix_list := []\<rparr>) = core (rai4\<lparr>prefix_list := []\<rparr>)" using p5 by (simp add: pfx_inv_def)
  have g57: "seg rai5 rai7" by (rule seg_trans [OF g6(1) g7(1)])
  then have l7: "rdnss_list rai7 = []" "dnssl_list rai7 = []"
    using c5 v(2) by (simp_all add: seg_def core_def rainfo_zero_def)
  have wf7: "rainfo_wf rai7" using g57 by (simp add: seg_def)
  have g8: "segw rai7 rai8" "dnssl_list rai8 = []" "room8 \<le> BUFSIZ"
    using config_dns_seg [OF wf7 l7(1) pton, of room7 e] s8 l7(2) g7(2) by auto
  have g9: "segw rai8 rai9" "room9 \<le> BUFSIZ"
    using config_dnssl_seg [OF _ g8(2,3), of e] s9 g8(1,3) by (auto simp: segw_def)
  have wf9: "rainfo_wf rai9" using g9(1) by (simp add: segw_def)
  have g10: "seg rai9 rai10" using config_capport_seg [OF wf9 g9(2), of e] s10 by simp
  have wf10: "rainfo_wf rai10" using g10 by (simp add: seg_def)
  have g11: "seg rai10 rai" using config_pref64_seg [OF wf10 pton, of e room10] s11 by simp
  have g: "segw rai5 rai"
    by (rule segw_trans [OF seg_segw [OF g57] segw_trans [OF g8(1) segw_trans [OF g9(1) seg_segw [OF seg_trans [OF g10 g11]]]]])
  then show "rfc_bounds rai"
    using v(3) p5 rfc_bounds_vars by (metis segw_def pfx_inv_def)
  show "new_rainfo s rai s'"
    using g p5 c5 v(2) by (simp add: new_rainfo_def segw_def pfx_inv_def core_def rainfo_zero_def)
qed

section \<open>Linking it in\<close>

lemma dinv_allocated: "dinv s0 \<Longrightarrow> allocated s0 s \<Longrightarrow> dinv s \<and> ralist s = ralist s0 \<and> next_addr s0 < next_addr s \<and>
    ifilist s = ifilist s0 \<and> accept_rr s = accept_rr s0"
  by (fastforce simp: dinv_def allocated_def)

lemma rfc_bounds_intervals:
  assumes "rfc_bounds rai"
  shows "3 \<le> mininterval rai \<and> mininterval rai < maxinterval rai \<and> maxinterval rai \<le> 1800"
  using assms by (auto simp: rfc_bounds_def word_le_def word_less_def)

lemma dinv_link:
  assumes inv: "dinv s0" and new: "new_rainfo s0 rai s" and ok: "rai_ok (timer_list s) x"
    and x: "rai_id x = rai_id rai" "prefix_list x = prefix_list rai"
  shows "dinv (s\<lparr>ralist := x # ralist s\<rparr>)"
proof -
  have s: "dinv s" "ralist s = ralist s0" "next_addr s0 < next_addr s"
    using dinv_allocated [OF inv] new by (auto simp: new_rainfo_def)
  have id: "rai_id x = next_addr s0" using new x(1) by (simp add: new_rainfo_def)
  have r: "next_addr s0 \<notin> rai_id ` set (ralist s0)" using inv by (auto simp: dinv_def)
  have ps: "pfx_id pp < next_addr s0" if "pp \<in> set (all_prefixes (ralist s0))" for pp
    using that inv by (auto simp: dinv_def)
  have ps': "next_addr s0 < pfx_id pp \<and> pfx_id pp < next_addr s" if "pp \<in> set (prefix_list rai)" for pp
    using that new by (auto simp: new_rainfo_def)
  have "timer_ok (x # ralist s) t" if "timer_ok (ralist s) t" for t
    using that by (auto simp: timer_ok_def split: expire_cb.splits)
  moreover have "distinct (map pfx_id (all_prefixes (x # ralist s)))"
  proof -
    have "distinct (map pfx_id (prefix_list rai))" "distinct (map pfx_id (all_prefixes (ralist s0)))"
      using new inv by (simp_all add: new_rainfo_def dinv_def)
    moreover have "pfx_id ` set (prefix_list rai) \<inter> pfx_id ` set (all_prefixes (ralist s0)) = {}"
      using ps ps' by (fastforce dest: less_trans)
    ultimately show ?thesis using x(2) s(2) by (simp add: image_Un)
  qed
  moreover have "\<forall>i \<in> set (map pfx_id (all_prefixes (x # ralist s))). i < next_addr s"
    using ps' x(2) s(1) by (auto simp: dinv_def)
  ultimately show ?thesis
    using s ok id r unfolding dinv_def by auto
qed

text \<open>The state before the loop: every interface has its timer.\<close>

definition started :: "rtadvd \<Rightarrow> bool" where
  "started s \<longleftrightarrow> dinv s \<and> (\<forall>rai \<in> set (ralist s). rai_timer rai \<noteq> None) \<and> \<not> accept_rr s"

lemma started_winv: "started s \<Longrightarrow> winv s"
  by (force simp: started_def winv_def key_inv_def rai_key_def)

lemma config_finish_ok:
  assumes st: "started s0" and new: "new_rainfo s0 rai s" and b: "rfc_bounds rai"
  shows "\<exists>s' data k. config_finish rai s = Inr s' \<and> started s' \<and> ifilist s' = ifilist s0 \<and>
    ralist s' = (with_data data rai)\<lparr>rai_timer := Some k\<rparr> # ralist s0"
proof -
  let ?r = "rai_id rai"
  have inv: "dinv s0" using st by (simp add: started_def)
  have s: "dinv s" "ralist s = ralist s0" "next_addr s0 < next_addr s" "ifilist s = ifilist s0" "accept_rr s = accept_rr s0"
    using dinv_allocated [OF inv] new by (auto simp: new_rainfo_def)
  have wf: "rainfo_wf rai" and zero: "initcounter rai = 0" "waiting rai = 0"
    using new by (simp_all add: new_rainfo_def)
  obtain data n where mp: "make_packet rai (s\<lparr>ralist := rai # ralist s\<rparr>) =
      Inr (with_data data rai, s\<lparr>ralist := rai # ralist s, gtod_calls := n\<rparr>)"
    using make_packet_data [OF wf] by blast
  let ?x = "with_data data rai"
  have fresh: "\<forall>y \<in> set (ralist s). rai_id y \<noteq> ?r" using inv s(2) new by (auto simp: dinv_def new_rainfo_def)
  define s1 where "s1 = rai_upd ?r (\<lambda>_. ?x) (s\<lparr>ralist := rai # ralist s, gtod_calls := n\<rparr>)"
  have l1: "ralist s1 = ?x # ralist s0" using fresh s(2) by (simp add: s1_def rai_upd_def map_idI)
  have s1: "s1 = s\<lparr>ralist := ?x # ralist s, gtod_calls := n\<rparr>"
    using l1 s(2) by (simp add: s1_def rai_upd_def)
  have "rai_ok (timer_list s) ?x"
    using new rfc_bounds_intervals [OF b]
    by (auto simp: rai_ok_def new_rainfo_def armed_def tv_time_def)
  from dinv_link [OF inv new this] have d1: "dinv s1" unfolding s1 by simp
  have at: "rai_at ?r s1 = Some ?x" by (simp add: rai_at_def l1)
  have "map (\<lambda>y. if rai_id y = ?r then y\<lparr>initcounter := 0, waiting := 0\<rparr> else y) (ralist s1) = ralist s1"
    using zero fresh unfolding l1 s(2) [symmetric] by (auto intro!: map_idI rainfo.equality)
  then have z: "rai_upd ?r (\<lambda>rai. rai\<lparr>initcounter := 0, waiting := 0\<rparr>) s1 = s1" by (simp add: rai_upd_def)
  have fin: "config_finish rai s = start_ra_timer ?r s1"
    unfolding config_finish_def start_ra_timer_def z Let_def mp by (simp add: s1_def)
  from start_ra_timer_ok [OF d1 at] obtain s' k where s': "start_ra_timer ?r s1 = Inr s'" "dinv s'"
    "ifilist s' = ifilist s1" "accept_rr s' = accept_rr s1"
    "ralist s' = ralist (rai_upd ?r (\<lambda>rai. rai\<lparr>initcounter := 0, waiting := 0, rai_timer := Some k\<rparr>) s1)" by blast
  have "?x\<lparr>initcounter := 0, waiting := 0, rai_timer := Some k\<rparr> = ?x\<lparr>rai_timer := Some k\<rparr>"
    using zero by simp
  then have l': "ralist s' = ?x\<lparr>rai_timer := Some k\<rparr> # ralist s0"
    using fresh unfolding s'(5) s(2) [symmetric] by (simp add: rai_upd_def l1 s(2) map_idI)
  have "started s'" "ifilist s' = ifilist s0"
    using st s s'(2-4) by (simp_all add: started_def l' s1)
  with fin s'(1) l' show ?thesis by auto
qed

lemma getconfig_ok:
  assumes st: "started s" and env: "env_ok env"
    and cfg: "getconfig env intface (hop, fwd, s) = Inr (hop', fwd', s')"
  shows "started s' \<and> ifilist s' = ifilist s \<and> (\<exists>rai. ralist s' = rai # ralist s \<and> rfc_bounds rai)"
proof -
  from cfg obtain e rai s1 where r: "config_rainfo env e intface fwd' s = Inr (rai, s1)"
    and f: "config_finish rai s1 = Inr s'"
    unfolding getconfig_def by (auto simp: bind_r_Inr_iff)
  note new = config_rainfo_ok [OF env r]
  from config_finish_ok [OF st new] f obtain data k where
    s': "started s'" "ifilist s' = ifilist s" "ralist s' = (with_data data rai)\<lparr>rai_timer := Some k\<rparr> # ralist s" by auto
  moreover have "rfc_bounds ((with_data data rai)\<lparr>rai_timer := Some k\<rparr>)"
    using new(2) by (auto simp: rfc_bounds_def with_data_def settled_def split: option.splits)
  ultimately show ?thesis by blast
qed

text \<open>A process before \<open>main\<close>: nothing is configured, and the clock and \<open>random\<close> behave.\<close>

definition boot :: "rtadvd \<Rightarrow> bool" where
  "boot s \<longleftrightarrow> ralist s = [] \<and> (\<forall>n. tv_time (gtod s n)) \<and> (\<forall>n. 0 \<le> rand s n) \<and> \<not> accept_rr s"

lemma boot_started: "boot s \<Longrightarrow> started ((rtadvd_timer_init s)\<lparr>ifilist := ifl, kiflist_calls := k\<rparr>)"
  by (simp add: boot_def started_def dinv_def rtadvd_timer_init_def)

lemma main_init_started:
  assumes boot: "boot s" and env: "env_ok env" and init: "main_init env argv s = Inr s'"
  shows "started s'"
proof -
  let ?P = "\<lambda>(h :: nat, f :: int, s). started s"
  from init obtain ifl h f where
    "fold_r (getconfig env) argv (0, -1, (rtadvd_timer_init s)\<lparr>ifilist := ifl, kiflist_calls := Suc (kiflist_calls (rtadvd_timer_init s))\<rparr>)
      = Inr (h, f, s')" (is "fold_r _ _ ?x = _")
    by (auto simp: main_init_def Let_def bind_r_Inr_iff split: if_splits)
  moreover have "safe_r ?P UNIV (fold_r (getconfig env) argv ?x)"
  proof (rule fold_r_safe)
    fix i x assume "?P x"
    then obtain h f s where x: "x = (h, f, s)" "started s" by auto
    have "?P y" if "getconfig env i x = Inr y" for y
      using that getconfig_ok [OF x(2) env, of i h f] x(1) by (cases y) force
    then show "safe_r ?P UNIV (getconfig env i x)" unfolding safe_r_UNIV by blast
  qed (use boot_started [OF boot] in simp)
  ultimately show ?thesis by simp
qed

end
