(* ===== verification/Defaults.thy ===== *)
theory Defaults
  imports Configured Examples
begin

text \<open>
  The configuration of an interface when the configuration file is missing: every lookup in
  the cleared entry gives the default, so that the values of the advertisement are those
  RFC 4861 recommends. A concrete environment shows that the daemon gets through its
  initialisation.
\<close>

definition blank :: entry where
  "blank = \<lparr>ent_buf = replicate BUFSIZ NUL, ent_live = True\<rparr>"

lemma tskip_blank: "tskip (replicate BUFSIZ NUL) 0 = Inr 0"
  by (simp add: tskip_def tskip_loop.simps chr_at_def)

lemma blank_lookups [simp]:
  "agetnum blank key = Inr (-1)" "agetflag blank key = Inr False" "agetstr blank key room = Inr (None, room)"
  by (simp_all add: agetnum_def agetflag_def agetstr_def blank_def tgetnum_def tgetflag_def tgetstr_def
      tgetnum_loop.simps tgetflag_loop.simps tgetstr_loop.simps tskip_blank chr_at_def)

lemma blank_MAYHAVE [simp]: "MAYHAVE blank key def = Inr def"
  by (simp add: MAYHAVE_def)

lemma fold_r_same: "(\<And>i. f i x = Inr x) \<Longrightarrow> fold_r f is x = Inr x"
  by (induction "is") auto

lemma fold_r_same_on: "\<forall>i \<in> set is. f i x = Inr x \<Longrightarrow> fold_r f is x = Inr x"
  by (induction "is") auto

text \<open>The values RFC 4861 section 6.2.1 gives as defaults.\<close>

definition default_vars :: "rainfo \<Rightarrow> bool" where
  "default_vars rai \<longleftrightarrow> maxinterval rai = 600 \<and> mininterval rai = 200 \<and> lifetime rai = 1800 \<and>
     managedflg rai = 0 \<and> otherflg rai = 0 \<and> rtpref rai = 0 \<and> linkmtu rai = 0 \<and> reachabletime rai = 0 \<and>
     retranstimer rai = 0 \<and> hoplimit rai = 64 \<and> prefix_list rai = [] \<and> route_list rai = [] \<and>
     rdnss_list rai = [] \<and> dnssl_list rai = [] \<and> capport rai = None \<and> \<not> pref64_specified rai"

lemma blank_prefixes: "config_prefix env blank i (rai, room, s) = Inr (rai, room, s)"
  by (simp add: config_prefix_def)

lemma blank_routes: "config_routes env blank (rai, room) = Inr (rai, room)"
  unfolding config_routes_def by (rule fold_r_same) (simp add: config_route_def)

lemma config_prefixes_blank:
  assumes "getifaddrs env = Some ifap" "\<forall>ifa \<in> set ifap. ifa_inet6 ifa = None"
  shows "config_prefixes env blank (rai, room, s) = Inr (rai, room, s)"
proof -
  have "fold_r get_prefix_one ifap (rai, s) = Inr (rai, s)"
    by (rule fold_r_same_on) (simp add: assms(2) get_prefix_one_def)
  then show ?thesis
    unfolding config_prefixes_def fold_r_same [of "config_prefix env blank", OF blank_prefixes]
    by (simp add: get_prefix_def assms(1))
qed

lemma config_rainfo_blank:
  assumes "if_nametosdl (iflist_sysctl env) intface = Inr (Some d)" "fwd \<noteq> 0"
    and ifap: "getifaddrs env = Some ifap" "\<forall>ifa \<in> set ifap. ifa_inet6 ifa = None"
  shows "\<exists>rai. config_rainfo env blank intface fwd s = Inr (rai, s\<lparr>next_addr := Suc (next_addr s)\<rparr>) \<and>
    default_vars rai \<and> sdl rai = Some d \<and> advlinkopt rai"
proof -
  have s32: "s32 (-1) = -1" by (simp add: s32_def)
  show ?thesis
    unfolding config_rainfo_def
    by (simp add: config_iface_def assms(1,2) config_intervals_def config_flags_def config_lifetimes_def
        config_prefixes_blank [OF ifap] blank_routes config_mtu_def range32_def config_dns_def config_dnssl_def s32
        config_capport_def config_pref64_def default_vars_def rainfo_zero_def Let_def)
qed


lemma getconfig_blank:
  assumes st: "started s" and env: "env_ok env" and conf: "conffile (advcap env) = None"
    and d: "if_nametosdl (iflist_sysctl env) intface = Inr (Some d)"
    and fwd: "forwarding_sysctl env = Some f" "0 < f"
    and ifap: "getifaddrs env = Some ifap" "\<forall>ifa \<in> set ifap. ifa_inet6 ifa = None"
  shows "\<exists>s' rai. getconfig env intface (hop, -1, s) = Inr (hop, f, s') \<and> started s' \<and>
    ralist s' = rai # ralist s \<and> default_vars rai \<and> rai_timer rai \<noteq> None"
proof -
  let ?s = "s\<lparr>next_addr := Suc (next_addr s)\<rparr>"
  have e: "config_entry env intface hop = Inr (blank, hop)"
    by (simp add: config_entry_def tgetent_def getent.simps conf blank_def)
  obtain rai where r: "config_rainfo env blank intface f s = Inr (rai, ?s)" "default_vars rai"
    using config_rainfo_blank [OF d _ ifap, of f s] fwd(2) by auto
  obtain s' data k where s': "config_finish rai ?s = Inr s'" "started s'"
    "ralist s' = (with_data data rai)\<lparr>rai_timer := Some k\<rparr> # ralist s"
    using config_finish_ok [OF st config_rainfo_ok [OF env r(1)]] by blast
  have "default_vars ((with_data data rai)\<lparr>rai_timer := Some k\<rparr>)"
    using r(2) by (simp add: default_vars_def with_data_def settled_def split: option.splits)
  moreover have "getconfig env intface (hop, -1, s) = Inr (hop, f, s')"
    using e r(1) s'(1) fwd by (simp add: getconfig_def get_forwarding_def)
  ultimately show ?thesis using s'(2,3) by fastforce
qed

text \<open>An Ethernet interface \<open>en0\<close> as the kernel lists it, and an environment with it.\<close>

definition ex_ifmsg :: "byte list" where
  "ex_ifmsg = [132, 0, 5, 14, 16, 0, 0, 0, 1, 0, 0, 0, 4, 0] @ replicate 98 0 @
     [20, 18, 4, 0, 6, 3, 6, 0] @ map of_char ''en0'' @ [2, 0, 0, 0, 0, 1] @ [0, 0, 0]"

definition ex_env :: cfgenv where
  "ex_env = \<lparr>advcap = \<lparr>conffile = None, tcjunk = (\<lambda>_. replicate BUFSIZ NUL), framedist = (\<lambda>_. 0)\<rparr>,
     tbuf0 = replicate BUFSIZ NUL, forwarding_sysctl = Some 1, iflist_sysctl = Some ex_ifmsg,
     nametoindex = (\<lambda>_. 4), getifaddrs = Some [], siocgifmtu = Some 1500, inet_pton = (\<lambda>_. None)\<rparr>"

definition ex_boot :: rtadvd where
  "ex_boot = ex_state\<lparr>ralist := [], timer_list := [], kiflist := \<lambda>_. Some ex_ifmsg\<rparr>"

lemma inj_of_char_byte: "inj (of_char :: char \<Rightarrow> byte)"
proof (rule injI)
  fix c d :: char assume "(of_char c :: byte) = of_char d"
  then have "unat (of_nat (of_char c) :: byte) = unat (of_nat (of_char d) :: byte)" unfolding of_nat_of_char by simp
  then show "c = d" unfolding unat_of_nat by (simp add: take_bit_eq_mod)
qed

lemma ex_sdl_probe:
  "\<exists>sa. (\<forall>name. sdl_probe name ex_ifmsg None = Inr (Some sa, name = ''en0'')) \<and>
     (\<exists>d. sdl_copy sa = Inr d \<and> sdl_ok d)"
proof -
  define sa where "sa = drop 112 ex_ifmsg"
  have sa: "sa = [20, 18, 4, 0, 6, 3, 6, 0, 101, 110, 48, 2, 0, 0, 0, 0, 1, 0, 0, 0]"
    unfolding sa_def by code_simp
  have ifm: "ld8 ex_ifmsg 3 = Inr RTM_IFINFO" "ld32 ex_ifmsg 4 = Inr 16" by code_simp+
  have sdl: "get_rtaddrs 16 sa = Inr [None, None, None, None, Some sa, None, None, None]"
    "ld8 sa 1 = Inr AF_LINK" "ld8 sa 5 = Inr 3" "bytes_at sa 8 3 = Inr [101, 110, 48]"
    unfolding sa by code_simp+
  have name: "[101, 110, 48] = map (of_char :: char \<Rightarrow> byte) name \<longleftrightarrow> name = ''en0''" for name
  proof -
    have "[101, 110, 48] = map (of_char :: char \<Rightarrow> byte) ''en0''" by simp
    then show ?thesis using inj_map_eq_map [OF inj_of_char_byte] by metis
  qed
  have "sdl_probe name ex_ifmsg None = Inr (Some sa, name = ''en0'')" for name
    using name [of name] by (auto simp: sdl_probe_def ifm sdl sdl(2) [simplified] simp flip: sa_def)
  moreover have "case sdl_copy sa of Inl _ \<Rightarrow> False | Inr d \<Rightarrow> sdl_ok d" unfolding sa by code_simp
  ultimately show ?thesis by (auto split: sum.splits)
qed


lemma ex_nametosdl:
  "\<exists>d. sdl_ok d \<and> (\<forall>name. if_nametosdl (iflist_sysctl ex_env) name = Inr (if name = ''en0'' then Some d else None))"
proof -
  obtain sa d where sa: "\<And>name. sdl_probe name ex_ifmsg None = Inr (Some sa, name = ''en0'')"
    and d: "sdl_copy sa = Inr d" "sdl_ok d"
    using ex_sdl_probe by blast
  have len: "length ex_ifmsg = 132" and ld: "ld16 ex_ifmsg 0 = Inr 132" by code_simp+
  have "if_nametosdl_loop (Suc (Suc n)) name ex_ifmsg 0 None = Inr (if name = ''en0'' then 0 else 132, Some sa)" for n name
    by (simp add: sa ld len)
  from this [of 130] have loop:
    "if_nametosdl_loop (length ex_ifmsg) name ex_ifmsg 0 None = Inr (if name = ''en0'' then 0 else 132, Some sa)" for name
    by (simp add: len)
  have "iflist_sysctl ex_env = Some ex_ifmsg" by (simp add: ex_env_def)
  then show ?thesis
    using d by (intro exI [of _ d]) (simp add: if_nametosdl_def loop [unfolded len] len)
qed

lemma ex_env_ok: "env_ok ex_env"
proof -
  obtain d where d: "sdl_ok d" "\<And>name. if_nametosdl (iflist_sysctl ex_env) name = Inr (if name = ''en0'' then Some d else None)"
    using ex_nametosdl by blast
  have "sdl_env_ok ex_env" unfolding sdl_env_ok_def d(2) using d(1) by simp
  then show ?thesis by (simp add: env_ok_def pton_ok_def ifaddrs_ok_def ex_env_def)
qed

lemma ex_boot_ok: "boot ex_boot"
  by (simp add: boot_def ex_boot_def ex_state_def tv_time_def tv_ok_def)

lemma ex_main_init: "\<exists>s. main_init ex_env [''en0''] ex_boot = Inr s"
proof -
  obtain d where d: "if_nametosdl (iflist_sysctl ex_env) ''en0'' = Inr (Some d)" using ex_nametosdl by force
  have conf: "conffile (advcap ex_env) = None" and env: "forwarding_sysctl ex_env = Some 1" "getifaddrs ex_env = Some []"
    by (simp_all add: ex_env_def)
  have ifl: "\<exists>ifl. init_iflist (Some ex_ifmsg) l = Inr ifl" for l
  proof -
    have "\<not> isl (parse_iflist ex_ifmsg [])" by code_simp
    then show ?thesis by (cases "parse_iflist ex_ifmsg []") (simp_all add: init_iflist_def purge_iflist_def)
  qed
  define s1 where "s1 = rtadvd_timer_init ex_boot"
  have k: "kiflist s1 n = Some ex_ifmsg" for n by (simp add: s1_def rtadvd_timer_init_def ex_boot_def)
  have st: "started (s1\<lparr>ifilist := ifl, kiflist_calls := n\<rparr>)" for ifl n
    using boot_started [OF ex_boot_ok] unfolding s1_def by simp
  obtain ifl where i: "init_iflist (Some ex_ifmsg) (ifilist s1) = Inr ifl" using ifl by blast
  have "\<exists>s'. getconfig ex_env ''en0'' (0, -1, s1\<lparr>ifilist := ifl, kiflist_calls := Suc (kiflist_calls s1)\<rparr>) = Inr (0, 1, s')"
    using getconfig_blank [OF st ex_env_ok conf d env(1) _ env(2)] by fastforce
  then show ?thesis
    unfolding main_init_def Let_def s1_def [symmetric] by (auto simp: k i)
qed

end
