(* ===== verification/Rtsold.thy ===== *)
theory Rtsold
  imports Events
begin

text \<open>
  The router solicitation daemon (\<open>src/rtsol.tproj\<close>): a host asks for routers on its
  interfaces and waits for an advertisement. Each interface (\<open>struct ifinfo\<close>) is a state
  machine driven by its timer and by received advertisements. \<open>rtsol.tproj/if.c\<close> has the
  functions for link-layer addresses and the interface list of \<open>rtadvd.tproj/if.c\<close>, text for
  text; their models (\<open>if_nametosdl\<close>, \<open>lladdropt_length\<close>, \<open>lladdropt_fill\<close>) are shared, and so
  are the time values.

  What the kernel answers is in the state: the clock, random numbers, the flags of an
  interface (\<open>SIOCGIFFLAGS\<close>), its media status (\<open>SIOCGIFMEDIA\<close>), addresses
  (\<open>getifaddrs\<close>) and their flags (\<open>SIOCGIFAFLAG_IN6\<close>) and the default router list
  (\<open>SIOCGDRLST_IN6\<close>), each as the sequence of the answers, with the number of requests made.
  Solicitations sent, routers probed and interfaces set up are collected.
\<close>

section \<open>State\<close>

abbreviation (input) IFS_IDLE :: int where "IFS_IDLE \<equiv> 0"
abbreviation (input) IFS_DELAY :: int where "IFS_DELAY \<equiv> 1"
abbreviation (input) IFS_PROBE :: int where "IFS_PROBE \<equiv> 2"
abbreviation (input) IFS_DOWN :: int where "IFS_DOWN \<equiv> 3"
abbreviation (input) IFS_TENTATIVE :: int where "IFS_TENTATIVE \<equiv> 4"
abbreviation (input) IFS_OPTIMISTIC :: int where "IFS_OPTIMISTIC \<equiv> 5"

abbreviation (input) MAX_RTR_SOLICITATION_DELAY :: int where "MAX_RTR_SOLICITATION_DELAY \<equiv> 1"
abbreviation (input) RTR_SOLICITATION_INTERVAL :: int where "RTR_SOLICITATION_INTERVAL \<equiv> 4"
abbreviation (input) MAX_RTR_SOLICITATIONS :: int where "MAX_RTR_SOLICITATIONS \<equiv> 3"
abbreviation (input) PROBE_INTERVAL :: int where "PROBE_INTERVAL \<equiv> 60"
abbreviation (input) DADRETRY :: int where "DADRETRY \<equiv> 10"
abbreviation (input) DRLSTSIZ :: nat where "DRLSTSIZ \<equiv> 10"

record ifinfo =
  ifi_sdl :: sockaddr_dl
  ifi_name :: string
  active :: int
  probeinterval :: int
  probetimer :: int
  mediareqok :: bool
  if_state :: int
  probes :: int
  dadcount :: int
  ifi_timer :: timeval
  ifi_expire :: timeval
  racnt :: nat
  rs_datalen :: nat
  rs_data :: "byte list"

text \<open>The address of an entry of \<open>getifaddrs\<close>; the reply to \<open>SIOCGIFMEDIA\<close>.\<close>

datatype ifa_sa = No_sa | Other_sa | Inet6_sa in6_addr

datatype media = Media_einval | Media_error | Media (ifm_status: u32) (ifm_active: u32)

record rtsold =
  rs_clock :: "nat \<Rightarrow> timeval"
  rs_clock_reads :: nat
  rs_random :: "nat \<Rightarrow> int"
  rs_random_calls :: nat
  ifr_flags :: "nat \<Rightarrow> u16 option"
  ifr_calls :: nat
  ifmedia :: "nat \<Rightarrow> media"
  ifmedia_calls :: nat
  ll_ifaddrs :: "nat \<Rightarrow> (string \<times> ifa_sa) list option"
  ll_calls :: nat
  ifr_flags6 :: "nat \<Rightarrow> int option"
  ifr6_calls :: nat
  drlist :: "nat \<Rightarrow> (in6_addr \<times> nat) list option"
  drlist_calls :: nat
  rs_iflist_sysctl :: "byte list option"
  mobile_node :: bool
  iflist :: "ifinfo list"
  rs_sent :: "(int \<times> byte list) list"
  rs_probed :: "(in6_addr \<times> int) list"
  rs_upped :: "string list"

definition rs_gettimeofday :: "rtsold \<Rightarrow> timeval \<times> rtsold" where
  "rs_gettimeofday s = (rs_clock s (rs_clock_reads s), s\<lparr>rs_clock_reads := Suc (rs_clock_reads s)\<rparr>)"

definition siocgifflags :: "rtsold \<Rightarrow> u16 option \<times> rtsold" where
  "siocgifflags s = (ifr_flags s (ifr_calls s), s\<lparr>ifr_calls := Suc (ifr_calls s)\<rparr>)"

section \<open>Interfaces (if.c)\<close>

abbreviation (input) IFF_UP16 :: u16 where "IFF_UP16 \<equiv> 1"
abbreviation (input) IFF_RUNNING :: u16 where "IFF_RUNNING \<equiv> 0x40"
abbreviation (input) IN6_IFF_TENTATIVE :: int where "IN6_IFF_TENTATIVE \<equiv> 2"
abbreviation (input) IN6_IFF_DUPLICATED :: int where "IN6_IFF_DUPLICATED \<equiv> 4"
abbreviation (input) IN6_IFF_OPTIMISTIC :: int where "IN6_IFF_OPTIMISTIC \<equiv> 0x200"
abbreviation (input) IN6_IFF_DADPROGRESS :: int where "IN6_IFF_DADPROGRESS \<equiv> IN6_IFF_TENTATIVE OR IN6_IFF_OPTIMISTIC"
abbreviation (input) IN6_IFF_NOTREADY :: int where "IN6_IFF_NOTREADY \<equiv> IN6_IFF_TENTATIVE OR IN6_IFF_DUPLICATED"
abbreviation (input) IFM_AVALID :: u32 where "IFM_AVALID \<equiv> 1"
abbreviation (input) IFM_ACTIVE :: u32 where "IFM_ACTIVE \<equiv> 2"
abbreviation (input) IFM_NMASK :: u32 where "IFM_NMASK \<equiv> 0xe0"
abbreviation (input) IFM_ETHER :: u32 where "IFM_ETHER \<equiv> 0x20"

text \<open>Whether the loop of \<open>get_llflag\<close> finds a link-local address of the interface.\<close>

fun find_lladdr :: "string \<Rightarrow> (string \<times> ifa_sa) list \<Rightarrow> bool result" where
  "find_lladdr name [] = Inr False"
| "find_lladdr name ((n, sa) # ifap) =
     (if n \<noteq> name then find_lladdr name ifap
      else case sa of
             No_sa \<Rightarrow> Inl NullDeref
           | Other_sa \<Rightarrow> find_lladdr name ifap
           | Inet6_sa a \<Rightarrow> if \<not> IN6_IS_ADDR_LINKLOCAL a then find_lladdr name ifap else Inr True)"

definition get_llflag :: "string \<Rightarrow> rtsold \<Rightarrow> (int \<times> rtsold) result" where
  "get_llflag name s =
     (case ll_ifaddrs s (ll_calls s) of
        None \<Rightarrow> Inl (Exit 1)
      | Some ifap \<Rightarrow>
          let s1 = s\<lparr>ll_calls := Suc (ll_calls s)\<rparr>
          in bind_r (find_lladdr name ifap) (\<lambda>found.
             if \<not> found then Inr (-1, s1)
             else case ifr_flags6 s1 (ifr6_calls s1) of
                    None \<Rightarrow> Inl (Exit 1)
                  | Some fl \<Rightarrow> Inr (fl, s1\<lparr>ifr6_calls := Suc (ifr6_calls s1)\<rparr>)))"

definition interface_up :: "string \<Rightarrow> rtsold \<Rightarrow> (int \<times> rtsold) result" where
  "interface_up name s =
     (let (fl, s1) = siocgifflags s
      in case fl of
           None \<Rightarrow> Inr (-1, s1)
         | Some flags \<Rightarrow>
             if flags AND IFF_UP16 = 0 then Inr (-1, s1\<lparr>rs_upped := rs_upped s1 @ [name]\<rparr>)
             else bind_r (get_llflag name s1) (\<lambda>(llflag, s2).
               if llflag < 0 then Inr (0, s2)
               else if llflag AND (IN6_IFF_NOTREADY OR IN6_IFF_DADPROGRESS) = 0 then Inr (0, s2)
               else if llflag AND IN6_IFF_TENTATIVE \<noteq> 0 then Inr (IFS_TENTATIVE, s2)
               else if llflag AND IN6_IFF_OPTIMISTIC \<noteq> 0 then Inr (IFS_OPTIMISTIC, s2)
               else Inr (-1, s2)))"

definition interface_status :: "ifinfo \<Rightarrow> rtsold \<Rightarrow> int \<times> ifinfo \<times> rtsold" where
  "interface_status ifinfo s =
     (let (fl, s1) = siocgifflags s
      in case fl of
           None \<Rightarrow> (-1, ifinfo, s1)
         | Some flags \<Rightarrow>
             if flags AND (IFF_UP16 OR IFF_RUNNING) \<noteq> IFF_UP16 OR IFF_RUNNING then (0, ifinfo, s1)
             else if \<not> mediareqok ifinfo then (1, ifinfo, s1)
             else let s2 = s1\<lparr>ifmedia_calls := Suc (ifmedia_calls s1)\<rparr>
                  in case ifmedia s1 (ifmedia_calls s1) of
                       Media_error \<Rightarrow> (-1, ifinfo, s2)
                     | Media_einval \<Rightarrow> (1, ifinfo\<lparr>mediareqok := False\<rparr>, s2)
                     | Media st act \<Rightarrow>
                         if st AND IFM_AVALID \<noteq> 0 \<and> act AND IFM_NMASK = IFM_ETHER \<and> st AND IFM_ACTIVE \<noteq> 0
                         then (1, ifinfo, s2) else (0, ifinfo, s2))"

section \<open>Packets (rtsol.c, probe.c)\<close>

definition rs_make_packet :: "ifinfo \<Rightarrow> ifinfo result" where
  "rs_make_packet ifinfo =
     (let lladdroptlen = lladdropt_length (ifi_sdl ifinfo)
      in bind_r (if lladdroptlen \<noteq> 0 then lladdropt_fill (ifi_sdl ifinfo) else Inr []) (\<lambda>opt.
         Inr (ifinfo\<lparr>rs_datalen := 8 + lladdroptlen,
                     rs_data := [ND_ROUTER_SOLICIT, 0, 0, 0, 0, 0, 0, 0] @ opt\<rparr>)))"

definition sendpacket :: "ifinfo \<Rightarrow> rtsold \<Rightarrow> ifinfo \<times> rtsold" where
  "sendpacket ifinfo s =
     (ifinfo\<lparr>probes := probes ifinfo + 1\<rparr>,
      s\<lparr>rs_sent := rs_sent s @ [(sdl_index (ifi_sdl ifinfo), take (rs_datalen ifinfo) (rs_data ifinfo))]\<rparr>)"

text \<open>
  The loop over the router list reads an entry before it compares the index with the size
  of the list.
\<close>

fun probe_routers :: "int \<Rightarrow> nat \<Rightarrow> (in6_addr \<times> nat) list \<Rightarrow> (in6_addr \<times> int) list result" where
  "probe_routers idx i [] = Inl OutOfBounds"
| "probe_routers idx i ((rtaddr, if_index) # drs) =
     (if if_index = 0 \<or> \<not> i < DRLSTSIZ then Inr []
      else bind_r (probe_routers idx (Suc i) drs) (\<lambda>r.
        Inr (if idx \<noteq> 0 \<and> int if_index = idx \<and> IN6_IS_ADDR_LINKLOCAL rtaddr
             then (rtaddr, int if_index) # r else r)))"

definition defrouter_probe :: "int \<Rightarrow> rtsold \<Rightarrow> rtsold result" where
  "defrouter_probe idx s =
     (let s1 = s\<lparr>drlist_calls := Suc (drlist_calls s)\<rparr>
      in case drlist s (drlist_calls s) of
           None \<Rightarrow> Inr s1
         | Some drs \<Rightarrow>
             bind_r (probe_routers idx 0 drs) (\<lambda>r. Inr (s1\<lparr>rs_probed := rs_probed s1 @ r\<rparr>)))"

section \<open>Timers (rtsold.c)\<close>

text \<open>The switch of \<open>rtsol_timer_update\<close>; \<open>None\<close> is its default, an illegal state.\<close>

definition timer_switch :: "ifinfo \<Rightarrow> rtsold \<Rightarrow> (ifinfo \<times> rtsold) option" where
  "timer_switch ifinfo s =
     (if if_state ifinfo = IFS_DOWN \<or> if_state ifinfo = IFS_TENTATIVE then
        Some (if dadcount ifinfo + 1 > DADRETRY
              then ifinfo\<lparr>dadcount := 0, ifi_timer := Timeval PROBE_INTERVAL 0\<rparr>
              else ifinfo\<lparr>dadcount := dadcount ifinfo + 1, ifi_timer := Timeval 1 0\<rparr>, s)
      else if if_state ifinfo = IFS_IDLE then
        Some (ifinfo\<lparr>ifi_timer := (if mobile_node s then Timeval 3 0 else tm_max)\<rparr>, s)
      else if if_state ifinfo = IFS_DELAY then
        let interval = rs_random s (rs_random_calls s) mod (MAX_RTR_SOLICITATION_DELAY * MILLION)
        in Some (ifinfo\<lparr>ifi_timer := Timeval (interval div MILLION) (interval mod MILLION)\<rparr>,
                 s\<lparr>rs_random_calls := Suc (rs_random_calls s)\<rparr>)
      else if if_state ifinfo = IFS_PROBE then
        Some (ifinfo\<lparr>ifi_timer := Timeval (if probes ifinfo < MAX_RTR_SOLICITATIONS
                                             then RTR_SOLICITATION_INTERVAL else MAX_RTR_SOLICITATION_DELAY) 0\<rparr>, s)
      else None)"

definition rtsol_timer_update :: "ifinfo \<Rightarrow> rtsold \<Rightarrow> ifinfo \<times> rtsold" where
  "rtsol_timer_update ifinfo s =
     (case timer_switch (ifinfo\<lparr>ifi_timer := Timeval 0 0\<rparr>) s of
        None \<Rightarrow> (ifinfo\<lparr>ifi_timer := Timeval 0 0\<rparr>, s)
      | Some (ifi, s1) \<Rightarrow>
          if TIMEVAL_EQUAL (ifi_timer ifi) tm_max then (ifi\<lparr>ifi_expire := tm_max\<rparr>, s1)
          else let (now, s2) = rs_gettimeofday s1
               in (ifi\<lparr>ifi_expire := TIMEVAL_ADD now (ifi_timer ifi)\<rparr>, s2))"

text \<open>The state an interface takes from the result of \<open>interface_up\<close>.\<close>

definition up_state :: "int \<Rightarrow> int" where
  "up_state flags = (if flags = 0 then IFS_DELAY else if flags = IFS_TENTATIVE then IFS_TENTATIVE else IFS_DOWN)"

text \<open>The case \<open>IFS_IDLE\<close> of \<open>rtsol_check_timer\<close>.\<close>

definition check_idle :: "ifinfo \<Rightarrow> rtsold \<Rightarrow> (ifinfo \<times> rtsold) result" where
  "check_idle ifinfo s =
     (let oldstatus = active ifinfo;
          (st, ifi, s1) = interface_status ifinfo s;
          ifi1 = ifi\<lparr>active := st\<rparr>;
          left = probetimer ifi1 - tv_sec (ifi_timer ifi1);
          (probe, ifi2) =
            (if oldstatus \<noteq> active ifi1 then (True, ifi1\<lparr>if_state := IFS_DELAY\<rparr>)
             else if probeinterval ifi1 = 0 then (False, ifi1)
             else if left \<le> 0 then (True, ifi1\<lparr>probetimer := probeinterval ifi1, if_state := IFS_PROBE\<rparr>)
             else (False, ifi1\<lparr>probetimer := left\<rparr>))
      in if probe \<and> mobile_node s1
         then bind_r (defrouter_probe (sdl_index (ifi_sdl ifi2)) s1) (\<lambda>s2. Inr (ifi2, s2))
         else Inr (ifi2, s1))"

text \<open>The switch on the state of an interface whose timer has expired.\<close>

definition check_expired :: "ifinfo \<Rightarrow> rtsold \<Rightarrow> (ifinfo \<times> rtsold) result" where
  "check_expired ifinfo s =
     (if if_state ifinfo = IFS_DOWN \<or> if_state ifinfo = IFS_TENTATIVE then
        bind_r (interface_up (ifi_name ifinfo) s) (\<lambda>(flags, s1). Inr (ifinfo\<lparr>if_state := up_state flags\<rparr>, s1))
      else if if_state ifinfo = IFS_IDLE then check_idle ifinfo s
      else if if_state ifinfo = IFS_DELAY then Inr (sendpacket (ifinfo\<lparr>if_state := IFS_PROBE\<rparr>) s)
      else if if_state ifinfo = IFS_PROBE then
        Inr (if probes ifinfo < MAX_RTR_SOLICITATIONS then sendpacket ifinfo s
             else (ifinfo\<lparr>probes := 0, if_state := IFS_IDLE\<rparr>, s))
      else Inr (ifinfo, s))"

definition check_ifinfo :: "timeval \<Rightarrow> ifinfo \<Rightarrow> rtsold \<Rightarrow> (ifinfo \<times> rtsold) result" where
  "check_ifinfo now ifinfo s =
     (if TIMEVAL_LEQ (ifi_expire ifinfo) now
      then bind_r (check_expired ifinfo s) (\<lambda>(ifi, s1). Inr (rtsol_timer_update ifi s1))
      else Inr (ifinfo, s))"

fun check_ifinfos ::
    "timeval \<Rightarrow> ifinfo list \<Rightarrow> timeval \<Rightarrow> rtsold \<Rightarrow> (ifinfo list \<times> timeval \<times> rtsold) result" where
  "check_ifinfos now [] rtsol_timer s = Inr ([], rtsol_timer, s)"
| "check_ifinfos now (ifinfo # ifs) rtsol_timer s =
     bind_r (check_ifinfo now ifinfo s) (\<lambda>(ifi, s1).
     bind_r (check_ifinfos now ifs (if TIMEVAL_LT (ifi_expire ifi) rtsol_timer then ifi_expire ifi else rtsol_timer) s1)
       (\<lambda>(ifs', tmr, s2). Inr (ifi # ifs', tmr, s2)))"

definition rtsol_check_timer :: "rtsold \<Rightarrow> (timeval option \<times> rtsold) result" where
  "rtsol_check_timer s =
     (let (now, s1) = rs_gettimeofday s
      in bind_r (check_ifinfos now (iflist s1) tm_max s1) (\<lambda>(ifs, rtsol_timer, s2).
           Inr (if TIMEVAL_EQUAL rtsol_timer tm_max then None
                else if TIMEVAL_LT rtsol_timer now then Some (Timeval 0 0)
                else Some (TIMEVAL_SUB rtsol_timer now), s2\<lparr>iflist := ifs\<rparr>)))"

section \<open>Input (rtsol.c, rtsock.c)\<close>

definition find_ifinfo :: "int \<Rightarrow> rtsold \<Rightarrow> ifinfo option" where
  "find_ifinfo idx s = find (\<lambda>ifi. sdl_index (ifi_sdl ifi) = idx) (iflist s)"

text \<open>The assignments through the pointer \<open>find_ifinfo\<close> returns.\<close>

fun set_ifinfo :: "int \<Rightarrow> ifinfo \<Rightarrow> ifinfo list \<Rightarrow> ifinfo list" where
  "set_ifinfo idx ifi [] = []"
| "set_ifinfo idx ifi (x # xs) =
     (if sdl_index (ifi_sdl x) = idx then ifi # xs else x # set_ifinfo idx ifi xs)"

definition ra_received :: "ifinfo \<Rightarrow> rtsold \<Rightarrow> ifinfo \<times> rtsold" where
  "ra_received ifi s =
     (let ifi1 = ifi\<lparr>racnt := racnt ifi + 1\<rparr>
      in if if_state ifi1 = IFS_PROBE
         then rtsol_timer_update (ifi1\<lparr>if_state := IFS_IDLE, probes := 0\<rparr>) s
         else (ifi1, s))"

text \<open>\<open>None\<close> is a failed \<open>recvmsg\<close>.\<close>

definition rtsol_input :: "recvd option \<Rightarrow> rtsold \<Rightarrow> rtsold" where
  "rtsol_input pkt s =
     (case pkt of
        None \<Rightarrow> s
      | Some p \<Rightarrow>
          let (idx, dst, hlimp) = fold scan_cmsg (rcv_cmsgs p) (0, in6addr_any, None);
              icp = rcv_data p
          in if idx = 0 then s
             else (case hlimp of
               None \<Rightarrow> s
             | Some hlim \<Rightarrow>
                 if length icp < 16 then s
                 else if icp ! 0 \<noteq> ND_ROUTER_ADVERT then s
                 else if icp ! 1 \<noteq> 0 then s
                 else if hlim \<noteq> 255 then s
                 else if \<not> IN6_IS_ADDR_LINKLOCAL (rcv_from p) then s
                 else (case find_ifinfo idx s of
                   None \<Rightarrow> s
                 | Some ifi \<Rightarrow>
                     let (ifi', s1) = ra_received ifi s
                     in s1\<lparr>iflist := set_ifinfo idx ifi' (iflist s1)\<rparr>)))"

text \<open>
  The messages of the routing socket: without \<open>RTM_IFANNOUNCE\<close>, which this system does not
  have, the dispatch table is empty and the loop only steps over them.
\<close>

function rtsock_loop :: "byte list \<Rightarrow> int \<Rightarrow> int" where
  "rtsock_loop next ret =
     (if length next < 2 then ret
      else let len = rtm_msglen next
           in if len < 2 then ret else rtsock_loop (drop len next) ret)"
  by pat_completeness auto
termination by (relation "measure (\<lambda>(next, ret). length next)") auto

declare rtsock_loop.simps [simp del]

definition rtsock_input :: "byte list option \<Rightarrow> int" where
  "rtsock_input msg = (case msg of None \<Rightarrow> 0 | Some b \<Rightarrow> rtsock_loop b 0)"

section \<open>Configuration and main loop (rtsold.c)\<close>

definition ifinfo_zero :: "sockaddr_dl \<Rightarrow> string \<Rightarrow> ifinfo" where
  "ifinfo_zero d name = \<lparr>ifi_sdl = d, ifi_name = take 15 name, active = 0, probeinterval = 0, probetimer = 0,
     mediareqok = False, if_state = 0, probes = 0, dadcount = 0, ifi_timer = Timeval 0 0,
     ifi_expire = Timeval 0 0, racnt = 0, rs_datalen = 0, rs_data = []\<rparr>"

text \<open>The second half of \<open>ifconfig\<close>: the interface is brought up and linked.\<close>

definition ifconfig_up :: "ifinfo \<Rightarrow> rtsold \<Rightarrow> rtsold result" where
  "ifconfig_up ifinfo s =
     (let (st, ifi1, s1) = interface_status (ifinfo\<lparr>mediareqok := True\<rparr>) s;
          ifi2 = ifi1\<lparr>active := st\<rparr>;
          ifi3 = (if \<not> mediareqok ifi2 then ifi2\<lparr>probeinterval := PROBE_INTERVAL\<rparr> else ifi2)
      in bind_r (interface_up (ifi_name ifi3) s1) (\<lambda>(flags, s2).
         let (ifi4, s3) = rtsol_timer_update (ifi3\<lparr>if_state := up_state flags\<rparr>) s2
         in Inr (s3\<lparr>iflist := ifi4 # iflist s3\<rparr>)))"

text \<open>The answer is whether the interface was configured.\<close>

definition ifconfig :: "string \<Rightarrow> rtsold \<Rightarrow> (bool \<times> rtsold) result" where
  "ifconfig name s =
     bind_r (if_nametosdl (rs_iflist_sysctl s) name) (\<lambda>dl.
     case dl of
       None \<Rightarrow> Inr (False, s)
     | Some d \<Rightarrow>
         if find_ifinfo (sdl_index d) s \<noteq> None then Inr (False, s)
         else bind_r (rs_make_packet (ifinfo_zero d name)) (\<lambda>ifi0.
              bind_r (ifconfig_up ifi0 s) (\<lambda>s1. Inr (True, s1))))"

text \<open>The target \<open>autoifprobe\<close> chooses; an entry is its name, its flags and its address.\<close>

fun autoif_loop :: "string option \<Rightarrow> (string \<times> u32 \<times> ifa_sa) list \<Rightarrow> string option result" where
  "autoif_loop target [] = Inr target"
| "autoif_loop target ((name, flags, sa) # ifap) =
     (if flags AND 1 = 0 \<or> flags AND 0x10 \<noteq> 0 \<or> flags AND 8 \<noteq> 0 \<or> flags AND 0x8000 = 0 then autoif_loop target ifap
      else case sa of
             No_sa \<Rightarrow> Inl NullDeref
           | Other_sa \<Rightarrow> autoif_loop target ifap
           | Inet6_sa _ \<Rightarrow>
               (case target of
                  None \<Rightarrow> autoif_loop (Some name) ifap
                | Some t \<Rightarrow> if t = name then autoif_loop target ifap else Inr None))"

definition autoifprobe :: "(string \<times> u32 \<times> ifa_sa) list option \<Rightarrow> string list option result" where
  "autoifprobe ifap =
     (case ifap of
        None \<Rightarrow> Inr None
      | Some l \<Rightarrow> bind_r (autoif_loop None l) (\<lambda>t. Inr (map_option (\<lambda>n. [take 16 n]) t)))"

definition rtsold_init :: "string list \<Rightarrow> rtsold \<Rightarrow> rtsold result" where
  "rtsold_init argv s =
     (if argv = [] then Inl (Exit 1)
      else fold_r (\<lambda>name s. bind_r (ifconfig name s) (\<lambda>(ok, s1). if ok then Inr s1 else Inl (Exit 1))) argv s)"

text \<open>
  One pass of the main loop; \<open>rtsock\<close> and \<open>sock\<close> are what the sockets deliver when \<open>select\<close>
  reports them. The answer is whether the loop goes on: with \<open>once\<close> (the command \<open>rtsol\<close>)
  it ends when no timer is left or every interface that is not down has had an
  advertisement.
\<close>

definition rtsold_pass ::
    "bool \<Rightarrow> byte list option option \<Rightarrow> recvd option option \<Rightarrow> rtsold \<Rightarrow> (bool \<times> rtsold) result" where
  "rtsold_pass once rtsock sock s =
     bind_r (rtsol_check_timer s) (\<lambda>(timeout, s1).
     if once \<and> (timeout = None \<or> (\<forall>ifi \<in> set (iflist s1). if_state ifi = IFS_DOWN \<or> racnt ifi \<noteq> 0))
     then Inr (False, s1)
     else let ret = map_option rtsock_input rtsock
          in Inr (True, case sock of None \<Rightarrow> s1 | Some p \<Rightarrow> rtsol_input p s1))"

inductive rtsold_step :: "bool \<Rightarrow> rtsold \<Rightarrow> rtsold \<Rightarrow> bool" for once where
  pass: "rtsold_pass once rtsock sock s = Inr (go, s') \<Longrightarrow> rtsold_step once s s'"

end
