(* ===== verification/Solicit.thy ===== *)
theory Solicit
  imports Rtsold Protocol Defaults
begin

text \<open>
  The properties of the solicitation daemon: its invariant, the limit on solicitations, the
  wait of its main loop, and the exchange of packets with the advertisement daemon.
\<close>

section \<open>The invariant\<close>

text \<open>
  What holds of an interface between two passes: a legal state, counters within their
  bounds, no solicitation counted outside the probing state, and a timer that is stopped or
  a time.
\<close>

definition ifi_ok :: "ifinfo \<Rightarrow> bool" where
  "ifi_ok ifi \<longleftrightarrow> if_state ifi \<in> {IFS_IDLE, IFS_DELAY, IFS_PROBE, IFS_DOWN, IFS_TENTATIVE} \<and>
     0 \<le> probes ifi \<and> probes ifi \<le> MAX_RTR_SOLICITATIONS \<and>
     (if_state ifi \<noteq> IFS_PROBE \<longrightarrow> probes ifi = 0) \<and>
     0 \<le> dadcount ifi \<and> dadcount ifi \<le> DADRETRY \<and>
     (ifi_expire ifi = tm_max \<or> tv_time (ifi_expire ifi))"

definition rs_inv :: "rtsold \<Rightarrow> bool" where
  "rs_inv s \<longleftrightarrow> (\<forall>n. tv_time (rs_clock s n)) \<and> (\<forall>n. 0 \<le> rs_random s n) \<and>
     (\<forall>ifi \<in> set (iflist s). ifi_ok ifi) \<and> distinct (map (sdl_index \<circ> ifi_sdl) (iflist s))"

text \<open>What every operation leaves alone: the answers of the environment and the list.\<close>

definition same_env :: "rtsold \<Rightarrow> rtsold \<Rightarrow> bool" where
  "same_env s s' \<longleftrightarrow> rs_clock s' = rs_clock s \<and> rs_random s' = rs_random s \<and> iflist s' = iflist s \<and>
     mobile_node s' = mobile_node s"

lemma same_env_refl [simp]: "same_env s s"
  by (simp add: same_env_def)

lemma same_env_trans: "same_env s s1 \<Longrightarrow> same_env s1 s2 \<Longrightarrow> same_env s s2"
  by (simp add: same_env_def)

text \<open>The parts of an interface a step of its timer may not change.\<close>

definition same_link :: "ifinfo \<Rightarrow> ifinfo \<Rightarrow> bool" where
  "same_link ifi ifi' \<longleftrightarrow> ifi_sdl ifi' = ifi_sdl ifi \<and> ifi_name ifi' = ifi_name ifi \<and>
     rs_data ifi' = rs_data ifi \<and> rs_datalen ifi' = rs_datalen ifi \<and> racnt ifi' = racnt ifi"

named_theorems rtsold_defs

lemmas [rtsold_defs] = same_env_def same_link_def rs_gettimeofday_def siocgifflags_def

lemma siocgifflags_env: "same_env s (snd (siocgifflags s))"
  by (simp add: rtsold_defs)

lemma interface_status_ok:
  "interface_status ifi s = (st, ifi', s') \<Longrightarrow> same_env s s' \<and> (\<exists>b. ifi' = ifi\<lparr>mediareqok := b\<rparr>) \<and> st \<in> {-1, 0, 1}"
  by (auto simp: interface_status_def rtsold_defs Let_def split: option.splits if_splits media.splits)
    (metis ifinfo.surjective ifinfo.update_convs(6))+


definition rs_stops :: "stop set" where
  "rs_stops = {Exit 1, NullDeref, OutOfBounds}"

lemma get_llflag_ok: "safe_r (\<lambda>(fl, s'). same_env s s') rs_stops (get_llflag name s)"
proof -
  have "safe_r (\<lambda>_. True) rs_stops (find_lladdr name ifap)" for ifap
    by (induction ifap rule: find_lladdr.induct) (auto simp: rs_stops_def split: ifa_sa.split)
  then show ?thesis
    by (auto simp: get_llflag_def rtsold_defs Let_def rs_stops_def split: option.splits intro!: safe_r_bind)
qed

lemma interface_up_ok: "safe_r (\<lambda>(fl, s'). same_env s s') rs_stops (interface_up name s)"
proof -
  obtain fl s1 where f: "siocgifflags s = (fl, s1)" by fastforce
  have e: "same_env s s1" using siocgifflags_env [of s] f by simp
  have "safe_r (\<lambda>(fl, s'). same_env s s') rs_stops (get_llflag name s1)"
    by (rule safe_r_mono [OF get_llflag_ok]) (use e in \<open>auto intro: same_env_trans\<close>)
  then show ?thesis
    using e unfolding interface_up_def f
    by (auto split: option.splits intro!: safe_r_bind) (auto simp: same_env_def)
qed

lemma defrouter_probe_ok: "safe_r (same_env s) rs_stops (defrouter_probe idx s)"
proof -
  have "safe_r (\<lambda>_. True) rs_stops (probe_routers idx i drs)" for i drs
    by (induction idx i drs rule: probe_routers.induct) (auto simp: rs_stops_def intro!: safe_r_bind)
  then show ?thesis
    by (auto simp: defrouter_probe_def rtsold_defs Let_def split: option.splits intro!: safe_r_bind)
qed

text \<open>What the switch on the state leaves for \<open>rtsol_timer_update\<close>.\<close>

definition ifi_pre :: "ifinfo \<Rightarrow> bool" where
  "ifi_pre ifi \<longleftrightarrow> if_state ifi \<in> {IFS_IDLE, IFS_DELAY, IFS_PROBE, IFS_DOWN, IFS_TENTATIVE} \<and>
     0 \<le> probes ifi \<and> probes ifi \<le> MAX_RTR_SOLICITATIONS \<and>
     (if_state ifi \<noteq> IFS_PROBE \<longrightarrow> probes ifi = 0) \<and> 0 \<le> dadcount ifi \<and> dadcount ifi \<le> DADRETRY"

lemma ifi_ok_pre: "ifi_ok ifi \<longleftrightarrow> ifi_pre ifi \<and> (ifi_expire ifi = tm_max \<or> tv_time (ifi_expire ifi))"
  by (auto simp: ifi_ok_def ifi_pre_def)

lemma check_idle_ok:
  assumes "ifi_pre ifi" "if_state ifi = IFS_IDLE"
  shows "safe_r (\<lambda>(ifi', s'). ifi_pre ifi' \<and> same_link ifi ifi' \<and> same_env s s') rs_stops (check_idle ifi s)"
proof -
  obtain st ifi0 s1 where st: "interface_status ifi s = (st, ifi0, s1)" by (metis prod.exhaust)
  then obtain b where b: "ifi0 = ifi\<lparr>mediareqok := b\<rparr>" "same_env s s1" using interface_status_ok by blast
  have "safe_r (same_env s) rs_stops (defrouter_probe idx s1)" for idx
    by (rule safe_r_mono [OF defrouter_probe_ok]) (use b(2) in \<open>auto intro: same_env_trans\<close>)
  then show ?thesis
    using assms b unfolding check_idle_def st
    by (auto simp: Let_def ifi_pre_def same_link_def intro!: safe_r_bind)
qed

lemma check_expired_ok:
  assumes "ifi_pre ifi"
  shows "safe_r (\<lambda>(ifi', s'). ifi_pre ifi' \<and> same_link ifi ifi' \<and> same_env s s') rs_stops (check_expired ifi s)"
proof -
  have "safe_r (\<lambda>(ifi', s'). ifi_pre ifi' \<and> same_link ifi ifi' \<and> same_env s s') rs_stops
      (bind_r (interface_up (ifi_name ifi) s) (\<lambda>(flags, s1). Inr (ifi\<lparr>if_state := up_state flags\<rparr>, s1)))"
    if "if_state ifi = IFS_DOWN \<or> if_state ifi = IFS_TENTATIVE"
    by (rule safe_r_bind [OF interface_up_ok]) (use assms that in \<open>auto simp: ifi_pre_def same_link_def up_state_def\<close>)
  then show ?thesis
    using assms check_idle_ok [OF assms]
    by (auto simp: check_expired_def sendpacket_def ifi_pre_def same_link_def same_env_def)
qed

text \<open>
  \<open>rtsol_timer_update\<close> makes the invariant hold: the timer is stopped exactly when the
  interface is idle on a host that is not mobile, and else runs for at most a minute.
\<close>

lemma timer_switch_ok:
  assumes pre: "ifi_pre ifi" and rnd: "\<And>n. 0 \<le> rs_random s n"
  shows "\<exists>ifi1 s1. timer_switch ifi s = Some (ifi1, s1) \<and> ifi_pre ifi1 \<and> same_link ifi ifi1 \<and> same_env s s1 \<and>
    rs_clock_reads s1 = rs_clock_reads s \<and> if_state ifi1 = if_state ifi \<and> probes ifi1 = probes ifi \<and>
    (if if_state ifi = IFS_IDLE \<and> \<not> mobile_node s then ifi_timer ifi1 = tm_max
     else tv_time (ifi_timer ifi1) \<and> usecs (ifi_timer ifi1) \<le> 60000000)"
proof -
  have interval: "tv_time (Timeval (x mod 1000000 div 1000000) (x mod 1000000 mod 1000000))" for x :: int
    by (simp add: tv_time_def tv_ok_def)
  have less: "x mod 1000000 < 1000000" for x :: int by simp
  consider "if_state ifi = IFS_DOWN \<or> if_state ifi = IFS_TENTATIVE" | "if_state ifi = IFS_IDLE"
    | "if_state ifi = IFS_DELAY" | "if_state ifi = IFS_PROBE"
    using pre by (auto simp: ifi_pre_def)
  then show ?thesis
  proof cases
    case 3
    with pre interval less show ?thesis
      by (simp add: timer_switch_def Let_def ifi_pre_def rtsold_defs usecs_def)
  qed (use pre in \<open>auto simp: timer_switch_def ifi_pre_def rtsold_defs usecs_def tv_time_def tv_ok_def\<close>)
qed

lemma rtsol_timer_update_ok:
  assumes pre: "ifi_pre ifi" and env: "\<And>n. tv_time (rs_clock s n)" "\<And>n. 0 \<le> rs_random s n"
    and up: "rtsol_timer_update ifi s = (ifi', s')"
  shows "ifi_ok ifi' \<and> same_link ifi ifi' \<and> same_env s s' \<and> if_state ifi' = if_state ifi \<and> probes ifi' = probes ifi \<and>
    (if if_state ifi = IFS_IDLE \<and> \<not> mobile_node s then ifi_expire ifi' = tm_max
     else usecs (ifi_expire ifi') = usecs (rs_clock s (rs_clock_reads s)) + usecs (ifi_timer ifi') \<and>
       tv_time (ifi_timer ifi') \<and> usecs (ifi_timer ifi') \<le> 60000000)"
proof -
  define ifi0 where "ifi0 = ifi\<lparr>ifi_timer := Timeval 0 0\<rparr>"
  have ifi0: "ifi_pre ifi0" "same_link ifi ifi0" "if_state ifi0 = if_state ifi" "probes ifi0 = probes ifi"
    using pre by (simp_all add: ifi0_def ifi_pre_def same_link_def)
  obtain ifi1 s1 where t: "timer_switch ifi0 s = Some (ifi1, s1)" and p: "ifi_pre ifi1" "same_link ifi0 ifi1" "same_env s s1"
    "rs_clock_reads s1 = rs_clock_reads s" "if_state ifi1 = if_state ifi" "probes ifi1 = probes ifi"
    and tmr: "if if_state ifi = IFS_IDLE \<and> \<not> mobile_node s then ifi_timer ifi1 = tm_max
     else tv_time (ifi_timer ifi1) \<and> usecs (ifi_timer ifi1) \<le> 60000000"
    using timer_switch_ok [OF ifi0(1) env(2)] unfolding ifi0(3,4) by blast
  have link: "same_link ifi ifi1" using ifi0(2) p(2) by (simp add: same_link_def)
  show ?thesis
  proof (cases "if_state ifi = IFS_IDLE \<and> \<not> mobile_node s")
    case True
    with tmr have "ifi_timer ifi1 = tm_max" by simp
    then have "ifi' = ifi1\<lparr>ifi_expire := tm_max\<rparr>" "s' = s1"
      using up unfolding rtsol_timer_update_def ifi0_def [symmetric] t by (simp_all add: TIMEVAL_EQUAL_def)
    with True p link show ?thesis by (simp add: ifi_ok_pre ifi_pre_def same_link_def)
  next
    case False
    with tmr have tm: "tv_time (ifi_timer ifi1)" "usecs (ifi_timer ifi1) \<le> 60000000" by (simp_all split: if_splits)
    then have "\<not> TIMEVAL_EQUAL (ifi_timer ifi1) tm_max" by (auto simp: TIMEVAL_EQUAL_def tm_max_def tv_time_def tv_ok_def)
    then have "ifi' = ifi1\<lparr>ifi_expire := TIMEVAL_ADD (rs_clock s (rs_clock_reads s)) (ifi_timer ifi1)\<rparr>"
      "s' = s1\<lparr>rs_clock_reads := Suc (rs_clock_reads s1)\<rparr>"
      using up p(3,4) unfolding rtsol_timer_update_def ifi0_def [symmetric] t
      by (simp_all add: rs_gettimeofday_def same_env_def)
    moreover have "tv_time (TIMEVAL_ADD (rs_clock s (rs_clock_reads s)) (ifi_timer ifi1))"
      using tv_time_add env(1) tm(1) by blast
    ultimately show ?thesis
      using False p link tm by (auto simp: ifi_ok_pre ifi_pre_def same_link_def same_env_def)
  qed
qed


section \<open>The wait of the main loop\<close>

definition rs_env :: "rtsold \<Rightarrow> bool" where
  "rs_env s \<longleftrightarrow> (\<forall>n. tv_time (rs_clock s n)) \<and> (\<forall>n. 0 \<le> rs_random s n)"

lemma rs_env_same: "rs_env s \<Longrightarrow> same_env s s' \<Longrightarrow> rs_env s'"
  by (simp add: rs_env_def same_env_def)

lemma rs_inv_env: "rs_inv s \<longleftrightarrow> rs_env s \<and> (\<forall>ifi \<in> set (iflist s). ifi_ok ifi) \<and> distinct (map (sdl_index \<circ> ifi_sdl) (iflist s))"
  by (auto simp: rs_inv_def rs_env_def)

lemma check_ifinfo_ok:
  assumes ok: "ifi_ok ifi" and env: "rs_env s"
  shows "safe_r (\<lambda>(ifi', s'). ifi_ok ifi' \<and> same_link ifi ifi' \<and> same_env s s') rs_stops (check_ifinfo now ifi s)"
proof -
  have pre: "ifi_pre ifi" using ok by (simp add: ifi_ok_pre)
  have "safe_r (\<lambda>(ifi', s'). ifi_ok ifi' \<and> same_link ifi ifi' \<and> same_env s s') rs_stops
      (bind_r (check_expired ifi s) (\<lambda>(ifi, s1). Inr (rtsol_timer_update ifi s1)))"
  proof (rule safe_r_bind [OF check_expired_ok [OF pre]], clarsimp)
    fix ifi1 s1 ifi' s'
    assume 1: "ifi_pre ifi1" "same_link ifi ifi1" "same_env s s1" and up: "rtsol_timer_update ifi1 s1 = (ifi', s')"
    have "rs_env s1" using env 1(3) by (rule rs_env_same)
    with rtsol_timer_update_ok [OF 1(1) _ _ up] have "ifi_ok ifi' \<and> same_link ifi1 ifi' \<and> same_env s1 s'"
      by (simp add: rs_env_def)
    with 1 show "ifi_ok ifi' \<and> same_link ifi ifi' \<and> same_env s s'"
      by (auto simp: same_link_def intro: same_env_trans)
  qed
  then show ?thesis using ok by (simp add: check_ifinfo_def same_link_def)
qed

lemma check_ifinfos_ok:
  assumes "\<forall>ifi \<in> set ifs. ifi_ok ifi" "rs_env s"
  shows "safe_r (\<lambda>(ifs', tmr, s'). list_all2 (\<lambda>a b. ifi_ok b \<and> same_link a b) ifs ifs' \<and> same_env s s' \<and>
      tmr \<le> t0 \<and> (\<forall>ifi \<in> set ifs'. tmr \<le> ifi_expire ifi) \<and> (tmr = t0 \<or> (\<exists>ifi \<in> set ifs'. tmr = ifi_expire ifi)))
    rs_stops (check_ifinfos now ifs t0 s)"
  using assms
proof (induction ifs arbitrary: t0 s)
  case (Cons ifi ifs)
  have ok: "ifi_ok ifi" using Cons.prems(1) by simp
  show ?case
    unfolding check_ifinfos.simps
  proof (rule safe_r_bind [OF check_ifinfo_ok [OF ok Cons.prems(2)]], unfold split_paired_all prod.case, elim conjE)
    fix ifi1 s1 assume 1: "ifi_ok ifi1" "same_link ifi ifi1" "same_env s s1"
    define t where "t = (if TIMEVAL_LT (ifi_expire ifi1) t0 then ifi_expire ifi1 else t0)"
    have t: "t \<le> t0" "t \<le> ifi_expire ifi1" "t = t0 \<or> t = ifi_expire ifi1" by (auto simp: t_def)
    have "rs_env s1" using Cons.prems(2) 1(3) by (rule rs_env_same)
    from Cons.IH [OF _ this, of t] Cons.prems(1)
    have IH: "safe_r (\<lambda>(ifs', tmr, s'). list_all2 (\<lambda>a b. ifi_ok b \<and> same_link a b) ifs ifs' \<and> same_env s1 s' \<and>
          tmr \<le> t \<and> (\<forall>ifi \<in> set ifs'. tmr \<le> ifi_expire ifi) \<and> (tmr = t \<or> (\<exists>ifi \<in> set ifs'. tmr = ifi_expire ifi)))
        rs_stops (check_ifinfos now ifs t s1)"
      by simp
    show "safe_r (\<lambda>(ifs', tmr, s'). list_all2 (\<lambda>a b. ifi_ok b \<and> same_link a b) (ifi # ifs) ifs' \<and> same_env s s' \<and>
          tmr \<le> t0 \<and> (\<forall>ifi \<in> set ifs'. tmr \<le> ifi_expire ifi) \<and> (tmr = t0 \<or> (\<exists>ifi \<in> set ifs'. tmr = ifi_expire ifi)))
        rs_stops (bind_r (check_ifinfos now ifs (if TIMEVAL_LT (ifi_expire ifi1) t0 then ifi_expire ifi1 else t0) s1)
          (\<lambda>(ifs', tmr, s2). Inr (ifi1 # ifs', tmr, s2)))"
      unfolding t_def [symmetric]
      by (rule safe_r_bind [OF IH]) (use 1 t in \<open>auto intro: same_env_trans order_trans\<close>)
  qed
qed simp

text \<open>What the waiting time promises about the timers of the interfaces.\<close>

definition rs_wait :: "timeval \<Rightarrow> rtsold \<Rightarrow> timeval option \<Rightarrow> bool" where
  "rs_wait now s r \<longleftrightarrow>
     (case r of
        None \<Rightarrow> \<forall>ifi \<in> set (iflist s). tm_max \<le> ifi_expire ifi
      | Some d \<Rightarrow> tv_ok d \<and> (\<forall>ifi \<in> set (iflist s).
          ifi_expire ifi = tm_max \<or> ifi_expire ifi \<le> now \<or> usecs now + usecs d \<le> usecs (ifi_expire ifi)))"

lemma rs_wait_eq:
  assumes "tv_time now" "\<forall>ifi \<in> set (iflist s). ifi_ok ifi" "tmr \<le> tm_max"
    "\<forall>ifi \<in> set (iflist s). tmr \<le> ifi_expire ifi" "tmr = tm_max \<or> (\<exists>ifi \<in> set (iflist s). tmr = ifi_expire ifi)"
  shows "rs_wait now s (if TIMEVAL_EQUAL tmr tm_max then None
    else if TIMEVAL_LT tmr now then Some (Timeval 0 0) else Some (TIMEVAL_SUB tmr now))"
proof (cases "tmr = tm_max")
  case True
  with assms(4) show ?thesis by (simp add: rs_wait_def TIMEVAL_EQUAL_def)
next
  case False
  have ne: "\<not> TIMEVAL_EQUAL tmr tm_max" using False by (auto simp: TIMEVAL_EQUAL_def intro: timeval.expand)
  have tmr: "tv_time tmr" using False assms(2,5) by (auto simp: ifi_ok_pre)
  have "usecs tmr \<le> usecs (ifi_expire ifi)" if "ifi \<in> set (iflist s)" "ifi_expire ifi \<noteq> tm_max" for ifi
  proof -
    have "tv_time (ifi_expire ifi)" using that assms(2) by (auto simp: ifi_ok_pre)
    with that(1) assms(4) tmr show ?thesis by (metis tv_le_usecs tv_timeD(1))
  qed
  moreover have "usecs now < usecs (ifi_expire ifi) \<or> ifi_expire ifi \<le> now" if "ifi \<in> set (iflist s)" "ifi_expire ifi \<noteq> tm_max" for ifi
  proof -
    have "tv_time (ifi_expire ifi)" using that assms(2) by (auto simp: ifi_ok_pre)
    with assms(1) show ?thesis by (metis tv_le_usecs tv_timeD(1) linorder_not_le)
  qed
  ultimately show ?thesis
    using ne tmr assms(1) tv_ok_sub [of tmr now]
    by (auto simp: rs_wait_def usecs_def [of "Timeval 0 0"] tv_ok_def [of "Timeval 0 0"] tv_timeD)
      (metis less_imp_le)+
qed


lemma list_all2_link:
  "list_all2 (\<lambda>a b. ifi_ok b \<and> same_link a b) ifs ifs' \<Longrightarrow>
   (\<forall>ifi \<in> set ifs'. ifi_ok ifi) \<and> map (sdl_index \<circ> ifi_sdl) ifs' = map (sdl_index \<circ> ifi_sdl) ifs"
  by (induction ifs ifs' rule: list_all2_induct) (auto simp: same_link_def)

lemma rtsol_check_timer_ok:
  assumes inv: "rs_inv s"
  shows "safe_r (\<lambda>(r, s'). rs_inv s' \<and> rs_wait (rs_clock s (rs_clock_reads s)) s' r) rs_stops (rtsol_check_timer s)"
proof -
  define now where "now = rs_clock s (rs_clock_reads s)"
  let ?s = "s\<lparr>rs_clock_reads := Suc (rs_clock_reads s)\<rparr>"
  have env: "rs_env ?s" and ok: "\<forall>ifi \<in> set (iflist ?s). ifi_ok ifi" and d: "distinct (map (sdl_index \<circ> ifi_sdl) (iflist ?s))"
    and now: "tv_time now"
    using inv by (simp_all add: rs_inv_env rs_env_def now_def)
  show ?thesis
    unfolding rtsol_check_timer_def rs_gettimeofday_def Let_def prod.case now_def [symmetric]
  proof (rule safe_r_bind [OF check_ifinfos_ok [OF ok env]], unfold split_paired_all prod.case, elim conjE)
    fix ifs tmr s2
    assume l: "list_all2 (\<lambda>a b. ifi_ok b \<and> same_link a b) (iflist ?s) ifs" and e: "same_env ?s s2"
      and t: "tmr \<le> tm_max" "\<forall>ifi \<in> set ifs. tmr \<le> ifi_expire ifi" "tmr = tm_max \<or> (\<exists>ifi \<in> set ifs. tmr = ifi_expire ifi)"
    let ?s' = "s2\<lparr>iflist := ifs\<rparr>"
    have "rs_inv ?s'"
      using list_all2_link [OF l] d rs_env_same [OF env e] by (simp add: rs_inv_env rs_env_def)
    moreover from this have "rs_wait now ?s' (if TIMEVAL_EQUAL tmr tm_max then None
        else if TIMEVAL_LT tmr now then Some (Timeval 0 0) else Some (TIMEVAL_SUB tmr now))"
      by (intro rs_wait_eq now) (use t in \<open>simp_all add: rs_inv_def\<close>)
    ultimately show "safe_r (\<lambda>(r, s'). rs_inv s' \<and> rs_wait now s' r) rs_stops
        (Inr (if TIMEVAL_EQUAL tmr tm_max then None
              else if TIMEVAL_LT tmr now then Some (Timeval 0 0) else Some (TIMEVAL_SUB tmr now), ?s'))"
      by simp
  qed
qed

lemma set_ifinfo_map:
  "sdl_index (ifi_sdl ifi) = idx \<Longrightarrow>
   map (sdl_index \<circ> ifi_sdl) (set_ifinfo idx ifi l) = map (sdl_index \<circ> ifi_sdl) l"
  by (induction l) auto

lemma set_ifinfo_mem: "x \<in> set (set_ifinfo idx ifi l) \<Longrightarrow> x = ifi \<or> x \<in> set l"
  by (induction l) (auto split: if_splits)

lemma find_set_ifinfo:
  "find (\<lambda>i. sdl_index (ifi_sdl i) = idx) l = Some x \<Longrightarrow> sdl_index (ifi_sdl ifi) = idx \<Longrightarrow>
   find (\<lambda>i. sdl_index (ifi_sdl i) = idx) (set_ifinfo idx ifi l) = Some ifi"
  by (induction l) (auto split: if_splits)

lemma ra_received_ok:
  assumes ok: "ifi_ok ifi" and env: "rs_env s" and r: "ra_received ifi s = (ifi', s')"
  shows "ifi_ok ifi' \<and> ifi_sdl ifi' = ifi_sdl ifi \<and> same_env s s' \<and> racnt ifi' = racnt ifi + 1 \<and>
    (if_state ifi = IFS_PROBE \<longrightarrow> if_state ifi' = IFS_IDLE \<and> probes ifi' = 0 \<and>
       (\<not> mobile_node s \<longrightarrow> ifi_expire ifi' = tm_max))"
proof (cases "if_state ifi = IFS_PROBE")
  case True
  let ?ifi = "ifi\<lparr>racnt := racnt ifi + 1, if_state := IFS_IDLE, probes := 0\<rparr>"
  have up: "rtsol_timer_update ?ifi s = (ifi', s')" using r True by (simp add: ra_received_def)
  have "ifi_pre ?ifi" using ok by (simp add: ifi_ok_pre ifi_pre_def)
  from rtsol_timer_update_ok [OF this _ _ up] env show ?thesis by (simp add: rs_env_def same_link_def)
next
  case False
  with r ok show ?thesis by (auto simp: ra_received_def ifi_ok_def)
qed

lemma rtsol_input_inv: "rs_inv s \<Longrightarrow> rs_inv (rtsol_input pkt s)"
proof (cases pkt)
  case (Some p)
  assume inv: "rs_inv s"
  obtain idx dst hlim where c: "fold scan_cmsg (rcv_cmsgs p) (0, in6addr_any, None) = (idx, dst, hlim)" by (metis prod.exhaust)
  have "rs_inv (s1\<lparr>iflist := set_ifinfo idx ifi' (iflist s1)\<rparr>)"
    if "find_ifinfo idx s = Some ifi" "ra_received ifi s = (ifi', s1)" for ifi ifi' s1
  proof -
    have m: "ifi \<in> set (iflist s)" "sdl_index (ifi_sdl ifi) = idx" using that(1) by (auto simp: find_ifinfo_def find_Some_iff)
    with inv that(2) ra_received_ok [of ifi s ifi' s1] have "ifi_ok ifi'" "ifi_sdl ifi' = ifi_sdl ifi" "same_env s s1"
      by (auto simp: rs_inv_env)
    with inv m show ?thesis
      using set_ifinfo_map [of ifi' idx "iflist s"]
      by (auto simp: rs_inv_def same_env_def dest: set_ifinfo_mem)
  qed
  with inv Some c show ?thesis by (auto simp: rtsol_input_def Let_def split: option.splits prod.splits)
qed (simp add: rtsol_input_def)

text \<open>
  C9. The solicitation daemon never sleeps past the timer of an interface:
  the time \<open>rtsol_check_timer\<close> returns ends no later than any timer that is running and not
  yet due, and it returns no time only when every timer is stopped or beyond the largest
  time. The invariant of the interfaces is kept, and a stop is one of the exits of
  \<open>get_llflag\<close>, a null address from \<open>getifaddrs\<close>, or the read behind the router list.
\<close>

theorem rtsol_wait_sound:
  assumes "rs_inv s" "now = rs_clock s (rs_clock_reads s)"
  shows "case rtsol_check_timer s of
      Inl e \<Rightarrow> e \<in> {Exit 1, NullDeref, OutOfBounds}
    | Inr (r, s') \<Rightarrow> rs_inv s' \<and>
        (case r of
           None \<Rightarrow> \<forall>ifi \<in> set (iflist s'). tm_max \<le> ifi_expire ifi
         | Some d \<Rightarrow> tv_ok d \<and> (\<forall>ifi \<in> set (iflist s').
             ifi_expire ifi = tm_max \<or> ifi_expire ifi \<le> now \<or> usecs now + usecs d \<le> usecs (ifi_expire ifi)))"
  using rtsol_check_timer_ok [OF assms(1)] assms(2)
  by (auto simp: safe_r_def rs_stops_def rs_wait_def split: sum.splits option.splits)

text \<open>What \<open>ifconfig\<close> builds before the state of the interface is known.\<close>

lemma rs_make_packet_zero:
  "rs_make_packet (ifinfo_zero d name) = Inr ifi \<Longrightarrow>
   ifi_sdl ifi = d \<and> probes ifi = 0 \<and> dadcount ifi = 0 \<and> rs_datalen ifi = 8 + lladdropt_length d"
  by (auto simp: rs_make_packet_def ifinfo_zero_def Let_def res_simps)

lemma link_inv:
  assumes inv: "rs_inv s" and none: "find_ifinfo (sdl_index (ifi_sdl ifi)) s = None" and e: "same_env s s1"
    and p: "ifi_pre ifi" and up: "rtsol_timer_update ifi s1 = (ifi', s')"
  shows "rs_inv (s'\<lparr>iflist := ifi' # iflist s'\<rparr>)"
proof -
  have env: "rs_env s1" using inv e by (auto simp: rs_inv_env intro: rs_env_same)
  from rtsol_timer_update_ok [OF p _ _ up] env have "ifi_ok ifi'" "ifi_sdl ifi' = ifi_sdl ifi" "same_env s1 s'"
    by (simp_all add: rs_env_def same_link_def)
  moreover have "sdl_index (ifi_sdl ifi) \<notin> (sdl_index \<circ> ifi_sdl) ` set (iflist s)"
    using none by (auto simp: find_ifinfo_def find_None_iff)
  moreover have "same_env s s'" using e \<open>same_env s1 s'\<close> by (rule same_env_trans)
  ultimately show ?thesis using inv by (auto simp: rs_inv_def same_env_def)
qed

lemma ifconfig_up_inv:
  assumes inv: "rs_inv s" and none: "find_ifinfo (sdl_index (ifi_sdl ifi)) s = None"
    and zero: "probes ifi = 0" "dadcount ifi = 0"
  shows "safe_r rs_inv UNIV (ifconfig_up ifi s)"
proof -
  obtain st ifi1 s1 where st: "interface_status (ifi\<lparr>mediareqok := True\<rparr>) s = (st, ifi1, s1)" by (metis prod.exhaust)
  then obtain b where b: "ifi1 = ifi\<lparr>mediareqok := b\<rparr>" "same_env s s1" using interface_status_ok by fastforce
  define ifi3 where "ifi3 = (if \<not> mediareqok (ifi1\<lparr>active := st\<rparr>)
    then ifi1\<lparr>active := st, probeinterval := PROBE_INTERVAL\<rparr> else ifi1\<lparr>active := st\<rparr>)"
  have ifi3: "ifi_sdl ifi3 = ifi_sdl ifi" "ifi_pre (ifi3\<lparr>if_state := up_state fl\<rparr>)" for fl
    using zero by (auto simp: ifi3_def b(1) ifi_pre_def up_state_def)
  show ?thesis
    unfolding ifconfig_up_def st prod.case Let_def ifi3_def [symmetric]
  proof (rule safe_r_bind_any, unfold split_paired_all prod.case)
    fix flags s2 assume "interface_up (ifi_name ifi3) s1 = Inr (flags, s2)"
    then have e: "same_env s s2" using interface_up_ok [of s1 "ifi_name ifi3"] b(2) by (auto intro: same_env_trans)
    obtain ifi4 s3 where up: "rtsol_timer_update (ifi3\<lparr>if_state := up_state flags\<rparr>) s2 = (ifi4, s3)" by fastforce
    from link_inv [OF inv _ e ifi3(2) up] none
    show "safe_r rs_inv UNIV (case rtsol_timer_update (ifi3\<lparr>if_state := up_state flags\<rparr>) s2 of
        (ifi4, s3) \<Rightarrow> Inr (s3\<lparr>iflist := ifi4 # iflist s3\<rparr>))"
      unfolding up by (simp add: ifi3(1))
  qed
qed

lemma ifconfig_inv:
  assumes inv: "rs_inv s"
  shows "safe_r (\<lambda>(ok, s'). rs_inv s') UNIV (ifconfig name s)"
proof -
  have "rs_inv s1"
    if "find_ifinfo (sdl_index d) s = None" "rs_make_packet (ifinfo_zero d name) = Inr ifi" "ifconfig_up ifi s = Inr s1" for d ifi s1
    using ifconfig_up_inv [OF inv, of ifi] that rs_make_packet_zero [OF that(2)] by simp
  then show ?thesis
    using inv unfolding ifconfig_def by (auto intro!: safe_r_bind_any split: option.split)
qed

lemma rtsold_init_inv:
  assumes "rs_env s" "iflist s = []" "rtsold_init argv s = Inr s0"
  shows "rs_inv s0"
proof -
  let ?f = "\<lambda>name s. bind_r (ifconfig name s) (\<lambda>(ok, s1). if ok then Inr s1 else Inl (Exit 1))"
  have "rs_inv s" using assms(1,2) by (simp add: rs_inv_env)
  then have "safe_r rs_inv UNIV (fold_r ?f argv s)"
  proof (rule fold_r_safe [rotated])
    fix name s assume "rs_inv s"
    from ifconfig_inv [OF this, of name] show "safe_r rs_inv UNIV (?f name s)"
      by (auto simp: safe_r_UNIV res_simps split: if_splits)
  qed
  then show ?thesis using assms(3) by (simp add: rtsold_init_def safe_r_UNIV split: if_splits)
qed

section \<open>The solicitations of an interface\<close>

text \<open>What of an interface determines its solicitation, and the solicitation it sends.\<close>

definition rs_key :: "ifinfo \<Rightarrow> sockaddr_dl \<times> nat \<times> byte list" where
  "rs_key ifi = (ifi_sdl ifi, rs_datalen ifi, rs_data ifi)"

definition packet_of :: "ifinfo \<Rightarrow> int \<times> byte list" where
  "packet_of ifi = (sdl_index (ifi_sdl ifi), take (rs_datalen ifi) (rs_data ifi))"

lemma rs_key_packet:
  assumes "map rs_key l = map rs_key l'"
  shows "packet_of ` set l = packet_of ` set l'"
proof -
  have "packet_of ` set xs = (\<lambda>(d, n, b). (sdl_index d, take n b)) ` set (map rs_key xs)" for xs
    by (simp add: image_image packet_of_def rs_key_def)
  then show ?thesis by (simp only: assms)
qed

text \<open>An interface has the packet \<open>rs_make_packet\<close> would build for it.\<close>

lemma own_packet_key:
  assumes "rs_key ifi' = rs_key ifi" "rs_make_packet ifi = Inr ifi"
  shows "rs_make_packet ifi' = Inr ifi'"
proof -
  have upd: "x\<lparr>rs_datalen := n, rs_data := b\<rparr> = x \<longleftrightarrow> rs_datalen x = n \<and> rs_data x = b" for x :: ifinfo and n b
    by (cases x) auto
  show ?thesis using assms by (auto simp: rs_make_packet_def Let_def res_simps upd rs_key_def)
qed

lemma own_packet_made: "rs_make_packet ifi0 = Inr ifi \<Longrightarrow> rs_make_packet ifi = Inr ifi"
  by (auto simp: rs_make_packet_def Let_def res_simps)

definition owned :: "(int \<times> byte list) set \<Rightarrow> rtsold \<Rightarrow> bool" where
  "owned X s \<longleftrightarrow> (\<forall>ifi \<in> set (iflist s). rs_make_packet ifi = Inr ifi) \<and> set (rs_sent s) \<subseteq> X \<union> packet_of ` set (iflist s)"

lemma owned_keys:
  assumes "owned X s" "map rs_key (iflist s') = map rs_key (iflist s)"
    "set (rs_sent s') \<subseteq> set (rs_sent s) \<union> packet_of ` set (iflist s)"
  shows "owned X s'"
proof -
  have "rs_make_packet ifi' = Inr ifi'" if "ifi' \<in> set (iflist s')" for ifi'
  proof -
    have "rs_key ifi' \<in> rs_key ` set (iflist s)" using that assms(2) by (metis image_eqI list.set_map)
    then show ?thesis using own_packet_key assms(1) unfolding owned_def by fastforce
  qed
  then show ?thesis using assms(1,3) rs_key_packet [OF assms(2)] by (auto simp: owned_def)
qed

lemma interface_status_sent: "interface_status ifi s = (st, ifi', s') \<Longrightarrow> rs_sent s' = rs_sent s \<and> rs_key ifi' = rs_key ifi"
  by (auto simp: interface_status_def siocgifflags_def rs_key_def Let_def split: option.splits if_splits media.splits)

lemma get_llflag_sent: "safe_r (\<lambda>(fl, s'). rs_sent s' = rs_sent s) UNIV (get_llflag name s)"
  by (auto simp: get_llflag_def Let_def split: option.splits intro!: safe_r_bind_any)

lemma interface_up_sent: "interface_up name s = Inr (fl, s') \<Longrightarrow> rs_sent s' = rs_sent s"
proof -
  obtain f s1 where f: "siocgifflags s = (f, s1)" by fastforce
  have s1: "rs_sent s1 = rs_sent s" using f by (auto simp: siocgifflags_def)
  have "safe_r (\<lambda>(fl, s'). rs_sent s' = rs_sent s) UNIV (interface_up name s)"
    using s1 get_llflag_sent [of s1 name] unfolding interface_up_def f
    by (auto split: option.splits intro!: safe_r_bind)
  then show "interface_up name s = Inr (fl, s') \<Longrightarrow> ?thesis" by (simp add: safe_r_UNIV)
qed

lemma defrouter_probe_sent: "defrouter_probe idx s = Inr s' \<Longrightarrow> rs_sent s' = rs_sent s"
  by (auto simp: defrouter_probe_def Let_def res_simps split: option.splits)

lemma timer_update_sent:
  "rtsol_timer_update ifi s = (ifi', s') \<Longrightarrow> rs_sent s' = rs_sent s \<and> iflist s' = iflist s \<and> rs_key ifi' = rs_key ifi"
  by (auto simp: rtsol_timer_update_def timer_switch_def rs_gettimeofday_def rs_key_def Let_def split: option.splits if_splits)

lemma check_idle_sent:
  assumes "check_idle ifi s = Inr (ifi', s')"
  shows "rs_sent s' = rs_sent s \<and> rs_key ifi' = rs_key ifi"
proof -
  obtain st ifi0 s1 where st: "interface_status ifi s = (st, ifi0, s1)" by (metis prod.exhaust)
  from interface_status_sent [OF st] assms show ?thesis unfolding check_idle_def st
    by (auto simp: Let_def res_simps rs_key_def dest: defrouter_probe_sent split: if_splits)
qed

lemma check_expired_sent:
  "check_expired ifi s = Inr (ifi', s') \<Longrightarrow> set (rs_sent s') \<subseteq> insert (packet_of ifi) (set (rs_sent s)) \<and> rs_key ifi' = rs_key ifi"
  by (auto simp: check_expired_def sendpacket_def res_simps packet_of_def rs_key_def dest: interface_up_sent check_idle_sent split: if_splits)

lemma check_ifinfo_sent:
  "check_ifinfo now ifi s = Inr (ifi', s') \<Longrightarrow>
   set (rs_sent s') \<subseteq> insert (packet_of ifi) (set (rs_sent s)) \<and> rs_key ifi' = rs_key ifi"
  by (auto simp: check_ifinfo_def res_simps dest!: check_expired_sent timer_update_sent split: if_splits)

lemma check_ifinfos_sent:
  "check_ifinfos now ifs t s = Inr (ifs', tmr, s') \<Longrightarrow>
   set (rs_sent s') \<subseteq> set (rs_sent s) \<union> packet_of ` set ifs \<and> map rs_key ifs' = map rs_key ifs"
proof (induction ifs arbitrary: t s ifs' tmr s')
  case (Cons ifi ifs)
  then obtain ifi1 s1 t1 ifs1 where 1: "check_ifinfo now ifi s = Inr (ifi1, s1)"
    "check_ifinfos now ifs t1 s1 = Inr (ifs1, tmr, s')" "ifs' = ifi1 # ifs1"
    by (auto simp: res_simps)
  from check_ifinfo_sent [OF 1(1)] Cons.IH [OF 1(2)] show ?case by (auto simp: 1(3))
qed simp

lemma check_timer_owned:
  assumes "owned X s" "rtsol_check_timer s = Inr (r, s')"
  shows "owned X s'"
proof -
  obtain ifs tmr s2 where "check_ifinfos (rs_clock s (rs_clock_reads s)) (iflist s) tm_max
      (s\<lparr>rs_clock_reads := Suc (rs_clock_reads s)\<rparr>) = Inr (ifs, tmr, s2)" and s': "s' = s2\<lparr>iflist := ifs\<rparr>"
    using assms(2) by (auto simp: rtsol_check_timer_def rs_gettimeofday_def res_simps)
  from check_ifinfos_sent [OF this(1)] show ?thesis by (intro owned_keys [OF assms(1)]) (simp_all add: s')
qed

lemma rtsol_input_owned:
  assumes "owned X s"
  shows "owned X (rtsol_input pkt s)"
proof (cases pkt)
  case (Some p)
  obtain idx dst hlim where c: "fold scan_cmsg (rcv_cmsgs p) (0, in6addr_any, None) = (idx, dst, hlim)" by (metis prod.exhaust)
  have "owned X (s1\<lparr>iflist := set_ifinfo idx ifi' (iflist s1)\<rparr>)"
    if f: "find_ifinfo idx s = Some ifi" and r: "ra_received ifi s = (ifi', s1)" for ifi ifi' s1
  proof -
    have k: "rs_key ifi' = rs_key ifi" "rs_sent s1 = rs_sent s" "iflist s1 = iflist s"
      using r by (auto simp: ra_received_def Let_def rs_key_def dest!: timer_update_sent split: if_splits)
    have "map rs_key (set_ifinfo idx ifi' l) = map rs_key l" if "find (\<lambda>i. sdl_index (ifi_sdl i) = idx) l = Some ifi" for l
      using that by (induction l) (auto simp: k(1) split: if_splits)
    with f show ?thesis by (intro owned_keys [OF assms]) (simp_all add: k find_ifinfo_def)
  qed
  with assms Some c show ?thesis by (auto simp: rtsol_input_def Let_def split: option.splits prod.splits)
qed (use assms in \<open>simp add: rtsol_input_def\<close>)

lemma ifconfig_owned:
  assumes "owned X s" "ifconfig name s = Inr (ok, s')"
  shows "owned X s'"
proof -
  have "owned X s1" if m: "rs_make_packet ifi0 = Inr ifi" and up: "ifconfig_up ifi s = Inr s1" for ifi0 ifi s1
  proof -
    obtain st ifi1 s2 where st: "interface_status (ifi\<lparr>mediareqok := True\<rparr>) s = (st, ifi1, s2)" by (metis prod.exhaust)
    then have e: "same_env s s2" "rs_sent s2 = rs_sent s" "rs_key ifi1 = rs_key ifi"
      using interface_status_ok interface_status_sent [OF st] by (auto simp: rs_key_def)
    define ifi2 where "ifi2 = (if \<not> mediareqok (ifi1\<lparr>active := st\<rparr>)
      then ifi1\<lparr>active := st, probeinterval := PROBE_INTERVAL\<rparr> else ifi1\<lparr>active := st\<rparr>)"
    have k2: "rs_key ifi2 = rs_key ifi1" by (simp add: ifi2_def rs_key_def)
    obtain fl s3 ifi3 s4 where u: "interface_up (ifi_name ifi2) s2 = Inr (fl, s3)"
      and t: "rtsol_timer_update (ifi2\<lparr>if_state := up_state fl\<rparr>) s3 = (ifi3, s4)"
      and s1: "s1 = s4\<lparr>iflist := ifi3 # iflist s4\<rparr>"
      using up unfolding ifconfig_up_def st prod.case Let_def ifi2_def [symmetric]
      by (auto simp: bind_r_Inr_iff split: prod.splits) (metis surj_pair)
    have "iflist s3 = iflist s2" using interface_up_ok [of s2 "ifi_name ifi2"] u by (simp add: same_env_def)
    then have "iflist s4 = iflist s" "rs_sent s4 = rs_sent s" "rs_key ifi3 = rs_key ifi"
      using timer_update_sent [OF t] interface_up_sent [OF u] e k2 by (simp_all add: rs_key_def same_env_def)
    moreover from this have "rs_make_packet ifi3 = Inr ifi3" using own_packet_key own_packet_made [OF m] by blast
    ultimately show ?thesis using assms(1) by (auto simp: owned_def s1)
  qed
  then show ?thesis using assms unfolding ifconfig_def by (auto simp: res_simps split: option.splits if_splits)
qed

lemma rtsold_init_owned:
  assumes "owned X s" "rtsold_init argv s = Inr s0"
  shows "owned X s0"
proof -
  let ?f = "\<lambda>name s. bind_r (ifconfig name s) (\<lambda>(ok, s1). if ok then Inr s1 else Inl (Exit 1))"
  from assms(1) have "safe_r (owned X) UNIV (fold_r ?f argv s)"
    by (rule fold_r_safe [rotated]) (auto simp: safe_r_UNIV res_simps dest: ifconfig_owned split: if_splits)
  then show ?thesis using assms(2) by (simp add: rtsold_init_def safe_r_UNIV split: if_splits)
qed

text \<open>
  C13. In every state the solicitation daemon reaches from its configuration
  the interfaces are distinct and each is in a legal state, whatever the kernel answers and
  whatever packets arrive: its solicitation counter stays within three and is zero outside the
  probing state, and the packet it holds is the one \<open>rs_make_packet\<close> builds for its
  link-layer address. Every solicitation the daemon has sent is the packet of one of its
  interfaces, sent on that interface.
\<close>

theorem rtsold_invariant:
  assumes "rs_env s" "iflist s = []" "rtsold_init argv s = Inr s0" "(rtsold_step once)\<^sup>*\<^sup>* s0 s1"
  shows "rs_inv s1 \<and> (\<forall>ifi \<in> set (iflist s1). rs_make_packet ifi = Inr ifi) \<and>
    (\<forall>p \<in> set (rs_sent s1). p \<in> set (rs_sent s) \<or>
       (\<exists>ifi \<in> set (iflist s1). p = (sdl_index (ifi_sdl ifi), take (rs_datalen ifi) (rs_data ifi))))"
proof -
  have "owned (set (rs_sent s)) s" using assms(2) by (simp add: owned_def)
  then have "rs_inv s0 \<and> owned (set (rs_sent s)) s0" using rtsold_init_inv rtsold_init_owned assms(1-3) by blast
  with assms(4) have "rs_inv s1 \<and> owned (set (rs_sent s)) s1"
  proof (induction rule: rtranclp_induct)
    case (step s1 s2)
    then have i: "rs_inv s1" "owned (set (rs_sent s)) s1" by simp_all
    from step(2) show ?case
    proof cases
      case (pass rtsock sock go)
      with rtsol_check_timer_ok [OF i(1)] check_timer_owned [OF i(2)] rtsol_input_inv rtsol_input_owned show ?thesis
        by (auto simp: rtsold_pass_def res_simps safe_r_def Let_def split: if_splits option.splits)
    qed
  qed
  then show ?thesis by (auto simp: owned_def packet_of_def)
qed


section \<open>The limit on solicitations\<close>

text \<open>The timer of an interface expires \<open>n\<close> times without an answer.\<close>

fun expiries :: "nat \<Rightarrow> ifinfo \<Rightarrow> rtsold \<Rightarrow> (ifinfo \<times> rtsold) result" where
  "expiries 0 ifi s = Inr (ifi, s)"
| "expiries (Suc n) ifi s =
     bind_r (check_expired ifi s) (\<lambda>(ifi1, s1). let (ifi2, s2) = rtsol_timer_update ifi1 s1 in expiries n ifi2 s2)"

lemma expired_send:
  assumes "if_state ifi = IFS_DELAY \<or> if_state ifi = IFS_PROBE" "probes ifi < MAX_RTR_SOLICITATIONS"
  shows "\<exists>ifi' s'. bind_r (check_expired ifi s) (\<lambda>(ifi1, s1). Inr (rtsol_timer_update ifi1 s1)) = Inr (ifi', s') \<and>
    if_state ifi' = IFS_PROBE \<and> probes ifi' = probes ifi + 1 \<and> same_link ifi ifi' \<and>
    rs_sent s' = rs_sent s @ [(sdl_index (ifi_sdl ifi), take (rs_datalen ifi) (rs_data ifi))]"
  using assms
  by (auto simp: check_expired_def sendpacket_def rtsol_timer_update_def timer_switch_def TIMEVAL_EQUAL_def tm_max_def
      rtsold_defs Let_def)

lemma expired_idle:
  assumes "if_state ifi = IFS_PROBE" "\<not> probes ifi < MAX_RTR_SOLICITATIONS"
  shows "\<exists>ifi' s'. bind_r (check_expired ifi s) (\<lambda>(ifi1, s1). Inr (rtsol_timer_update ifi1 s1)) = Inr (ifi', s') \<and>
    if_state ifi' = IFS_IDLE \<and> probes ifi' = 0 \<and> same_link ifi ifi' \<and> rs_sent s' = rs_sent s"
  using assms
  by (auto simp: check_expired_def rtsol_timer_update_def timer_switch_def TIMEVAL_EQUAL_def tm_max_def rtsold_defs Let_def)

lemma expiries_bind:
  "expiries (Suc n) ifi s = bind_r (bind_r (check_expired ifi s) (\<lambda>(ifi1, s1). Inr (rtsol_timer_update ifi1 s1)))
    (\<lambda>(ifi2, s2). expiries n ifi2 s2)"
  by (cases "check_expired ifi s") (auto split: prod.splits)

lemma expiries_limit:
  assumes "if_state ifi = IFS_DELAY \<and> 0 < n \<or> if_state ifi = IFS_PROBE" "probes ifi = MAX_RTR_SOLICITATIONS - int n"
  shows "\<exists>ifi' s'. expiries (Suc n) ifi s = Inr (ifi', s') \<and> if_state ifi' = IFS_IDLE \<and> probes ifi' = 0 \<and>
    rs_sent s' = rs_sent s @ replicate n (sdl_index (ifi_sdl ifi), take (rs_datalen ifi) (rs_data ifi))"
  using assms
proof (induction n arbitrary: ifi s)
  case 0
  with expired_idle [of ifi s] show ?case unfolding expiries_bind by fastforce
next
  case (Suc n)
  then obtain ifi1 s1 where
    1: "bind_r (check_expired ifi s) (\<lambda>(ifi1, s1). Inr (rtsol_timer_update ifi1 s1)) = Inr (ifi1, s1)"
      "if_state ifi1 = IFS_PROBE" "probes ifi1 = probes ifi + 1" "same_link ifi ifi1"
      "rs_sent s1 = rs_sent s @ [(sdl_index (ifi_sdl ifi), take (rs_datalen ifi) (rs_data ifi))]"
    using expired_send [of ifi s] by auto
  with Suc.IH [of ifi1 s1] Suc.prems(2) show ?case
    unfolding expiries_bind [of "Suc n"] 1(1) by (simp add: same_link_def)
qed

text \<open>
  C10. An interface that gets no answer sends exactly three solicitations,
  each the packet built at configuration, and then gives up: after four expirations of its
  timer it is idle.
\<close>

theorem solicitation_limit:
  assumes "if_state ifi = IFS_DELAY" "probes ifi = 0"
  shows "\<exists>ifi' s'. expiries 4 ifi s = Inr (ifi', s') \<and> if_state ifi' = IFS_IDLE \<and> probes ifi' = 0 \<and>
    rs_sent s' = rs_sent s @ replicate 3 (sdl_index (ifi_sdl ifi), take (rs_datalen ifi) (rs_data ifi))"
  using expiries_limit [of ifi 3 s] assms by (simp add: eval_nat_numeral)

text \<open>A host with one Ethernet interface.\<close>

definition ex_host_if :: ifinfo where
  "ex_host_if = \<lparr>ifi_sdl = \<lparr>sdl_index = 7, sdl_type = IFT_ETHER, sdl_lladdr = [2, 0, 0, 0, 0, 9]\<rparr>, ifi_name = ''en1'',
     active = 1, probeinterval = 0, probetimer = 0, mediareqok = True, if_state = IFS_DELAY, probes = 0, dadcount = 0,
     ifi_timer = Timeval 0 500, ifi_expire = Timeval 100 500, racnt = 0, rs_datalen = 16,
     rs_data = [133, 0, 0, 0, 0, 0, 0, 0, 1, 1, 2, 0, 0, 0, 0, 9]\<rparr>"

definition ex_host :: rtsold where
  "ex_host = \<lparr>rs_clock = (\<lambda>n. Timeval (100 + int n) 0), rs_clock_reads = 0, rs_random = (\<lambda>n. 77 + int n), rs_random_calls = 0,
     ifr_flags = (\<lambda>_. Some 0x41), ifr_calls = 0, ifmedia = (\<lambda>_. Media_einval), ifmedia_calls = 0,
     ll_ifaddrs = (\<lambda>_. Some []), ll_calls = 0, ifr_flags6 = (\<lambda>_. Some 0), ifr6_calls = 0,
     drlist = (\<lambda>_. Some (replicate 10 (ex_addr 1, 0))), drlist_calls = 0, rs_iflist_sysctl = None,
     mobile_node = False, iflist = [ex_host_if], rs_sent = [], rs_probed = [], rs_upped = []\<rparr>"

lemma ex_host_inv: "rs_inv ex_host"
  by (simp add: rs_inv_def ex_host_def ex_host_if_def ifi_ok_def tv_time_def tv_ok_def)

theorem solicitation_limit_witness:
  "\<exists>ifi' s'. expiries 4 ex_host_if ex_host = Inr (ifi', s') \<and> if_state ifi' = IFS_IDLE \<and>
    rs_sent s' = replicate 3 (7, [133, 0, 0, 0, 0, 0, 0, 0, 1, 1, 2, 0, 0, 0, 0, 9])"
proof -
  have "if_state ex_host_if = IFS_DELAY" "probes ex_host_if = 0" "sdl_index (ifi_sdl ex_host_if) = 7" "rs_sent ex_host = []"
    "take (rs_datalen ex_host_if) (rs_data ex_host_if) = [133, 0, 0, 0, 0, 0, 0, 0, 1, 1, 2, 0, 0, 0, 0, 9]"
    by (simp_all add: ex_host_if_def ex_host_def)
  with solicitation_limit [of ex_host_if ex_host] show ?thesis by auto
qed

theorem rtsol_wait_sound_witness: "\<exists>r s'. rtsol_check_timer ex_host = Inr (r, s') \<and> rs_inv s'"
proof -
  have "\<not> isl (rtsol_check_timer ex_host)" by code_simp
  then obtain r s' where "rtsol_check_timer ex_host = Inr (r, s')" by (cases "rtsol_check_timer ex_host") auto
  with rtsol_wait_sound [OF ex_host_inv refl] show ?thesis by simp
qed

theorem rtsold_invariant_witness:
  "\<exists>s0. rtsold_init [''en0''] (ex_host\<lparr>iflist := [], rs_iflist_sysctl := Some ex_ifmsg\<rparr>) = Inr s0 \<and> rs_inv s0"
proof -
  let ?s = "ex_host\<lparr>iflist := [], rs_iflist_sysctl := Some ex_ifmsg\<rparr>"
  have "\<not> isl (rtsold_init [''en0''] ?s)" by code_simp
  then obtain s0 where s0: "rtsold_init [''en0''] ?s = Inr s0" by (cases "rtsold_init [''en0''] ?s") auto
  have "rs_env ?s" using ex_host_inv by (simp add: rs_inv_env rs_env_def)
  from rtsold_invariant [OF this _ s0 rtranclp.rtrancl_refl] s0 show ?thesis by simp
qed

section \<open>The exchange with the router\<close>

text \<open>What arrives with a packet: the interface and the hop limit in the control messages.\<close>

definition delivered :: "byte list \<Rightarrow> in6_addr \<Rightarrow> int \<Rightarrow> recvd" where
  "delivered b from idx = \<lparr>rcv_data = b, rcv_from = from, rcv_cmsgs = [Pktinfo idx in6addr_any, Hoplimit 255]\<rparr>"

lemma rs_packet_options:
  assumes "rs_make_packet ifi = Inr ifi'" "sdl_type (ifi_sdl ifi) = IFT_ETHER"
  shows "\<exists>nd. nd6_options (drop 8 (rs_data ifi')) NDOPT_FLAG_SRCLINKADDR = Some nd \<and>
    nd_opts_src_lladdr nd = Some ([1, 1] @ take 6 (sdl_lladdr (ifi_sdl ifi))) \<and>
    length (rs_data ifi') = 16 \<and> rs_data ifi' ! 0 = ND_ROUTER_SOLICIT \<and> rs_data ifi' ! 1 = 0"
proof -
  define opt :: "byte list" where "opt = [1, 1] @ take 6 (sdl_lladdr (ifi_sdl ifi))"
  have len: "6 \<le> length (sdl_lladdr (ifi_sdl ifi))" and d: "rs_data ifi' = [ND_ROUTER_SOLICIT, 0, 0, 0, 0, 0, 0, 0] @ opt"
    using assms by (auto simp: rs_make_packet_def lladdropt_length_def lladdropt_fill_def ROUNDUP8_def Let_def opt_def
        split: if_splits)
  have "opts.msg_ok opt" using len by (simp add: opts.msg_ok_def opt_len_def opt_def)
  with nd6_options_concat [of "[opt]"] show ?thesis
    using len by (simp add: d nd6_option_def opt_def Let_def ndopt_flags_def)
qed

text \<open>
  C11. The solicitation \<open>rtsold\<close> builds for an Ethernet interface is one
  \<open>rtadvd\<close> answers: delivered on an advertising interface that is up, it is recorded, and an
  advertisement is scheduled within three and a half seconds.
\<close>

theorem solicitation_heard:
  assumes "rs_make_packet ifi = Inr ifi'" "sdl_type (ifi_sdl ifi) = IFT_ETHER"
    "dinv s" "clock_ok s" "if_indextorainfo idx s = Some rai" "idx \<noteq> 0" "if_up idx (ifilist s)"
    "rai_timer rai = Some p" "waiting rai = 0" "usecs (lastsent rai) \<le> usecs (gtod s (gtod_calls s))"
    "\<not> IN6_IS_ADDR_UNSPECIFIED from"
  shows "\<exists>s' rai' t. rtadvd_input (Some (delivered (rs_data ifi') from idx)) s = Inr s' \<and>
    rai_at (rai_id rai) s' = Some rai' \<and> soliciter rai' = from # soliciter rai \<and>
    timer_at p s' = Some t \<and> usecs (tm t) < usecs (gtod s (gtod_calls s + 2)) + 3500000"
proof -
  obtain nd where nd: "nd6_options (drop 8 (rs_data ifi')) NDOPT_FLAG_SRCLINKADDR = Some nd"
    and rs: "length (rs_data ifi') = 16" "rs_data ifi' ! 0 = ND_ROUTER_SOLICIT" "rs_data ifi' ! 1 = 0"
    using rs_packet_options [OF assms(1,2)] by blast
  obtain ifm where ifm: "get_interface_entry idx s = Some ifm" "ifm_flags ifm AND IFF_UP \<noteq> 0"
    using assms(7) by (auto simp: if_up_def get_interface_entry_def)
  have "rtadvd_input (Some (delivered (rs_data ifi') from idx)) s = rs_input (rs_data ifi') idx from s"
    using assms(6) ifm rs by (simp add: rtadvd_input_def delivered_def icmp6_switch_def)
  then show ?thesis
    using rs_input_schedules [OF assms(3,4) nd _ assms(5,8,9,10)] assms(11) by fastforce
qed

text \<open>
  C12. The advertisement \<open>rtadvd\<close> builds for any well-formed interface is one
  \<open>rtsold\<close> accepts: delivered from a link-local address on a probing interface, it ends the
  probing and stops the timer.
\<close>

theorem advertisement_heard:
  assumes "rainfo_wf rai" "make_packet rai r = Inr (rai', r')" "ra_data rai' = Some b"
    "rs_inv s" "find_ifinfo idx s = Some ifi" "if_state ifi = IFS_PROBE" "idx \<noteq> 0" "IN6_IS_ADDR_LINKLOCAL from"
    "\<not> mobile_node s"
  shows "\<exists>ifi'. find_ifinfo idx (rtsol_input (Some (delivered b from idx)) s) = Some ifi' \<and>
    if_state ifi' = IFS_IDLE \<and> probes ifi' = 0 \<and> racnt ifi' = racnt ifi + 1 \<and> ifi_expire ifi' = tm_max"
proof -
  obtain os where b: "b = ra_header (settled rai) @ os"
    using make_packet_ok [OF assms(1), of r] assms(2,3) by auto
  then have ra: "16 \<le> length b" "b ! 0 = ND_ROUTER_ADVERT" "b ! 1 = 0"
    by (simp_all add: ra_header_def be16_def be32_def)
  have m: "ifi \<in> set (iflist s)" "sdl_index (ifi_sdl ifi) = idx" using assms(5) by (auto simp: find_ifinfo_def find_Some_iff)
  obtain ifi' s1 where r: "ra_received ifi s = (ifi', s1)" by fastforce
  have ok: "ifi_ok ifi" "rs_env s" using assms(4) m(1) by (simp_all add: rs_inv_env)
  note ra_received_ok [OF ok r]
  moreover have "rtsol_input (Some (delivered b from idx)) s = s1\<lparr>iflist := set_ifinfo idx ifi' (iflist s1)\<rparr>"
    using ra assms(5,7,8) r by (simp add: rtsol_input_def delivered_def)
  ultimately show ?thesis
    using assms(5,6,9) m(2) find_set_ifinfo [of idx "iflist s" ifi ifi'] by (simp add: find_ifinfo_def same_env_def)
qed


theorem solicitation_heard_witness:
  "\<exists>s' t. rtadvd_input (Some (delivered (rs_data ex_host_if) (ex_addr 3) 4)) ex_state = Inr s' \<and>
    timer_at 0 s' = Some t \<and> usecs (tm t) < 105500000"
proof -
  have mk: "rs_make_packet ex_host_if = Inr ex_host_if"
    by (simp add: rs_make_packet_def ex_host_if_def lladdropt_length_def lladdropt_fill_def ROUNDUP8_def)
  have "sdl_type (ifi_sdl ex_host_if) = IFT_ETHER" "if_indextorainfo 4 ex_state = Some ex_rai" "if_up 4 (ifilist ex_state)"
    "rai_timer ex_rai = Some 0" "waiting ex_rai = 0" "lastsent ex_rai = Timeval 99 0"
    by (simp_all add: ex_host_if_def if_indextorainfo_def if_up_def ex_state_def ex_rai_def)
  moreover have "\<not> IN6_IS_ADDR_UNSPECIFIED (ex_addr 3)" by code_simp
  ultimately show ?thesis
    using solicitation_heard [OF mk _ ex_dinv ex_clock, of 4 ex_rai 0 "ex_addr 3"] by (auto simp: ex_state_def usecs_def)
qed

definition ex_linklocal :: in6_addr where
  "ex_linklocal = [0xfe, 0x80] @ replicate 13 0 @ [1]"

theorem advertisement_heard_witness:
  "\<exists>b ifi'. find_ifinfo 7 (rtsol_input (Some (delivered b ex_linklocal 7))
       (ex_host\<lparr>iflist := [ex_host_if\<lparr>if_state := IFS_PROBE, probes := 2\<rparr>]\<rparr>)) = Some ifi' \<and>
    if_state ifi' = IFS_IDLE \<and> racnt ifi' = 1"
proof -
  let ?ifi = "ex_host_if\<lparr>if_state := IFS_PROBE, probes := 2\<rparr>"
  let ?s = "ex_host\<lparr>iflist := [?ifi]\<rparr>"
  obtain rai' s' b where mp: "make_packet ex_rai ex_state = Inr (rai', s')" "ra_data rai' = Some b"
    using make_packet_data [OF ex_rai_wf, of ex_state] by fastforce
  have "rs_inv ?s" by (simp add: rs_inv_def ex_host_def ex_host_if_def ifi_ok_def tv_time_def tv_ok_def)
  moreover have "find_ifinfo 7 ?s = Some ?ifi" "\<not> mobile_node ?s" "racnt ?ifi = 0"
    by (simp_all add: find_ifinfo_def ex_host_if_def ex_host_def)
  moreover have "IN6_IS_ADDR_LINKLOCAL ex_linklocal" by code_simp
  ultimately show ?thesis
    using advertisement_heard [OF ex_rai_wf mp, of ?s 7 ?ifi ex_linklocal] by auto
qed

section \<open>Probing the default routers\<close>

lemma probe_routers_eq:
  "i + length drs = DRLSTSIZ \<Longrightarrow> idx \<noteq> 0 \<Longrightarrow> probe_routers idx i drs =
     (if list_all (\<lambda>(a, k). k \<noteq> 0) drs then Inl OutOfBounds
      else Inr (map (\<lambda>(a, k). (a, int k)) (filter (\<lambda>(a, k). int k = idx \<and> IN6_IS_ADDR_LINKLOCAL a)
        (takeWhile (\<lambda>(a, k). k \<noteq> 0) drs))))"
  by (induction idx i drs rule: probe_routers.induct) auto

text \<open>
  C14. \<open>defrouter_probe\<close> probes exactly the link-local default routers of the
  interface, up to the first free place of the kernel's list; when the list has no free
  place, it reads behind its end before it compares the index with the size.
\<close>

theorem defrouter_probe_spec:
  assumes "drlist s (drlist_calls s) = Some drs" "length drs = DRLSTSIZ" "idx \<noteq> 0"
  shows "defrouter_probe idx s =
    (if list_all (\<lambda>(a, k). k \<noteq> 0) drs then Inl OutOfBounds
     else Inr (s\<lparr>drlist_calls := Suc (drlist_calls s),
       rs_probed := rs_probed s @ map (\<lambda>(a, k). (a, int k)) (filter (\<lambda>(a, k). int k = idx \<and> IN6_IS_ADDR_LINKLOCAL a)
         (takeWhile (\<lambda>(a, k). k \<noteq> 0) drs))\<rparr>))"
  using assms probe_routers_eq [of 0 drs idx] by (simp add: defrouter_probe_def Let_def)

theorem defrouter_probe_spec_witness:
  "defrouter_probe 7 (ex_host\<lparr>drlist := \<lambda>_. Some (replicate 10 (ex_linklocal, 7))\<rparr>) = Inl OutOfBounds"
  using defrouter_probe_spec [of "ex_host\<lparr>drlist := \<lambda>_. Some (replicate 10 (ex_linklocal, 7))\<rparr>" "replicate 10 (ex_linklocal, 7)" 7]
  by (simp add: list_all_iff)

end
