(* ===== verification/Bpf.thy ===== *)
theory Bpf
  imports Prelude
begin

text \<open>
  The Berkeley packet filter (\<open>src/bsd/net/bpf_filter.c\<close>, \<open>src/bsd/net/bpf.h\<close>), as the kernel
  builds it: the machine \<open>bpf_filter\<close> that runs a filter program over a packet, and
  \<open>bpf_validate\<close>, the check a program passes before it is installed.

  The packet is a contiguous buffer when \<open>buflen\<close> is not zero. Otherwise it is a
  \<open>bpf_packet\<close>: an optional header followed by a chain of mbufs, each given by the bytes it
  holds, or by the buflets of a Skywalk packet, each given by its length and, when its
  address is not null, its bytes. Loads are big-endian, as \<open>EXTRACT_LONG\<close>, \<open>EXTRACT_SHORT\<close> and
  \<open>ntohl\<close> make them. The program counter is the index of the instruction; a fetch behind
  the last instruction is out of bounds.
\<close>

section \<open>Instructions (bpf.h)\<close>

record bpf_insn =
  bi_code :: u16
  bi_jt :: byte
  bi_jf :: byte
  bi_k :: u32

abbreviation (input) BPF_LD :: u16 where "BPF_LD \<equiv> 0x00"
abbreviation (input) BPF_LDX :: u16 where "BPF_LDX \<equiv> 0x01"
abbreviation (input) BPF_ST :: u16 where "BPF_ST \<equiv> 0x02"
abbreviation (input) BPF_STX :: u16 where "BPF_STX \<equiv> 0x03"
abbreviation (input) BPF_ALU :: u16 where "BPF_ALU \<equiv> 0x04"
abbreviation (input) BPF_JMP :: u16 where "BPF_JMP \<equiv> 0x05"
abbreviation (input) BPF_RET :: u16 where "BPF_RET \<equiv> 0x06"
abbreviation (input) BPF_MISC :: u16 where "BPF_MISC \<equiv> 0x07"
abbreviation (input) BPF_W :: u16 where "BPF_W \<equiv> 0x00"
abbreviation (input) BPF_H :: u16 where "BPF_H \<equiv> 0x08"
abbreviation (input) BPF_B :: u16 where "BPF_B \<equiv> 0x10"
abbreviation (input) BPF_IMM :: u16 where "BPF_IMM \<equiv> 0x00"
abbreviation (input) BPF_ABS :: u16 where "BPF_ABS \<equiv> 0x20"
abbreviation (input) BPF_IND :: u16 where "BPF_IND \<equiv> 0x40"
abbreviation (input) BPF_MEM :: u16 where "BPF_MEM \<equiv> 0x60"
abbreviation (input) BPF_LEN :: u16 where "BPF_LEN \<equiv> 0x80"
abbreviation (input) BPF_MSH :: u16 where "BPF_MSH \<equiv> 0xa0"
abbreviation (input) BPF_ADD :: u16 where "BPF_ADD \<equiv> 0x00"
abbreviation (input) BPF_SUB :: u16 where "BPF_SUB \<equiv> 0x10"
abbreviation (input) BPF_MUL :: u16 where "BPF_MUL \<equiv> 0x20"
abbreviation (input) BPF_DIV :: u16 where "BPF_DIV \<equiv> 0x30"
abbreviation (input) BPF_OR :: u16 where "BPF_OR \<equiv> 0x40"
abbreviation (input) BPF_AND :: u16 where "BPF_AND \<equiv> 0x50"
abbreviation (input) BPF_LSH :: u16 where "BPF_LSH \<equiv> 0x60"
abbreviation (input) BPF_RSH :: u16 where "BPF_RSH \<equiv> 0x70"
abbreviation (input) BPF_NEG :: u16 where "BPF_NEG \<equiv> 0x80"
abbreviation (input) BPF_JA :: u16 where "BPF_JA \<equiv> 0x00"
abbreviation (input) BPF_JEQ :: u16 where "BPF_JEQ \<equiv> 0x10"
abbreviation (input) BPF_JGT :: u16 where "BPF_JGT \<equiv> 0x20"
abbreviation (input) BPF_JGE :: u16 where "BPF_JGE \<equiv> 0x30"
abbreviation (input) BPF_JSET :: u16 where "BPF_JSET \<equiv> 0x40"
abbreviation (input) BPF_K :: u16 where "BPF_K \<equiv> 0x00"
abbreviation (input) BPF_X :: u16 where "BPF_X \<equiv> 0x08"
abbreviation (input) BPF_A :: u16 where "BPF_A \<equiv> 0x10"
abbreviation (input) BPF_TAX :: u16 where "BPF_TAX \<equiv> 0x00"
abbreviation (input) BPF_TXA :: u16 where "BPF_TXA \<equiv> 0x80"

abbreviation (input) BPF_MEMWORDS :: u32 where "BPF_MEMWORDS \<equiv> 16"
abbreviation (input) BPF_MAXINSNS :: nat where "BPF_MAXINSNS \<equiv> 512"

definition BPF_CLASS :: "u16 \<Rightarrow> u16" where "BPF_CLASS code = code AND 0x07"
definition BPF_MODE :: "u16 \<Rightarrow> u16" where "BPF_MODE code = code AND 0xe0"
definition BPF_OP :: "u16 \<Rightarrow> u16" where "BPF_OP code = code AND 0xf0"
definition BPF_SRC :: "u16 \<Rightarrow> u16" where "BPF_SRC code = code AND 0x08"

definition BPF_STMT :: "u16 \<Rightarrow> u32 \<Rightarrow> bpf_insn" where
  "BPF_STMT code k = \<lparr>bi_code = code, bi_jt = 0, bi_jf = 0, bi_k = k\<rparr>"

definition BPF_JUMP :: "u16 \<Rightarrow> u32 \<Rightarrow> byte \<Rightarrow> byte \<Rightarrow> bpf_insn" where
  "BPF_JUMP code k jt jf = \<lparr>bi_code = code, bi_jt = jt, bi_jf = jf, bi_k = k\<rparr>"

section \<open>Loads from a packet in pieces\<close>

text \<open>A pointer is null or the bytes from where it points to the end of its object.\<close>

definition deref :: "byte list option \<Rightarrow> nat \<Rightarrow> nat \<Rightarrow> byte list result" where
  "deref p i n = (case p of None \<Rightarrow> Inl NullDeref | Some b \<Rightarrow> bytes_at b i n)"

definition get_word_from_buffers :: "byte list option \<Rightarrow> byte list option \<Rightarrow> nat \<Rightarrow> u32 result" where
  "get_word_from_buffers cp np num_from_cp =
     (if num_from_cp = 1 then
        bind_r (deref cp 0 1) (\<lambda>a. bind_r (deref np 0 3) (\<lambda>b. Inr (rd32 (a @ b))))
      else if num_from_cp = 2 then
        bind_r (deref cp 0 2) (\<lambda>a. bind_r (deref np 0 2) (\<lambda>b. Inr (rd32 (a @ b))))
      else
        bind_r (deref cp 0 3) (\<lambda>a. bind_r (deref np 0 1) (\<lambda>b. Inr (rd32 (a @ b)))))"

text \<open>
  The walk of \<open>m_hdr_offset\<close> along the chain and the result of the function: the bytes from
  \<open>cp\<close> to the end of its buffer, the next mbuf, the offset in the buffer and its length.
\<close>

fun m_walk :: "byte list list \<Rightarrow> nat \<Rightarrow> (byte list \<times> byte list list \<times> nat \<times> nat) option result" where
  "m_walk [] k = Inl NullDeref"
| "m_walk (m # ms) k =
     (if k \<ge> length m then (if ms = [] then Inr None else m_walk ms (k - length m))
      else Inr (Some (drop k m, ms, k, length m)))"

definition m_hdr_offset ::
    "byte list list \<Rightarrow> byte list \<Rightarrow> nat \<Rightarrow> (byte list \<times> byte list list \<times> nat \<times> nat) option result" where
  "m_hdr_offset m hdr k =
     (if k \<ge> length hdr then m_walk m (k - length hdr)
      else Inr (Some (drop k hdr, m, k, length hdr)))"

text \<open>\<open>None\<close> is an error (\<open>*err = 1\<close>).\<close>

definition m_xword :: "byte list list \<Rightarrow> byte list \<Rightarrow> nat \<Rightarrow> u32 option result" where
  "m_xword m hdr k =
     bind_r (m_hdr_offset m hdr k) (\<lambda>r.
     case r of
       None \<Rightarrow> Inr None
     | Some (cp, m', k', len) \<Rightarrow>
         if len - k' \<ge> 4 then bind_r (bytes_at cp 0 4) (\<lambda>b. Inr (Some (rd32 b)))
         else case m' of
                [] \<Rightarrow> Inr None
              | np # _ \<Rightarrow>
                  if length np + len - k' < 4 then Inr None
                  else bind_r (get_word_from_buffers (Some cp) (Some np) (len - k')) (\<lambda>v. Inr (Some v)))"

definition m_xhalf :: "byte list list \<Rightarrow> byte list \<Rightarrow> nat \<Rightarrow> u16 option result" where
  "m_xhalf m hdr k =
     bind_r (m_hdr_offset m hdr k) (\<lambda>r.
     case r of
       None \<Rightarrow> Inr None
     | Some (cp, m', k', len) \<Rightarrow>
         if len - k' \<ge> 2 then bind_r (bytes_at cp 0 2) (\<lambda>b. Inr (Some (rd16 b)))
         else case m' of
                [] \<Rightarrow> Inr None
              | np # _ \<Rightarrow>
                  bind_r (bytes_at cp 0 1) (\<lambda>a. bind_r (bytes_at np 0 1) (\<lambda>b. Inr (Some (rd16 (a @ b))))))"

definition m_xbyte :: "byte list list \<Rightarrow> byte list \<Rightarrow> nat \<Rightarrow> byte option result" where
  "m_xbyte m hdr k =
     bind_r (m_hdr_offset m hdr k) (\<lambda>r.
     case r of
       None \<Rightarrow> Inr None
     | Some (cp, m', k', len) \<Rightarrow> bind_r (ld8 cp 0) (\<lambda>b. Inr (Some b)))"

text \<open>
  A buflet: its data length and, unless its address is null, its bytes. A null address plus
  an offset that is not zero passes the test for null.
\<close>

datatype buflet = Buflet (bl_len: nat) (bl_data: "byte list option")

fun p_walk :: "buflet list \<Rightarrow> nat \<Rightarrow> (buflet \<times> buflet list \<times> nat) option" where
  "p_walk [] k = None"
| "p_walk (b # bs) k = (if k < bl_len b then Some (b, bs, k) else p_walk bs (k - bl_len b))"

text \<open>The bytes from \<open>cp\<close> on, the buflets behind, the offset and the length.\<close>

definition p_hdr_offset ::
    "buflet list \<Rightarrow> byte list \<Rightarrow> nat \<Rightarrow> (byte list option \<times> buflet list \<times> nat \<times> nat) option" where
  "p_hdr_offset p hdr k =
     (if k \<ge> length hdr then
        case p_walk p (k - length hdr) of
          None \<Rightarrow> None
        | Some (b, bs, k') \<Rightarrow>
            if bl_data b = None \<and> k' = 0 then None
            else Some (map_option (drop k') (bl_data b), bs, k', bl_len b)
      else Some (Some (drop k hdr), p, k, length hdr))"

definition p_xword :: "buflet list \<Rightarrow> byte list \<Rightarrow> nat \<Rightarrow> u32 option result" where
  "p_xword p hdr k =
     (case p_hdr_offset p hdr k of
        None \<Rightarrow> Inr None
      | Some (cp, bs, k', len) \<Rightarrow>
          if len - k' \<ge> 4 then bind_r (deref cp 0 4) (\<lambda>b. Inr (Some (rd32 b)))
          else case bs of
                 [] \<Rightarrow> Inr None
               | np # _ \<Rightarrow>
                   if bl_len np + len - k' < 4 then Inr None
                   else bind_r (get_word_from_buffers cp (bl_data np) (len - k')) (\<lambda>v. Inr (Some v)))"

definition p_xhalf :: "buflet list \<Rightarrow> byte list \<Rightarrow> nat \<Rightarrow> u16 option result" where
  "p_xhalf p hdr k =
     (case p_hdr_offset p hdr k of
        None \<Rightarrow> Inr None
      | Some (cp, bs, k', len) \<Rightarrow>
          if len - k' \<ge> 2 then bind_r (deref cp 0 2) (\<lambda>b. Inr (Some (rd16 b)))
          else case bs of
                 [] \<Rightarrow> Inr None
               | np # _ \<Rightarrow>
                   if bl_len np = 0 then Inr None
                   else bind_r (deref cp 0 1) (\<lambda>a.
                        bind_r (deref (bl_data np) 0 1) (\<lambda>b. Inr (Some (rd16 (a @ b))))))"

definition p_xbyte :: "buflet list \<Rightarrow> byte list \<Rightarrow> nat \<Rightarrow> byte option result" where
  "p_xbyte p hdr k =
     (case p_hdr_offset p hdr k of
        None \<Rightarrow> Inr None
      | Some (cp, bs, k', len) \<Rightarrow> bind_r (deref cp 0 1) (\<lambda>b. Inr (Some (b ! 0))))"

text \<open>The packet \<open>struct bpf_packet\<close>, with its type and the member of the union.\<close>

datatype bpfp_u = BPF_PACKET_TYPE_MBUF "byte list list" | BPF_PACKET_TYPE_PKT "buflet list" | BPF_PACKET_TYPE_OTHER

record bpf_packet =
  bpfp_header :: "byte list"
  bpfp_u :: bpfp_u
  bpfp_total_length :: nat

definition bp_xword :: "bpf_packet \<Rightarrow> u32 \<Rightarrow> u32 option result" where
  "bp_xword bp k =
     (case bpfp_u bp of
        BPF_PACKET_TYPE_MBUF m \<Rightarrow> m_xword m (bpfp_header bp) (unat k)
      | BPF_PACKET_TYPE_PKT p \<Rightarrow> p_xword p (bpfp_header bp) (unat k)
      | BPF_PACKET_TYPE_OTHER \<Rightarrow> Inr None)"

definition bp_xhalf :: "bpf_packet \<Rightarrow> u32 \<Rightarrow> u16 option result" where
  "bp_xhalf bp k =
     (case bpfp_u bp of
        BPF_PACKET_TYPE_MBUF m \<Rightarrow> m_xhalf m (bpfp_header bp) (unat k)
      | BPF_PACKET_TYPE_PKT p \<Rightarrow> p_xhalf p (bpfp_header bp) (unat k)
      | BPF_PACKET_TYPE_OTHER \<Rightarrow> Inr None)"

definition bp_xbyte :: "bpf_packet \<Rightarrow> u32 \<Rightarrow> byte option result" where
  "bp_xbyte bp k =
     (case bpfp_u bp of
        BPF_PACKET_TYPE_MBUF m \<Rightarrow> m_xbyte m (bpfp_header bp) (unat k)
      | BPF_PACKET_TYPE_PKT p \<Rightarrow> p_xbyte p (bpfp_header bp) (unat k)
      | BPF_PACKET_TYPE_OTHER \<Rightarrow> Inr None)"

section \<open>The filter machine\<close>

record bpf_regs =
  reg_A :: u32
  reg_X :: u32
  reg_mem :: "u32 list"

text \<open>What an instruction does: return from the filter, or continue at a distance.\<close>

datatype bpf_out = Return u32 | Continue nat bpf_regs

text \<open>
  The loads of packet data, which the code repeats in each case: \<open>miss\<close> is the test that the
  data is not in the contiguous buffer. \<open>None\<close> rejects the packet.
\<close>

definition load_word :: "byte list \<Rightarrow> bpf_packet \<Rightarrow> u32 \<Rightarrow> bool \<Rightarrow> u32 \<Rightarrow> u32 option result" where
  "load_word p bp buflen miss k =
     (if miss then (if buflen \<noteq> 0 then Inr None else bp_xword bp k)
      else bind_r (bytes_at p (unat k) 4) (\<lambda>b. Inr (Some (rd32 b))))"

definition load_half :: "byte list \<Rightarrow> bpf_packet \<Rightarrow> u32 \<Rightarrow> bool \<Rightarrow> u32 \<Rightarrow> u32 option result" where
  "load_half p bp buflen miss k =
     bind_r (if miss then (if buflen \<noteq> 0 then Inr None else bp_xhalf bp k)
             else bind_r (bytes_at p (unat k) 2) (\<lambda>b. Inr (Some (rd16 b))))
       (\<lambda>v. Inr (map_option ucast v))"

definition load_byte :: "byte list \<Rightarrow> bpf_packet \<Rightarrow> u32 \<Rightarrow> bool \<Rightarrow> u32 \<Rightarrow> u32 option result" where
  "load_byte p bp buflen miss k =
     bind_r (if miss then (if buflen \<noteq> 0 then Inr None else bp_xbyte bp k)
             else bind_r (ld8 p (unat k)) (\<lambda>b. Inr (Some b)))
       (\<lambda>v. Inr (map_option ucast v))"

definition set_A :: "bpf_regs \<Rightarrow> u32 option \<Rightarrow> bpf_out" where
  "set_A r v = (case v of None \<Rightarrow> Return 0 | Some a \<Rightarrow> Continue 0 (r\<lparr>reg_A := a\<rparr>))"

definition set_X :: "bpf_regs \<Rightarrow> u32 option \<Rightarrow> bpf_out" where
  "set_X r v = (case v of None \<Rightarrow> Return 0 | Some x \<Rightarrow> Continue 0 (r\<lparr>reg_X := x\<rparr>))"

text \<open>\<open>mem[k]\<close> and \<open>mem[k] = v\<close> for the scratch memory.\<close>

definition mem_get :: "u32 list \<Rightarrow> u32 \<Rightarrow> u32 result" where
  "mem_get mem k = (if unat k < length mem then Inr (mem ! unat k) else Inl OutOfBounds)"

definition mem_set :: "u32 list \<Rightarrow> u32 \<Rightarrow> u32 \<Rightarrow> u32 list result" where
  "mem_set mem k v = (if unat k < length mem then Inr (mem[unat k := v]) else Inl OutOfBounds)"

text \<open>The cases of the switch, by instruction class; \<open>None\<close>: no case of this group.\<close>

definition bpf_ld :: "byte list \<Rightarrow> bpf_packet \<Rightarrow> u32 \<Rightarrow> u32 \<Rightarrow> bpf_insn \<Rightarrow> bpf_regs \<Rightarrow> bpf_out result option" where
  "bpf_ld p bp wirelen buflen pc r =
     (let c = bi_code pc; pk = bi_k pc; X = reg_X r; k = X + pk in
      if c = BPF_LD OR BPF_W OR BPF_ABS then
        Some (bind_r (load_word p bp buflen (pk > buflen \<or> 4 > buflen - pk) pk) (\<lambda>v. Inr (set_A r v)))
      else if c = BPF_LD OR BPF_H OR BPF_ABS then
        Some (bind_r (load_half p bp buflen (pk > buflen \<or> 2 > buflen - pk) pk) (\<lambda>v. Inr (set_A r v)))
      else if c = BPF_LD OR BPF_B OR BPF_ABS then
        Some (bind_r (load_byte p bp buflen (pk \<ge> buflen) pk) (\<lambda>v. Inr (set_A r v)))
      else if c = BPF_LD OR BPF_W OR BPF_LEN then Some (Inr (set_A r (Some wirelen)))
      else if c = BPF_LDX OR BPF_W OR BPF_LEN then Some (Inr (set_X r (Some wirelen)))
      else if c = BPF_LD OR BPF_W OR BPF_IND then
        Some (bind_r (load_word p bp buflen (pk > buflen \<or> X > buflen - pk \<or> 4 > buflen - k) k) (\<lambda>v. Inr (set_A r v)))
      else if c = BPF_LD OR BPF_H OR BPF_IND then
        Some (bind_r (load_half p bp buflen (X > buflen \<or> pk > buflen - X \<or> 2 > buflen - k) k) (\<lambda>v. Inr (set_A r v)))
      else if c = BPF_LD OR BPF_B OR BPF_IND then
        Some (bind_r (load_byte p bp buflen (pk \<ge> buflen \<or> X \<ge> buflen - pk) k) (\<lambda>v. Inr (set_A r v)))
      else if c = BPF_LDX OR BPF_MSH OR BPF_B then
        Some (bind_r (load_byte p bp buflen (pk \<ge> buflen) pk) (\<lambda>v. Inr (set_X r (map_option (\<lambda>x. push_bit 2 (x AND 0xf)) v))))
      else if c = BPF_LD OR BPF_IMM then Some (Inr (set_A r (Some pk)))
      else if c = BPF_LDX OR BPF_IMM then Some (Inr (set_X r (Some pk)))
      else if c = BPF_LD OR BPF_MEM then
        Some (if pk \<ge> BPF_MEMWORDS then Inr (Return 0)
              else bind_r (mem_get (reg_mem r) pk) (\<lambda>v. Inr (set_A r (Some v))))
      else if c = BPF_LDX OR BPF_MEM then
        Some (if pk \<ge> BPF_MEMWORDS then Inr (Return 0)
              else bind_r (mem_get (reg_mem r) pk) (\<lambda>v. Inr (set_X r (Some v))))
      else None)"

definition bpf_st :: "bpf_insn \<Rightarrow> bpf_regs \<Rightarrow> bpf_out result option" where
  "bpf_st pc r =
     (let c = bi_code pc; pk = bi_k pc in
      if c = BPF_ST then
        Some (if pk \<ge> BPF_MEMWORDS then Inr (Return 0)
              else bind_r (mem_set (reg_mem r) pk (reg_A r)) (\<lambda>m. Inr (Continue 0 (r\<lparr>reg_mem := m\<rparr>))))
      else if c = BPF_STX then
        Some (if pk \<ge> BPF_MEMWORDS then Inr (Return 0)
              else bind_r (mem_set (reg_mem r) pk (reg_X r)) (\<lambda>m. Inr (Continue 0 (r\<lparr>reg_mem := m\<rparr>))))
      else None)"

definition branch :: "bpf_insn \<Rightarrow> bool \<Rightarrow> bpf_regs \<Rightarrow> bpf_out result option" where
  "branch pc b r = Some (Inr (Continue (unat (if b then bi_jt pc else bi_jf pc)) r))"

definition bpf_jmp :: "bpf_insn \<Rightarrow> bpf_regs \<Rightarrow> bpf_out result option" where
  "bpf_jmp pc r =
     (let c = bi_code pc; k = bi_k pc; A = reg_A r; X = reg_X r in
      if c = BPF_JMP OR BPF_JA then Some (Inr (Continue (unat k) r))
      else if c = BPF_JMP OR BPF_JGT OR BPF_K then branch pc (A > k) r
      else if c = BPF_JMP OR BPF_JGE OR BPF_K then branch pc (A \<ge> k) r
      else if c = BPF_JMP OR BPF_JEQ OR BPF_K then branch pc (A = k) r
      else if c = BPF_JMP OR BPF_JSET OR BPF_K then branch pc (A AND k \<noteq> 0) r
      else if c = BPF_JMP OR BPF_JGT OR BPF_X then branch pc (A > X) r
      else if c = BPF_JMP OR BPF_JGE OR BPF_X then branch pc (A \<ge> X) r
      else if c = BPF_JMP OR BPF_JEQ OR BPF_X then branch pc (A = X) r
      else if c = BPF_JMP OR BPF_JSET OR BPF_X then branch pc (A AND X \<noteq> 0) r
      else None)"

text \<open>A shift by 32 or more is undefined in C.\<close>

definition shift :: "(nat \<Rightarrow> u32 \<Rightarrow> u32) \<Rightarrow> u32 \<Rightarrow> bpf_regs \<Rightarrow> bpf_out result option" where
  "shift f n r = Some (if n \<ge> 32 then Inl BadShift else Inr (set_A r (Some (f (unat n) (reg_A r)))))"

definition bpf_alu :: "bpf_insn \<Rightarrow> bpf_regs \<Rightarrow> bpf_out result option" where
  "bpf_alu pc r =
     (let c = bi_code pc; k = bi_k pc; A = reg_A r; X = reg_X r; ret = (\<lambda>v. Some (Inr (set_A r (Some v)))) in
      if c = BPF_ALU OR BPF_ADD OR BPF_X then ret (A + X)
      else if c = BPF_ALU OR BPF_SUB OR BPF_X then ret (A - X)
      else if c = BPF_ALU OR BPF_MUL OR BPF_X then ret (A * X)
      else if c = BPF_ALU OR BPF_DIV OR BPF_X then (if X = 0 then Some (Inr (Return 0)) else ret (A div X))
      else if c = BPF_ALU OR BPF_AND OR BPF_X then ret (A AND X)
      else if c = BPF_ALU OR BPF_OR OR BPF_X then ret (A OR X)
      else if c = BPF_ALU OR BPF_LSH OR BPF_X then shift push_bit X r
      else if c = BPF_ALU OR BPF_RSH OR BPF_X then shift drop_bit X r
      else if c = BPF_ALU OR BPF_ADD OR BPF_K then ret (A + k)
      else if c = BPF_ALU OR BPF_SUB OR BPF_K then ret (A - k)
      else if c = BPF_ALU OR BPF_MUL OR BPF_K then ret (A * k)
      else if c = BPF_ALU OR BPF_DIV OR BPF_K then (if k = 0 then Some (Inl DivByZero) else ret (A div k))
      else if c = BPF_ALU OR BPF_AND OR BPF_K then ret (A AND k)
      else if c = BPF_ALU OR BPF_OR OR BPF_K then ret (A OR k)
      else if c = BPF_ALU OR BPF_LSH OR BPF_K then shift push_bit k r
      else if c = BPF_ALU OR BPF_RSH OR BPF_K then shift drop_bit k r
      else if c = BPF_ALU OR BPF_NEG then ret (- A)
      else None)"

definition bpf_misc :: "bpf_insn \<Rightarrow> bpf_regs \<Rightarrow> bpf_out result option" where
  "bpf_misc pc r =
     (let c = bi_code pc in
      if c = BPF_RET OR BPF_K then Some (Inr (Return (bi_k pc)))
      else if c = BPF_RET OR BPF_A then Some (Inr (Return (reg_A r)))
      else if c = BPF_MISC OR BPF_TAX then Some (Inr (set_X r (Some (reg_A r))))
      else if c = BPF_MISC OR BPF_TXA then Some (Inr (set_A r (Some (reg_X r))))
      else None)"

text \<open>The switch; its default, an unknown code, rejects the packet.\<close>

definition bpf_switch :: "byte list \<Rightarrow> bpf_packet \<Rightarrow> u32 \<Rightarrow> u32 \<Rightarrow> bpf_insn \<Rightarrow> bpf_regs \<Rightarrow> bpf_out result" where
  "bpf_switch p bp wirelen buflen pc r =
     (case bpf_misc pc r of Some z \<Rightarrow> z | None \<Rightarrow>
     (case bpf_ld p bp wirelen buflen pc r of Some z \<Rightarrow> z | None \<Rightarrow>
     (case bpf_st pc r of Some z \<Rightarrow> z | None \<Rightarrow>
     (case bpf_jmp pc r of Some z \<Rightarrow> z | None \<Rightarrow>
     (case bpf_alu pc r of Some z \<Rightarrow> z | None \<Rightarrow> Inr (Return 0))))))"

function bpf_run :: "bpf_insn list \<Rightarrow> byte list \<Rightarrow> bpf_packet \<Rightarrow> u32 \<Rightarrow> u32 \<Rightarrow> nat \<Rightarrow> bpf_regs \<Rightarrow> u32 result" where
  "bpf_run prog p bp wirelen buflen pc r =
     (if pc \<ge> length prog then Inl OutOfBounds
      else bind_r (bpf_switch p bp wirelen buflen (prog ! pc) r) (\<lambda>out.
           case out of
             Return v \<Rightarrow> Inr v
           | Continue n r' \<Rightarrow> bpf_run prog p bp wirelen buflen (pc + n + 1) r'))"
  by pat_completeness auto
termination
  by (relation "measure (\<lambda>(prog, p, bp, wirelen, buflen, pc, r). length prog - pc)") auto

declare bpf_run.simps [simp del]

definition bpf_filter ::
    "bpf_insn list option \<Rightarrow> byte list \<Rightarrow> bpf_packet \<Rightarrow> u32 \<Rightarrow> u32 \<Rightarrow> u32 result" where
  "bpf_filter pc p bp wirelen buflen =
     (case pc of
        None \<Rightarrow> Inr (- 1)
      | Some prog \<Rightarrow> bpf_run prog p bp wirelen buflen 0 \<lparr>reg_A = 0, reg_X = 0, reg_mem = replicate 16 0\<rparr>)"

section \<open>Validation\<close>

text \<open>The body of the loop of \<open>bpf_validate\<close> for the instruction at \<open>i\<close> of \<open>len\<close>.\<close>

definition insn_ok :: "u32 \<Rightarrow> u32 \<Rightarrow> u32 \<Rightarrow> bpf_insn \<Rightarrow> bool" where
  "insn_ok bpf_maxbufsize len i p =
     (let c = bi_code p; k = bi_k p; from = i + 1 in
      if BPF_CLASS c = BPF_LD \<or> BPF_CLASS c = BPF_LDX then
        (if BPF_MODE c = BPF_IMM then True
         else if BPF_MODE c = BPF_ABS \<or> BPF_MODE c = BPF_IND \<or> BPF_MODE c = BPF_MSH then k < bpf_maxbufsize
         else if BPF_MODE c = BPF_MEM then k < BPF_MEMWORDS
         else BPF_MODE c = BPF_LEN)
      else if BPF_CLASS c = BPF_ST \<or> BPF_CLASS c = BPF_STX then k < BPF_MEMWORDS
      else if BPF_CLASS c = BPF_ALU then
        (if BPF_OP c \<in> {BPF_ADD, BPF_SUB, BPF_MUL, BPF_OR, BPF_AND, BPF_LSH, BPF_RSH, BPF_NEG} then True
         else if BPF_OP c = BPF_DIV then \<not> (BPF_SRC c = BPF_K \<and> k = 0)
         else False)
      else if BPF_CLASS c = BPF_JMP then
        (if BPF_OP c = BPF_JA then \<not> (from + k < from \<or> from + k \<ge> len)
         else if BPF_OP c \<in> {BPF_JEQ, BPF_JGT, BPF_JGE, BPF_JSET} then
           \<not> (from + ucast (bi_jt p) \<ge> len \<or> from + ucast (bi_jf p) \<ge> len)
         else False)
      else BPF_CLASS c = BPF_RET \<or> BPF_CLASS c = BPF_MISC)"

definition bpf_validate :: "u32 \<Rightarrow> bpf_insn list \<Rightarrow> bool" where
  "bpf_validate bpf_maxbufsize f =
     (let len = length f in
      if len < 1 \<or> len > BPF_MAXINSNS then False
      else list_all (\<lambda>i. insn_ok bpf_maxbufsize (of_nat len) (of_nat i) (f ! i)) [0..<len]
           \<and> BPF_CLASS (bi_code (f ! (len - 1))) = BPF_RET)"

section \<open>Every load of the machine stays inside the packet\<close>

text \<open>
  The packet given to the filter: the buffer holds \<open>buflen\<close> bytes, or the chain is not empty
  and has no empty mbuf, or there are buflets and they have the bytes they claim.
\<close>

definition chain_ok :: "byte list list \<Rightarrow> bool" where
  "chain_ok m \<longleftrightarrow> m \<noteq> [] \<and> [] \<notin> set m"

definition buflet_ok :: "buflet \<Rightarrow> bool" where
  "buflet_ok b \<longleftrightarrow> (case bl_data b of None \<Rightarrow> False | Some d \<Rightarrow> length d = bl_len b)"

definition packet_ok :: "byte list \<Rightarrow> bpf_packet \<Rightarrow> u32 \<Rightarrow> bool" where
  "packet_ok p bp buflen \<longleftrightarrow>
     (if buflen \<noteq> 0 then unat buflen \<le> length p
      else case bpfp_u bp of
             BPF_PACKET_TYPE_MBUF m \<Rightarrow> chain_ok m
           | BPF_PACKET_TYPE_PKT bs \<Rightarrow> bs \<noteq> [] \<and> list_all buflet_ok bs
           | BPF_PACKET_TYPE_OTHER \<Rightarrow> True)"

text \<open>
  The walk finds the byte of the concatenation: with nothing left it fails, otherwise the
  bytes it returns, followed by the rest of the chain, are the bytes from \<open>k\<close> on.
\<close>

lemma m_walk_spec:
  assumes "m \<noteq> []"
  shows "k \<ge> length (concat m) \<Longrightarrow> m_walk m k = Inr None"
    and "k < length (concat m) \<Longrightarrow>
           \<exists>cp ms k' len. m_walk m k = Inr (Some (cp, ms, k', len)) \<and> k' < len \<and> len - k' = length cp \<and>
             drop k (concat m) = cp @ concat ms \<and> (\<exists>a. m = a @ ms)"
  using assms
proof (induction m arbitrary: k)
  case (Cons a m)
  { case 1 then show ?case using Cons.IH(1) [of "k - length a"] by (cases "m = []") auto }
  { case 2
    show ?case
    proof (cases "k < length a")
      case True then show ?thesis by auto
    next
      case False
      with 2 have "m \<noteq> []" "k - length a < length (concat m)" by auto
      with Cons.IH(2) [of "k - length a"] obtain cp ms k' len where
        "m_walk m (k - length a) = Inr (Some (cp, ms, k', len))" "k' < len" "len - k' = length cp"
        "drop (k - length a) (concat m) = cp @ concat ms" "\<exists>b. m = b @ ms" by blast
      with False \<open>m \<noteq> []\<close> show ?thesis by auto
    qed }
qed simp_all

lemma m_hdr_offset_spec:
  assumes "m \<noteq> []"
  shows "k \<ge> length (hdr @ concat m) \<Longrightarrow> m_hdr_offset m hdr k = Inr None"
    and "k < length (hdr @ concat m) \<Longrightarrow>
           \<exists>cp ms k' len. m_hdr_offset m hdr k = Inr (Some (cp, ms, k', len)) \<and> k' < len \<and> len - k' = length cp \<and>
             drop k (hdr @ concat m) = cp @ concat ms \<and> (\<exists>a. m = a @ ms)"
  using m_walk_spec [OF assms, of "k - length hdr"] by (auto simp: m_hdr_offset_def)

lemma rd_append [simp]: "4 \<le> length a \<Longrightarrow> rd32 (a @ b) = rd32 a" "2 \<le> length a \<Longrightarrow> rd16 (a @ b) = rd16 a"
  by (auto simp: rd32_def rd16_def nth_append)

lemma rd_take [simp]: "4 \<le> length a \<Longrightarrow> rd32 (take 4 a) = rd32 a" "2 \<le> length a \<Longrightarrow> rd16 (take 2 a) = rd16 a"
  using rd_append(1) [of "take 4 a" "drop 4 a"] rd_append(2) [of "take 2 a" "drop 2 a"] by simp_all

lemma get_word_from_buffers_ok:
  assumes "0 < n" "n < 4" "length cp = n" "4 \<le> length np + n"
  shows "get_word_from_buffers (Some cp) (Some np) n = Inr (rd32 (cp @ np))"
proof -
  have "rd32 (cp @ take (4 - n) np) = rd32 (cp @ np)"
    using assms rd_append(1) [of "cp @ take (4 - n) np" "drop (4 - n) np"] by simp
  moreover have "n = 1 \<or> n = 2 \<or> n = 3" using assms by linarith
  ultimately show ?thesis using assms by (auto simp: get_word_from_buffers_def deref_def bytes_at_def)
qed

text \<open>A word spans at most two buffers when every mbuf but the last has three bytes.\<close>

definition spread :: "nat list \<Rightarrow> bool" where
  "spread ls \<longleftrightarrow> list_all (\<lambda>n. 3 \<le> n) (butlast ls)"

lemma spread_append: "spread (a @ b) \<Longrightarrow> spread b"
  by (cases b) (auto simp: spread_def butlast_append)

lemma spread_Cons: "spread (n # ls) \<Longrightarrow> ls \<noteq> [] \<Longrightarrow> 3 \<le> n"
  by (simp add: spread_def)

lemma m_xword_returns: "m \<noteq> [] \<Longrightarrow> \<exists>v. m_xword m hdr k = Inr v"
proof -
  assume m: "m \<noteq> []"
  show ?thesis
  proof (cases "k < length (hdr @ concat m)")
    case True
    then obtain cp ms k' len where *: "m_hdr_offset m hdr k = Inr (Some (cp, ms, k', len))" "k' < len" "len - k' = length cp"
      using m_hdr_offset_spec(2) [OF m] by blast
    show ?thesis
    proof (cases ms)
      case Nil with * show ?thesis by (auto simp: m_xword_def bytes_at_def)
    next
      case (Cons np ns)
      have "\<exists>v. get_word_from_buffers (Some cp) (Some np) (length cp) = Inr v"
        if "length cp < 4" "4 \<le> length np + length cp"
        using get_word_from_buffers_ok [of "length cp" cp np] that * by fastforce
      moreover have "length np + len - k' = length np + length cp" using * by linarith
      ultimately show ?thesis using Cons * by (auto simp: m_xword_def bytes_at_def)
    qed
  qed (use m m_hdr_offset_spec(1) in \<open>auto simp: m_xword_def\<close>)
qed

lemma m_xword_exact:
  assumes "chain_ok m" "spread (map length m)"
  shows "m_xword m hdr k =
           Inr (if k + 4 \<le> length (hdr @ concat m) then Some (rd32 (drop k (hdr @ concat m))) else None)"
proof (cases "k < length (hdr @ concat m)")
  case True
  then obtain cp ms k' len a where *: "m_hdr_offset m hdr k = Inr (Some (cp, ms, k', len))" "k' < len" "len - k' = length cp"
    "drop k (hdr @ concat m) = cp @ concat ms" "m = a @ ms"
    using m_hdr_offset_spec(2) assms(1) unfolding chain_ok_def by blast
  have iff: "k + 4 \<le> length (hdr @ concat m) \<longleftrightarrow> 4 \<le> length (cp @ concat ms)"
    using arg_cong [OF *(4), of length] True by simp linarith
  have "m_xword m hdr k = Inr (if 4 \<le> length (cp @ concat ms) then Some (rd32 (cp @ concat ms)) else None)"
  proof (cases ms)
    case Nil with *(1-3) show ?thesis by (auto simp: m_xword_def bytes_at_def)
  next
    case (Cons np ns)
    have "3 \<le> length np" if "ns \<noteq> []"
      using spread_append [of "map length a" "map length ms"] assms(2) *(5) Cons that
        spread_Cons [of "length np" "map length ns"] by simp
    moreover have "get_word_from_buffers (Some cp) (Some np) (length cp) = Inr (rd32 (cp @ np @ concat ns))"
      if "length cp < 4" "4 \<le> length np + length cp"
      using get_word_from_buffers_ok [of "length cp" cp np] that *(1-3) rd_append(1) [of "cp @ np" "concat ns"] by fastforce
    moreover have "length np + len - k' = length np + length cp" using * by linarith
    ultimately show ?thesis using Cons *(1-3)
      by (cases "ns = []") (auto simp: m_xword_def bytes_at_def)
  qed
  then show ?thesis unfolding iff *(4) .
qed (use assms m_hdr_offset_spec(1) in \<open>auto simp: m_xword_def chain_ok_def\<close>)

lemma m_xhalf_exact:
  assumes "chain_ok m"
  shows "m_xhalf m hdr k =
           Inr (if k + 2 \<le> length (hdr @ concat m) then Some (rd16 (drop k (hdr @ concat m))) else None)"
proof (cases "k < length (hdr @ concat m)")
  case True
  then obtain cp ms k' len a where *: "m_hdr_offset m hdr k = Inr (Some (cp, ms, k', len))" "k' < len" "len - k' = length cp"
    "drop k (hdr @ concat m) = cp @ concat ms" "m = a @ ms"
    using m_hdr_offset_spec(2) assms(1) unfolding chain_ok_def by blast
  have iff: "k + 2 \<le> length (hdr @ concat m) \<longleftrightarrow> 2 \<le> length (cp @ concat ms)"
    using arg_cong [OF *(4), of length] True by simp linarith
  have "m_xhalf m hdr k = Inr (if 2 \<le> length (cp @ concat ms) then Some (rd16 (cp @ concat ms)) else None)"
  proof (cases ms)
    case Nil with *(1-3) show ?thesis by (auto simp: m_xhalf_def bytes_at_def)
  next
    case (Cons np ns)
    then obtain b bs where "np = b # bs" using assms *(5) by (cases np) (auto simp: chain_ok_def)
    with Cons *(1-3) show ?thesis
      by (cases cp) (auto simp: m_xhalf_def bytes_at_def rd16_def nth_append Suc_le_eq)
  qed
  then show ?thesis unfolding iff *(4) .
qed (use assms m_hdr_offset_spec(1) in \<open>auto simp: m_xhalf_def chain_ok_def\<close>)

lemma m_xbyte_exact:
  assumes "m \<noteq> []"
  shows "m_xbyte m hdr k =
           Inr (if k < length (hdr @ concat m) then Some ((hdr @ concat m) ! k) else None)"
proof (cases "k < length (hdr @ concat m)")
  case True
  then obtain cp ms k' len where *: "m_hdr_offset m hdr k = Inr (Some (cp, ms, k', len))" "k' < len" "len - k' = length cp"
    "drop k (hdr @ concat m) = cp @ concat ms"
    using m_hdr_offset_spec(2) assms by blast
  have "(hdr @ concat m) ! k = (cp @ concat ms) ! 0" using True *(4) by (metis add_0_right less_imp_le_nat nth_drop)
  with * True show ?thesis by (cases cp) (auto simp: m_xbyte_def ld8_def bytes_at_def)
qed (use assms m_hdr_offset_spec(1) in \<open>auto simp: m_xbyte_def\<close>)

text \<open>Over buflets with their bytes the walk is that over the mbufs with the same bytes.\<close>

definition buflet_bytes :: "buflet list \<Rightarrow> byte list list" where
  "buflet_bytes bs = map (\<lambda>b. the (bl_data b)) bs"

lemma buflet_okE: "buflet_ok b \<Longrightarrow> (\<And>d. b = Buflet (length d) (Some d) \<Longrightarrow> thesis) \<Longrightarrow> thesis"
  by (cases b) (auto simp: buflet_ok_def split: option.splits)

lemma p_walk_m_walk:
  assumes "list_all buflet_ok bs" "bs \<noteq> []"
  shows "case p_walk bs k of
           None \<Rightarrow> m_walk (buflet_bytes bs) k = Inr None
         | Some (b, bs', k') \<Rightarrow> \<exists>d. b = Buflet (length d) (Some d) \<and> list_all buflet_ok bs' \<and>
             m_walk (buflet_bytes bs) k = Inr (Some (drop k' d, buflet_bytes bs', k', length d))"
  using assms
proof (induction bs arbitrary: k)
  case (Cons b bs)
  obtain d where b: "b = Buflet (length d) (Some d)" using Cons.prems by (auto elim: buflet_okE)
  show ?case
  proof (cases "bs = []")
    case True with b show ?thesis by (simp add: buflet_bytes_def)
  next
    case False
    with Cons.IH [of "k - length d"] Cons.prems b show ?thesis
      by (auto simp: buflet_bytes_def split: option.splits)
  qed
qed simp

lemma p_hdr_offset_m:
  assumes "list_all buflet_ok bs" "bs \<noteq> []"
  shows "case p_hdr_offset bs hdr k of
           None \<Rightarrow> m_hdr_offset (buflet_bytes bs) hdr k = Inr None
         | Some (cp, bs', k', len) \<Rightarrow> \<exists>c. cp = Some c \<and> list_all buflet_ok bs' \<and>
             m_hdr_offset (buflet_bytes bs) hdr k = Inr (Some (c, buflet_bytes bs', k', len))"
  using p_walk_m_walk [OF assms, of "k - length hdr"] assms
  by (auto simp: p_hdr_offset_def m_hdr_offset_def split: option.splits)

lemma p_xword_m:
  assumes "list_all buflet_ok bs" "bs \<noteq> []"
  shows "p_xword bs hdr k = m_xword (buflet_bytes bs) hdr k"
  using p_hdr_offset_m [OF assms, of hdr k]
  by (auto simp: p_xword_def m_xword_def deref_def buflet_bytes_def list_all_iff elim!: buflet_okE
      split: option.splits list.splits)

lemma p_xbyte_m:
  assumes "list_all buflet_ok bs" "bs \<noteq> []"
  shows "p_xbyte bs hdr k = m_xbyte (buflet_bytes bs) hdr k"
  using p_hdr_offset_m [OF assms, of hdr k]
  by (auto simp: p_xbyte_def m_xbyte_def ld8_def deref_def bind_r_assoc split: option.splits)

lemma p_xhalf_m:
  assumes "list_all buflet_ok bs" "bs \<noteq> []" "[] \<notin> set (buflet_bytes bs)"
  shows "p_xhalf bs hdr k = m_xhalf (buflet_bytes bs) hdr k"
proof -
  have "chain_ok (buflet_bytes bs)" using assms by (simp add: chain_ok_def buflet_bytes_def)
  then have "\<exists>v. m_xhalf (buflet_bytes bs) hdr k = Inr v" by (simp add: m_xhalf_exact)
  then show ?thesis using p_hdr_offset_m [OF assms(1,2), of hdr k]
    by (auto simp: p_xhalf_def m_xhalf_def deref_def bytes_at_def buflet_bytes_def list_all_iff elim!: buflet_okE
      split: option.splits list.splits if_splits)
qed

lemma p_xhalf_returns:
  assumes "list_all buflet_ok bs" "bs \<noteq> []"
  shows "\<exists>v. p_xhalf bs hdr k = Inr v"
proof (cases "p_hdr_offset bs hdr k")
  case (Some z)
  then obtain c bs' k' len where z: "p_hdr_offset bs hdr k = Some (Some c, bs', k', len)" and b: "list_all buflet_ok bs'"
    and m: "m_hdr_offset (buflet_bytes bs) hdr k = Inr (Some (c, buflet_bytes bs', k', len))"
    using p_hdr_offset_m [OF assms, of hdr k] by (cases z) auto
  have ne: "buflet_bytes bs \<noteq> []" using assms by (simp add: buflet_bytes_def)
  have "k < length (hdr @ concat (buflet_bytes bs))" using m m_hdr_offset_spec(1) [OF ne, of hdr k] by force
  then have "k' < len \<and> len - k' = length c" using m m_hdr_offset_spec(2) [OF ne, of k hdr] by auto
  with z b show ?thesis
    by (cases bs') (auto simp: p_xhalf_def deref_def bytes_at_def Suc_le_eq elim!: buflet_okE)
qed (simp add: p_xhalf_def)

lemma bp_loads_return:
  assumes "packet_ok p bp 0"
  shows "\<exists>v. bp_xword bp k = Inr v" "\<exists>v. bp_xhalf bp k = Inr v" "\<exists>v. bp_xbyte bp k = Inr v"
proof -
  have [simp]: "bs \<noteq> [] \<Longrightarrow> buflet_bytes bs \<noteq> []" for bs by (simp add: buflet_bytes_def)
  have [simp]: "chain_ok m \<Longrightarrow> m \<noteq> []" for m by (auto simp: chain_ok_def)
  show "\<exists>v. bp_xword bp k = Inr v" using assms m_xword_returns
    by (cases "bpfp_u bp") (auto simp: packet_ok_def bp_xword_def p_xword_m)
  show "\<exists>v. bp_xhalf bp k = Inr v" using assms p_xhalf_returns
    by (cases "bpfp_u bp") (auto simp: packet_ok_def bp_xhalf_def m_xhalf_exact)
  show "\<exists>v. bp_xbyte bp k = Inr v" using assms
    by (cases "bpfp_u bp") (auto simp: packet_ok_def bp_xbyte_def m_xbyte_exact p_xbyte_m)
qed

end
