(* ===== verification/Filtering.thy ===== *)
theory Filtering
  imports Bpf
begin

text \<open>
  What the packet filter promises: a program that \<open>bpf_validate\<close> accepts runs to a verdict
  inside its code, its scratch memory and the packet, and the verdict does not depend on how
  the packet is stored.
\<close>

section \<open>Loads from a contiguous buffer\<close>

lemma miss_word: "(k > n \<or> 4 > n - k) \<longleftrightarrow> \<not> unat k + 4 \<le> unat (n::u32)"
  by unat_arith

lemma miss_half: "(k > n \<or> 2 > n - k) \<longleftrightarrow> \<not> unat k + 2 \<le> unat (n::u32)"
  by unat_arith

lemma miss_ind_word: "(k > n \<or> x > n - k \<or> 4 > n - (x + k)) \<longleftrightarrow> \<not> unat x + unat k + 4 \<le> unat (n::u32)"
  by unat_arith

lemma miss_ind_half: "(x > n \<or> k > n - x \<or> 2 > n - (x + k)) \<longleftrightarrow> \<not> unat x + unat k + 2 \<le> unat (n::u32)"
  by unat_arith

lemma miss_ind_byte: "(k \<ge> n \<or> x \<ge> n - k) \<longleftrightarrow> \<not> unat x + unat k < unat (n::u32)"
  by unat_arith

text \<open>When the loads return, so does each load of the machine.\<close>

lemma load_word_returns:
  assumes "packet_ok p bp n" "n = 0 \<longrightarrow> miss" "\<not> miss \<longrightarrow> unat k + 4 \<le> unat n"
  shows "\<exists>v. load_word p bp n miss k = Inr v"
  using assms bp_loads_return(1) [of p bp k] by (auto simp: load_word_def packet_ok_def bytes_at_def split: if_splits)

lemma load_half_returns:
  assumes "packet_ok p bp n" "n = 0 \<longrightarrow> miss" "\<not> miss \<longrightarrow> unat k + 2 \<le> unat n"
  shows "\<exists>v. load_half p bp n miss k = Inr v"
  using assms bp_loads_return(2) [of p bp k] by (auto simp: load_half_def packet_ok_def bytes_at_def split: if_splits)

lemma load_byte_returns:
  assumes "packet_ok p bp n" "n = 0 \<longrightarrow> miss" "\<not> miss \<longrightarrow> unat k < unat n"
  shows "\<exists>v. load_byte p bp n miss k = Inr v"
  using assms bp_loads_return(3) [of p bp k]
  by (auto simp: load_byte_def packet_ok_def ld8_def bytes_at_def split: if_splits)

lemma unat_plus_le: "unat x + unat (k::u32) + m \<le> unat (n::u32) \<Longrightarrow> unat (x + k) = unat x + unat k"
proof -
  assume *: "unat x + unat k + m \<le> unat n"
  have "unat n < 2 ^ LENGTH(32)" by (rule unsigned_less)
  with * show ?thesis by (simp add: unat_word_ariths)
qed

section \<open>Validated programs\<close>

text \<open>
  Where an instruction may leave the machine: a verdict, or an instruction of the program
  behind it with the scratch memory whole.
\<close>

definition step_ok :: "nat \<Rightarrow> nat \<Rightarrow> bpf_out \<Rightarrow> bool" where
  "step_ok len i out \<longleftrightarrow>
     (case out of Return v \<Rightarrow> True | Continue n r \<Rightarrow> i + n + 1 < len \<and> length (reg_mem r) = 16)"

lemma step_ok_simps [simp]:
  "step_ok len i (Return v)"
  "step_ok len i (Continue n r) \<longleftrightarrow> i + n + 1 < len \<and> length (reg_mem r) = 16"
  by (simp_all add: step_ok_def)

lemma step_ok_set [simp]:
  "i + 1 < len \<Longrightarrow> length (reg_mem r) = 16 \<Longrightarrow> step_ok len i (set_A r v)"
  "i + 1 < len \<Longrightarrow> length (reg_mem r) = 16 \<Longrightarrow> step_ok len i (set_X r v)"
  by (cases v; simp add: set_A_def set_X_def)+

lemma safe_bind_ret: "\<exists>v. m = Inr v \<Longrightarrow> (\<And>v. P (f v)) \<Longrightarrow> safe_r P E (bind_r m (\<lambda>v. Inr (f v)))"
  by auto

text \<open>The scratch memory has as many cells as the checks admit.\<close>

lemma mem_safe:
  assumes "length mem = 16" "\<not> k \<ge> (16::u32)"
  shows "\<exists>v. mem_get mem k = Inr v" "safe_r (\<lambda>m. length m = 16) E (mem_set mem k v)"
  using assms by (auto simp: mem_get_def mem_set_def word_le_nat_alt)

lemma bpf_ld_safe:
  assumes "packet_ok p bp n" "length (reg_mem r) = 16" "BPF_CLASS (bi_code pc) \<noteq> BPF_RET \<longrightarrow> i + 1 < len"
    "bpf_ld p bp wirelen n pc r = Some z"
  shows "safe_r (step_ok len i) E z"
proof -
  have "bi_code pc \<in> {0x20, 0x28, 0x30, 0x80, 0x81, 0x40, 0x48, 0x50, 0xb1, 0, 1, 0x60, 0x61}"
    using assms(4) by (auto simp: bpf_ld_def Let_def split: if_splits)
  then have i: "i + 1 < len" using assms(3) by (auto simp: BPF_CLASS_def)
  have w: "\<exists>v. load_word p bp n (bi_k pc > n \<or> 4 > n - bi_k pc) (bi_k pc) = Inr v"
    using miss_word [of n "bi_k pc"] by (intro load_word_returns [OF assms(1)]) auto
  have h: "\<exists>v. load_half p bp n (bi_k pc > n \<or> 2 > n - bi_k pc) (bi_k pc) = Inr v"
    using miss_half [of n "bi_k pc"] by (intro load_half_returns [OF assms(1)]) auto
  have b: "\<exists>v. load_byte p bp n (bi_k pc \<ge> n) (bi_k pc) = Inr v"
    by (intro load_byte_returns [OF assms(1)]) (auto simp: word_le_nat_alt)
  have wi: "\<exists>v. load_word p bp n (bi_k pc > n \<or> reg_X r > n - bi_k pc \<or> 4 > n - (reg_X r + bi_k pc)) (reg_X r + bi_k pc) = Inr v"
    using miss_ind_word [of n "bi_k pc" "reg_X r"] unat_plus_le [of "reg_X r" "bi_k pc" 4 n]
    by (intro load_word_returns [OF assms(1)]) auto
  have hi: "\<exists>v. load_half p bp n (reg_X r > n \<or> bi_k pc > n - reg_X r \<or> 2 > n - (reg_X r + bi_k pc)) (reg_X r + bi_k pc) = Inr v"
    using miss_ind_half [of n "reg_X r" "bi_k pc"] unat_plus_le [of "reg_X r" "bi_k pc" 2 n]
    by (intro load_half_returns [OF assms(1)]) auto
  have bi: "\<exists>v. load_byte p bp n (bi_k pc \<ge> n \<or> reg_X r \<ge> n - bi_k pc) (reg_X r + bi_k pc) = Inr v"
    using miss_ind_byte [of n "bi_k pc" "reg_X r"] unat_plus_le [of "reg_X r" "bi_k pc" 1 n]
    by (intro load_byte_returns [OF assms(1)]) auto
  have m: "\<exists>v. mem_get (reg_mem r) (bi_k pc) = Inr v" if "\<not> bi_k pc \<ge> 16" by (rule mem_safe(1) [OF assms(2) that])
  note rets = w h b wi hi bi m
  show ?thesis using assms(4) i assms(2) unfolding bpf_ld_def Let_def
    by (auto intro!: safe_bind_ret rets split: if_splits)
qed

lemma bpf_st_safe:
  assumes "length (reg_mem r) = 16" "BPF_CLASS (bi_code pc) \<noteq> BPF_RET \<longrightarrow> i + 1 < len" "bpf_st pc r = Some z"
  shows "safe_r (step_ok len i) E z"
  using assms by (auto simp: bpf_st_def Let_def BPF_CLASS_def split: if_splits intro!: safe_r_bind [OF mem_safe(2)])

lemma bpf_misc_safe:
  assumes "length (reg_mem r) = 16" "BPF_CLASS (bi_code pc) \<noteq> BPF_RET \<longrightarrow> i + 1 < len" "bpf_misc pc r = Some z"
  shows "safe_r (step_ok len i) E z"
  using assms by (auto simp: bpf_misc_def Let_def BPF_CLASS_def split: if_splits)

text \<open>A shift by a constant below 32, or no shift.\<close>

definition shift_fits :: "bpf_insn \<Rightarrow> bool" where
  "shift_fits pc \<longleftrightarrow>
     bi_code pc \<notin> {BPF_ALU OR BPF_LSH OR BPF_X, BPF_ALU OR BPF_RSH OR BPF_X} \<and>
     (bi_code pc \<in> {BPF_ALU OR BPF_LSH OR BPF_K, BPF_ALU OR BPF_RSH OR BPF_K} \<longrightarrow> bi_k pc < 32)"

lemma bpf_alu_safe:
  assumes "length (reg_mem r) = 16" "BPF_CLASS (bi_code pc) \<noteq> BPF_RET \<longrightarrow> i + 1 < len" "bpf_alu pc r = Some z"
    "insn_ok maxb n j pc" "shift_fits pc \<or> BadShift \<in> E"
  shows "safe_r (step_ok len i) E z"
proof -
  have c: "BPF_CLASS (bi_code pc) = BPF_ALU"
    using assms(3) by (auto simp: bpf_alu_def Let_def BPF_CLASS_def split: if_splits)
  then have i: "i + 1 < len" using assms(2) by simp
  have "bi_k pc \<noteq> 0" if "bi_code pc = 0x34"
    using assms(4) that by (auto simp: insn_ok_def Let_def BPF_CLASS_def BPF_OP_def BPF_SRC_def)
  with assms(1,3,5) i show ?thesis by (auto simp: bpf_alu_def Let_def shift_def shift_fits_def split: if_splits)
qed

text \<open>The jumps: the addition of the offset, made with 32 bits, does not wrap.\<close>

lemma jump_bound:
  assumes "len \<le> 512" "i < len" "\<not> of_nat i + 1 + k < (of_nat i + 1 :: u32)" "\<not> of_nat i + 1 + k \<ge> (of_nat len :: u32)"
  shows "i + unat k + 1 < len"
proof -
  have n: "unat (of_nat i + 1 :: u32) = i + 1" "unat (of_nat len :: u32) = len"
    using assms(1,2) unat_of_nat_u32 [of "i + 1"] unat_of_nat_u32 [of len] by (simp_all add: add.commute)
  have "unat (of_nat i + 1 + k) = i + 1 + unat k"
    using assms(3) n(1) by (metis no_olen_add' unat_plus_simple not_le)
  with assms(4) n show ?thesis by (simp add: word_le_nat_alt)
qed

lemma branch_bound:
  assumes "len \<le> 512" "i < len" "\<not> of_nat i + 1 + ucast (j::byte) \<ge> (of_nat len :: u32)"
  shows "i + unat j + 1 < len"
proof -
  have "unat j < 2 ^ LENGTH(8)" by (rule unsigned_less)
  then have b: "unat j < 256" by simp
  then have j: "unat (ucast j :: u32) = unat j" by (simp add: unsigned_ucast_eq take_bit_nat_eq_self_iff)
  from b assms have "\<not> of_nat i + 1 + ucast j < (of_nat i + 1 :: u32)"
    by (simp add: word_less_nat_alt unat_word_ariths unat_of_nat j)
  from jump_bound [OF assms(1,2) this assms(3)] show ?thesis by (simp add: j)
qed

lemma bpf_jmp_safe:
  assumes "length (reg_mem r) = 16" "bpf_jmp pc r = Some z" "insn_ok maxb (of_nat len) (of_nat i) pc" "i < len" "len \<le> 512"
  shows "safe_r (step_ok len i) E z"
proof -
  have c: "BPF_CLASS (bi_code pc) = BPF_JMP"
    using assms(2) by (auto simp: bpf_jmp_def branch_def Let_def BPF_CLASS_def split: if_splits)
  show ?thesis
  proof (cases "bi_code pc = 5")
    case True
    with assms(3) c have "i + unat (bi_k pc) + 1 < len"
      using jump_bound [OF assms(5,4), of "bi_k pc"] by (simp add: insn_ok_def Let_def BPF_OP_def)
    with True assms(1,2) show ?thesis by (auto simp: bpf_jmp_def Let_def)
  next
    case False
    with assms(2) have "BPF_OP (bi_code pc) \<in> {BPF_JEQ, BPF_JGT, BPF_JGE, BPF_JSET}"
      by (auto simp: bpf_jmp_def branch_def Let_def BPF_OP_def split: if_splits)
    with assms(3) c have "i + unat (bi_jt pc) + 1 < len" "i + unat (bi_jf pc) + 1 < len"
      using branch_bound [OF assms(5,4), of "bi_jt pc"] branch_bound [OF assms(5,4), of "bi_jf pc"]
      by (auto simp: insn_ok_def Let_def)
    with False assms(1,2) show ?thesis by (auto simp: bpf_jmp_def branch_def Let_def split: if_splits)
  qed
qed

lemma bpf_switch_safe:
  assumes "packet_ok p bp n" "length (reg_mem r) = 16" "BPF_CLASS (bi_code pc) \<noteq> BPF_RET \<longrightarrow> i + 1 < len"
    "insn_ok maxb (of_nat len) (of_nat i) pc" "i < len" "len \<le> 512" "shift_fits pc \<or> BadShift \<in> E"
  shows "safe_r (step_ok len i) E (bpf_switch p bp wirelen n pc r)"
  using bpf_misc_safe [OF assms(2,3)] bpf_ld_safe [OF assms(1-3)] bpf_st_safe [OF assms(2,3)]
    bpf_jmp_safe [OF assms(2) _ assms(4-6)] bpf_alu_safe [OF assms(2,3) _ assms(4,7)]
  by (auto simp: bpf_switch_def split: option.splits)

lemma bpf_run_safe:
  assumes "packet_ok p bp n" "bpf_validate maxb prog" "pc < length prog" "length (reg_mem r) = 16"
    "list_all shift_fits prog \<or> BadShift \<in> E"
  shows "safe_r (\<lambda>v. True) E (bpf_run prog p bp wirelen n pc r)"
  using assms
proof (induction prog p bp wirelen n pc r rule: bpf_run.induct)
  case (1 prog p bp wirelen n pc r)
  have len: "length prog \<le> 512" "insn_ok maxb (of_nat (length prog)) (of_nat pc) (prog ! pc)"
    "BPF_CLASS (bi_code (prog ! (length prog - 1))) = BPF_RET"
    using "1.prems"(2,3) by (auto simp: bpf_validate_def Let_def list_all_iff split: if_splits)
  have "pc + 1 < length prog" if "BPF_CLASS (bi_code (prog ! pc)) \<noteq> BPF_RET"
    using that len(3) "1.prems"(3) by (cases "pc = length prog - 1") auto
  then have "safe_r (step_ok (length prog) pc) E (bpf_switch p bp wirelen n (prog ! pc) r)"
    using bpf_switch_safe "1.prems" len by (metis list_all_length)
  then show ?case using "1.IH" "1.prems" unfolding bpf_run.simps [of prog p bp wirelen n pc]
    by (auto intro!: safe_r_bind split: bpf_out.splits)
qed

text \<open>
  C15. A program that \<open>bpf_validate\<close> accepts cannot harm the kernel: on every
  packet in a buffer of its length, in a chain without empty mbufs or in buflets that have
  their bytes, \<open>bpf_filter\<close> fetches only instructions of the program, reads only bytes of the
  packet, reads and writes only cells of the scratch memory, and does not divide by zero. On
  such packets the one undefined behaviour the validation leaves is a shift by 32 or more;
  without such shifts the filter always ends with a verdict.
\<close>

theorem bpf_validate_sound:
  assumes "bpf_validate bpf_maxbufsize prog" "packet_ok p bp buflen"
  shows "safe_r (\<lambda>v. True) {BadShift} (bpf_filter (Some prog) p bp wirelen buflen) \<and>
         (list_all shift_fits prog \<longrightarrow> (\<exists>v. bpf_filter (Some prog) p bp wirelen buflen = Inr v))"
proof -
  have len: "0 < length prog" using assms(1) by (auto simp: bpf_validate_def Let_def split: if_splits)
  have "safe_r (\<lambda>v. True) {} r \<Longrightarrow> \<exists>v. r = Inr v" for r :: "u32 result" by (cases r) auto
  then show ?thesis using bpf_run_safe [OF assms(2,1) len] by (simp add: bpf_filter_def)
qed

text \<open>A filter for IPv4 over Ethernet, and a packet in three mbufs.\<close>

definition ex_prog :: "bpf_insn list" where
  "ex_prog =
     [BPF_STMT (BPF_LD OR BPF_H OR BPF_ABS) 12,
      BPF_JUMP (BPF_JMP OR BPF_JEQ OR BPF_K) 0x800 0 1,
      BPF_STMT (BPF_RET OR BPF_K) 96,
      BPF_STMT (BPF_RET OR BPF_K) 0]"

definition ex_packet :: bpf_packet where
  "ex_packet = \<lparr>bpfp_header = [], bpfp_u = BPF_PACKET_TYPE_MBUF [replicate 12 1 @ [8], [0, 0x45, 0], [0]], bpfp_total_length = 17\<rparr>"

lemmas ex_bpf_simps = ex_prog_def ex_packet_def BPF_STMT_def BPF_JUMP_def

theorem bpf_validate_sound_witness:
  "bpf_validate 0x80000 ex_prog \<and> packet_ok [] ex_packet 0 \<and> list_all shift_fits ex_prog \<and>
   (\<exists>v. bpf_filter (Some ex_prog) [] ex_packet 60 0 = Inr v)"
proof -
  have 1: "bpf_validate 0x80000 ex_prog" by code_simp
  have 2: "packet_ok [] ex_packet 0" by code_simp
  have 3: "list_all shift_fits ex_prog" by code_simp
  from 1 2 3 bpf_validate_sound [OF 1 2, of 60] show ?thesis by simp
qed

text \<open>The shift that the validation does not see.\<close>

lemma validated_shift_undefined:
  "bpf_validate 0x80000 [BPF_STMT (BPF_LDX OR BPF_IMM) 32, BPF_STMT (BPF_ALU OR BPF_LSH OR BPF_X) 0, BPF_STMT (BPF_RET OR BPF_A) 0] \<and>
   bpf_filter (Some [BPF_STMT (BPF_LDX OR BPF_IMM) 32, BPF_STMT (BPF_ALU OR BPF_LSH OR BPF_X) 0, BPF_STMT (BPF_RET OR BPF_A) 0])
     p bp wirelen n = Inl BadShift"
  by (simp add: bpf_validate_def insn_ok_def BPF_STMT_def BPF_CLASS_def BPF_MODE_def BPF_OP_def bpf_filter_def bpf_run.simps
      bpf_switch_def bpf_misc_def bpf_ld_def bpf_st_def bpf_jmp_def bpf_alu_def shift_def set_X_def)

section \<open>The verdict does not depend on the storage of the packet\<close>

text \<open>
  A reader of packets in pieces: the loads agree with those from the concatenation of the
  pieces behind the header.
\<close>

locale packet_reader =
  fixes ok :: "'p \<Rightarrow> bool"
    and content :: "'p \<Rightarrow> byte list"
    and xword :: "'p \<Rightarrow> byte list \<Rightarrow> nat \<Rightarrow> u32 option result"
    and xhalf :: "'p \<Rightarrow> byte list \<Rightarrow> nat \<Rightarrow> u16 option result"
    and xbyte :: "'p \<Rightarrow> byte list \<Rightarrow> nat \<Rightarrow> byte option result"
  assumes word: "ok m \<Longrightarrow> xword m hdr k =
      Inr (if k + 4 \<le> length (hdr @ content m) then Some (rd32 (drop k (hdr @ content m))) else None)"
    and half: "ok m \<Longrightarrow> xhalf m hdr k =
      Inr (if k + 2 \<le> length (hdr @ content m) then Some (rd16 (drop k (hdr @ content m))) else None)"
    and one: "ok m \<Longrightarrow> xbyte m hdr k =
      Inr (if k < length (hdr @ content m) then Some ((hdr @ content m) ! k) else None)"
begin

text \<open>The loads of the machine from the contiguous buffer are those of the reader.\<close>

lemma flat_word:
  assumes "ok m" "p = hdr @ content m" "unat n = length p" "n \<noteq> 0"
  shows "load_word p bp n (k > n \<or> 4 > n - k) k = xword m hdr (unat k)"
  using assms(3,4) unfolding miss_word word [OF assms(1), of hdr, folded assms(2)] by (simp add: load_word_def bytes_at_def)

lemma flat_half:
  assumes "ok m" "p = hdr @ content m" "unat n = length p" "n \<noteq> 0"
  shows "load_half p bp n (k > n \<or> 2 > n - k) k = bind_r (xhalf m hdr (unat k)) (\<lambda>v. Inr (map_option ucast v))"
  using assms(3,4) unfolding miss_half half [OF assms(1), of hdr, folded assms(2)] by (simp add: load_half_def bytes_at_def)

lemma flat_byte:
  assumes "ok m" "p = hdr @ content m" "unat n = length p" "n \<noteq> 0"
  shows "load_byte p bp n (k \<ge> n) k = bind_r (xbyte m hdr (unat k)) (\<lambda>v. Inr (map_option ucast v))"
  using assms(3,4) unfolding one [OF assms(1), of hdr, folded assms(2)]
  by (auto simp: load_byte_def ld8_def bytes_at_def word_le_nat_alt)

end

definition mbufs_ok :: "byte list list \<Rightarrow> bool" where
  "mbufs_ok m \<longleftrightarrow> chain_ok m \<and> spread (map length m)"

definition buflets_ok :: "buflet list \<Rightarrow> bool" where
  "buflets_ok bs \<longleftrightarrow> list_all buflet_ok bs \<and> mbufs_ok (buflet_bytes bs)"

lemma buflets_ok_D: "buflets_ok bs \<Longrightarrow> bs \<noteq> [] \<and> list_all buflet_ok bs \<and> chain_ok (buflet_bytes bs) \<and> spread (map length (buflet_bytes bs))"
  by (auto simp: buflets_ok_def mbufs_ok_def chain_ok_def buflet_bytes_def)

interpretation mbufs: packet_reader mbufs_ok concat m_xword m_xhalf m_xbyte
  by unfold_locales (simp_all add: mbufs_ok_def m_xword_exact m_xhalf_exact m_xbyte_exact chain_ok_def)

interpretation buflets: packet_reader buflets_ok "\<lambda>bs. concat (buflet_bytes bs)" p_xword p_xhalf p_xbyte
proof
  fix bs hdr k
  assume "buflets_ok bs"
  note b = buflets_ok_D [OF this]
  then have n: "[] \<notin> set (buflet_bytes bs)" "buflet_bytes bs \<noteq> []" by (simp_all add: chain_ok_def)
  show "p_xword bs hdr k = Inr (if k + 4 \<le> length (hdr @ concat (buflet_bytes bs))
      then Some (rd32 (drop k (hdr @ concat (buflet_bytes bs)))) else None)"
    using b by (simp add: p_xword_m m_xword_exact)
  show "p_xhalf bs hdr k = Inr (if k + 2 \<le> length (hdr @ concat (buflet_bytes bs))
      then Some (rd16 (drop k (hdr @ concat (buflet_bytes bs)))) else None)"
    using b n by (simp add: p_xhalf_m m_xhalf_exact)
  show "p_xbyte bs hdr k = Inr (if k < length (hdr @ concat (buflet_bytes bs))
      then Some ((hdr @ concat (buflet_bytes bs)) ! k) else None)"
    using b n by (simp add: p_xbyte_m m_xbyte_exact)
qed

text \<open>The bytes of a packet, and the packets whose words span at most two pieces.\<close>

definition bp_content :: "bpf_packet \<Rightarrow> byte list" where
  "bp_content bp = bpfp_header bp @
     (case bpfp_u bp of
        BPF_PACKET_TYPE_MBUF m \<Rightarrow> concat m
      | BPF_PACKET_TYPE_PKT bs \<Rightarrow> concat (buflet_bytes bs)
      | BPF_PACKET_TYPE_OTHER \<Rightarrow> [])"

definition bp_ok :: "bpf_packet \<Rightarrow> bool" where
  "bp_ok bp \<longleftrightarrow>
     (case bpfp_u bp of
        BPF_PACKET_TYPE_MBUF m \<Rightarrow> mbufs_ok m
      | BPF_PACKET_TYPE_PKT bs \<Rightarrow> buflets_ok bs
      | BPF_PACKET_TYPE_OTHER \<Rightarrow> False)"

lemma miss_zero [simp]:
  "(k > 0 \<or> 4 > 0 - (k::u32)) = True" "(k > 0 \<or> 2 > 0 - (k::u32)) = True" "((0::u32) \<le> k) = True"
  using miss_word [of 0 k] miss_half [of 0 k] by simp_all

lemma flat_loads:
  assumes "bp_ok bp" "p = bp_content bp" "unat n = length p" "n \<noteq> 0"
  shows "load_word p bp' n (k > n \<or> 4 > n - k) k = load_word q bp 0 True k"
    and "load_half p bp' n (k > n \<or> 2 > n - k) k = load_half q bp 0 True k"
    and "load_byte p bp' n (k \<ge> n) k = load_byte q bp 0 True k"
  using assms mbufs.flat_word [of _ p "bpfp_header bp" n bp' k] mbufs.flat_half [of _ p "bpfp_header bp" n bp' k]
    mbufs.flat_byte [of _ p "bpfp_header bp" n bp' k] buflets.flat_word [of _ p "bpfp_header bp" n bp' k]
    buflets.flat_half [of _ p "bpfp_header bp" n bp' k] buflets.flat_byte [of _ p "bpfp_header bp" n bp' k]
  by (cases "bpfp_u bp"; simp add: bp_ok_def bp_content_def load_word_def [of q] load_half_def [of q] load_byte_def [of q]
      bp_xword_def bp_xhalf_def bp_xbyte_def)+

text \<open>
  The programs whose indirect loads do not wrap: those without indirect loads, and those
  that load into \<open>X\<close> only the length of an IP header or a constant below \<open>2 ^ 31\<close> and have no
  larger offset in an indirect load.
\<close>

definition direct :: "bpf_insn \<Rightarrow> bool" where
  "direct pc \<longleftrightarrow> bi_code pc \<notin> {BPF_LD OR BPF_W OR BPF_IND, BPF_LD OR BPF_H OR BPF_IND, BPF_LD OR BPF_B OR BPF_IND}"

definition tame :: "bpf_insn \<Rightarrow> bool" where
  "tame pc \<longleftrightarrow> bi_code pc \<notin> {BPF_LDX OR BPF_W OR BPF_LEN, BPF_LDX OR BPF_MEM, BPF_MISC OR BPF_TAX} \<and>
     (\<not> direct pc \<or> bi_code pc = BPF_LDX OR BPF_IMM \<longrightarrow> unat (bi_k pc) < 2 ^ 31)"

definition no_wrap :: "bpf_insn \<Rightarrow> bpf_regs \<Rightarrow> bool" where
  "no_wrap pc r \<longleftrightarrow> direct pc \<or> unat (reg_X r) + unat (bi_k pc) < 2 ^ 32"

lemma miss_ind:
  assumes "unat x + unat k < 2 ^ 32"
  shows "(k > n \<or> x > n - k \<or> 4 > n - (x + k)) = (x + k > n \<or> 4 > n - (x + (k::u32)))"
    and "(x > n \<or> k > n - x \<or> 2 > n - (x + k)) = (x + k > n \<or> 2 > n - (x + k))"
    and "(k \<ge> n \<or> x \<ge> n - k) = (x + k \<ge> n)"
proof -
  have u: "unat (x + k) = unat x + unat k" using assms by (simp add: unat_word_ariths)
  show "(k > n \<or> x > n - k \<or> 4 > n - (x + k)) = (x + k > n \<or> 4 > n - (x + k))" unfolding miss_word miss_ind_word u ..
  show "(x > n \<or> k > n - x \<or> 2 > n - (x + k)) = (x + k > n \<or> 2 > n - (x + k))" unfolding miss_half miss_ind_half u ..
  show "(k \<ge> n \<or> x \<ge> n - k) = (x + k \<ge> n)" unfolding miss_ind_byte by (simp add: u word_le_nat_alt not_less)
qed

lemma bpf_switch_flat:
  assumes "bp_ok bp" "p = bp_content bp" "unat n = length p" "n \<noteq> 0" "no_wrap pc r"
  shows "bpf_switch p bp' wirelen n pc r = bpf_switch q bp wirelen 0 pc r"
proof -
  note f = flat_loads [OF assms(1-4), of bp' "bi_k pc" q]
  have e: "bpf_ld p bp' wirelen n pc r = bpf_ld q bp wirelen 0 pc r"
  proof (cases "direct pc")
    case True
    then show ?thesis unfolding bpf_ld_def Let_def f miss_zero by (simp add: direct_def)
  next
    case False
    with assms(5) have w: "unat (reg_X r) + unat (bi_k pc) < 2 ^ 32" by (simp add: no_wrap_def)
    note f' = flat_loads [OF assms(1-4), of bp' "reg_X r + bi_k pc" q]
    show ?thesis unfolding bpf_ld_def Let_def f miss_ind [OF w] f' miss_zero by simp
  qed
  show ?thesis unfolding bpf_switch_def e ..
qed

text \<open>A tame instruction leaves \<open>X\<close> small.\<close>

lemma tame_X:
  assumes "bpf_switch p bp wirelen n pc r = Inr (Continue m r')" "tame pc" "unat (reg_X r) < 2 ^ 31"
  shows "unat (reg_X r') < 2 ^ 31"
proof -
  have msh: "unat (push_bit 2 (x AND 0xf) :: u32) < 2147483648" for x :: u32
  proof -
    have "push_bit 2 (x AND 0xf) AND 0x3c = push_bit 2 (x AND 0xf)"
      by (rule bit_word_eqI) (auto simp: bit_simps)
    then have "push_bit 2 (x AND 0xf) \<le> (0x3c :: u32)" by (metis word_and_le1)
    then show ?thesis by (simp add: word_le_nat_alt)
  qed
  show ?thesis
    using assms msh
    by (auto simp: bpf_switch_def bpf_misc_def bpf_ld_def bpf_st_def bpf_jmp_def bpf_alu_def branch_def shift_def set_A_def set_X_def
        tame_def Let_def bind_r_Inr_iff split: option.splits if_splits)
qed

lemma bpf_run_flat:
  assumes "bp_ok bp" "p = bp_content bp" "unat n = length p" "n \<noteq> 0"
    "list_all direct prog \<or> list_all tame prog \<and> unat (reg_X r) < 2 ^ 31"
  shows "bpf_run prog p bp' wirelen n pc r = bpf_run prog q bp wirelen 0 pc r"
  using assms
proof (induction prog p bp' wirelen n pc r rule: bpf_run.induct)
  case (1 prog p bp' wirelen n pc r)
  show ?case
  proof (cases "pc < length prog")
    case True
    then have d: "no_wrap (prog ! pc) r" using "1.prems"(5)
      by (auto simp: no_wrap_def tame_def list_all_length dest!: spec [of _ pc])
    have e: "bpf_switch p bp' wirelen n (prog ! pc) r = bpf_switch q bp wirelen 0 (prog ! pc) r"
      by (rule bpf_switch_flat [OF "1.prems"(1-4) d])
    have ih: "bpf_run prog p bp' wirelen n (pc + m + 1) r' = bpf_run prog q bp wirelen 0 (pc + m + 1) r'"
      if c: "bpf_switch q bp wirelen 0 (prog ! pc) r = Inr (Continue m r')" for m r'
    proof -
      have "list_all direct prog \<or> list_all tame prog \<and> unat (reg_X r') < 2 ^ 31"
        using "1.prems"(5) tame_X [OF c] True by (auto simp: list_all_length)
      then show ?thesis by (intro "1.IH" [OF _ _ _ "1.prems"(1-4)]) (use True c e in simp_all)
    qed
    show ?thesis unfolding bpf_run.simps [of prog p bp' wirelen n pc] bpf_run.simps [of prog q bp wirelen 0 pc] e
      using ih by (auto intro!: bind_r_cong split: bpf_out.split)
  qed (simp add: bpf_run.simps)
qed


text \<open>A filter for the destination port behind an IP header of any length.\<close>

definition ex_port :: "bpf_insn list" where
  "ex_port =
     [BPF_STMT (BPF_LDX OR BPF_B OR BPF_MSH) 4,
      BPF_STMT (BPF_LD OR BPF_H OR BPF_IND) 0,
      BPF_JUMP (BPF_JMP OR BPF_JEQ OR BPF_K) 0x101 0 1,
      BPF_STMT (BPF_RET OR BPF_K) 96,
      BPF_STMT (BPF_RET OR BPF_K) 0]"


lemmas bpf_exec_simps = bpf_filter_def bpf_run.simps bpf_switch_def bpf_misc_def bpf_ld_def set_A_def set_X_def

definition wrap_prog :: "bpf_insn list" where
  "wrap_prog =
     [BPF_STMT (BPF_LDX OR BPF_IMM) 0xffffffff, BPF_STMT (BPF_LD OR BPF_B OR BPF_IND) 1, BPF_STMT (BPF_RET OR BPF_A) 0]"

text \<open>
  Indirect loads are the exception. The sum of the index register and
  the offset is taken with 32 bits, and only the tests for the contiguous buffer notice that
  it wrapped: on a packet in pieces the byte at the wrapped offset is loaded, where the
  contiguous copy is rejected. The program passes the validation.
\<close>

theorem indirect_load_wraps:
  assumes "m \<noteq> []" "concat m = b # bs" "length (b # bs) < 2 ^ 32"
  shows "bpf_validate 0x80000 wrap_prog \<and>
         bpf_filter (Some wrap_prog) q \<lparr>bpfp_header = [], bpfp_u = BPF_PACKET_TYPE_MBUF m, bpfp_total_length = l\<rparr> wirelen 0 = Inr (ucast b) \<and>
         bpf_filter (Some wrap_prog) (b # bs) bp wirelen (of_nat (length (b # bs))) = Inr 0"
proof -
  have v: "bpf_validate 0x80000 wrap_prog" unfolding wrap_prog_def by code_simp
  have x: "m_xbyte m [] 0 = Inr (Some b)" using m_xbyte_exact [OF assms(1), of "[]" 0] assms(2) by simp
  then have "bpf_filter (Some wrap_prog) q \<lparr>bpfp_header = [], bpfp_u = BPF_PACKET_TYPE_MBUF m, bpfp_total_length = l\<rparr> wirelen 0 = Inr (ucast b)"
    by (simp add: wrap_prog_def BPF_STMT_def bpf_exec_simps load_byte_def bp_xbyte_def)
  moreover define n :: u32 where "n = of_nat (length (b # bs))"
  have "n \<noteq> 0" using unat_of_nat_u32 [of "length (b # bs)"] assms(3) by (auto simp: n_def)
  moreover have "unat (n - 1) < 2 ^ LENGTH(32)" by (rule unsigned_less)
  then have "n - 1 \<le> 0xffffffff" by (simp add: word_le_nat_alt)
  then have "bpf_filter (Some wrap_prog) (b # bs) bp wirelen n = Inr 0" using \<open>n \<noteq> 0\<close>
    by (simp add: wrap_prog_def BPF_STMT_def bpf_exec_simps load_byte_def)
  ultimately show ?thesis using v by (simp add: n_def)
qed

theorem indirect_load_wraps_witness:
  "bpf_filter (Some wrap_prog) [] \<lparr>bpfp_header = [], bpfp_u = BPF_PACKET_TYPE_MBUF [[7]], bpfp_total_length = 1\<rparr> 1 0 = Inr 7 \<and>
   bpf_filter (Some wrap_prog) [7] ex_packet 1 1 = Inr 0"
  using indirect_load_wraps [of "[[7]]" 7 "[]" "[]" 1 1 ex_packet] by simp

text \<open>
  A half-word that begins in the last byte of an mbuf is completed from the
  next mbuf without a look at its length: when that is empty, the byte read is not data of
  the packet. The reader of Skywalk packets has the test.
\<close>

theorem half_overrun:
  "m_xhalf (m @ [as @ [a], []] @ rest) hdr (length hdr + length (concat m) + length as) = Inl OutOfBounds \<and>
   p_xhalf (map (\<lambda>d. Buflet (length d) (Some d)) (m @ [as @ [a], []] @ rest)) hdr
     (length hdr + length (concat m) + length as) = Inr None"
proof -
  have m: "m_walk (m @ [as @ [a], []] @ rest) (length (concat m) + length as) = Inr (Some ([a], [] # rest, length as, Suc (length as)))"
    by (induction m) auto
  have p: "p_walk (map (\<lambda>d. Buflet (length d) (Some d)) (m @ [as @ [a], []] @ rest)) (length (concat m) + length as) =
      Some (Buflet (Suc (length as)) (Some (as @ [a])), map (\<lambda>d. Buflet (length d) (Some d)) ([] # rest), length as)"
    by (induction m) auto
  show ?thesis using m p by (simp add: m_xhalf_def m_hdr_offset_def p_xhalf_def p_hdr_offset_def bytes_at_def)
qed

end
