(* ===== verification/Bpfdev.thy ===== *)
theory Bpfdev
  imports Filtering
begin

text \<open>
  The packet filter device (\<open>src/bsd/net/bpf.c\<close>, \<open>src/bsd/net/bpfdesc.h\<close>): a descriptor stores
  the packets its filter accepts in a store buffer while a process reads the hold buffer, and
  the two are exchanged (\<open>ROTATE_BUFFERS\<close>). The record \<open>bpf_d\<close> is \<open>struct bpf_d\<close>; a buffer is
  \<open>None\<close> (\<open>NULL\<close>) or its bytes. Each definition is what a function does while it holds
  \<open>bpf_mlock\<close>; where \<open>bpfread\<close> sleeps or releases the lock, the part behind is a definition of
  its own, so that other threads run in between.

  Descriptors with an extended header (\<open>BPF_EXTENDED_HDR\<close>) or for pktap are not modelled, nor
  are signals and knotes; \<open>bd_wakeups\<close> counts the wakeups.
\<close>

section \<open>Descriptors\<close>

abbreviation (input) BPF_IDLE :: nat where "BPF_IDLE \<equiv> 0"
abbreviation (input) BPF_WAITING :: nat where "BPF_WAITING \<equiv> 1"
abbreviation (input) BPF_TIMED_OUT :: nat where "BPF_TIMED_OUT \<equiv> 2"
abbreviation (input) BPF_DRAINING :: nat where "BPF_DRAINING \<equiv> 3"

abbreviation (input) EINTR :: int where "EINTR \<equiv> 4"
abbreviation (input) ENXIO :: int where "ENXIO \<equiv> 6"
abbreviation (input) EINVAL :: int where "EINVAL \<equiv> 22"
abbreviation (input) EWOULDBLOCK :: int where "EWOULDBLOCK \<equiv> 35"
abbreviation (input) ERESTART :: int where "ERESTART \<equiv> -1"

record bpf_d =
  bd_sbuf :: "byte list option"
  bd_hbuf :: "byte list option"
  bd_fbuf :: "byte list option"
  bd_slen :: nat
  bd_hlen :: nat
  bd_scnt :: u32
  bd_hcnt :: u32
  bd_bufsize :: nat
  bd_hbuf_read :: bool
  bd_headdrop :: bool
  bd_bif :: "nat option"
  bd_rtout :: u32
  bd_filter :: "bpf_insn list option"
  bd_rcount :: u32
  bd_dcount :: u32
  bd_state :: nat
  bd_immediate :: bool
  bd_seesent :: bool
  bd_closing :: bool
  bd_wakeups :: nat

text \<open>\<open>bd_bif\<close> is the length of the header, \<open>bif_hdrlen\<close>, of the interface attached.\<close>

definition BPF_WORDALIGN :: "nat \<Rightarrow> nat" where
  "BPF_WORDALIGN x = (x + 3) div 4 * 4"

definition ROTATE_BUFFERS :: "bpf_d \<Rightarrow> bpf_d result" where
  "ROTATE_BUFFERS d =
     (if bd_hbuf_read d then Inl Panic
      else Inr (d\<lparr>bd_hbuf := bd_sbuf d, bd_hlen := bd_slen d, bd_hcnt := bd_scnt d,
                  bd_sbuf := bd_fbuf d, bd_slen := 0, bd_scnt := 0, bd_fbuf := None\<rparr>))"

definition bpf_wakeup :: "bpf_d \<Rightarrow> bpf_d" where
  "bpf_wakeup d =
     (let d1 = (if bd_state d = BPF_WAITING then d\<lparr>bd_state := BPF_IDLE\<rparr> else d)
      in d1\<lparr>bd_wakeups := Suc (bd_wakeups d1)\<rparr>)"

definition bpf_timed_out :: "bpf_d \<Rightarrow> bpf_d" where
  "bpf_timed_out d =
     (if bd_state d = BPF_WAITING then
        let d1 = d\<lparr>bd_state := BPF_TIMED_OUT\<rparr> in if bd_slen d1 \<noteq> 0 then bpf_wakeup d1 else d1
      else if bd_state d = BPF_DRAINING then bpf_wakeup (d\<lparr>bd_state := BPF_IDLE\<rparr>)
      else d)"

definition reset_d :: "bpf_d \<Rightarrow> bpf_d result" where
  "reset_d d =
     (if bd_hbuf_read d then Inl Panic
      else let d1 = (if bd_hbuf d \<noteq> None then d\<lparr>bd_fbuf := bd_hbuf d, bd_hbuf := None\<rparr> else d)
           in Inr (d1\<lparr>bd_slen := 0, bd_hlen := 0, bd_scnt := 0, bd_hcnt := 0, bd_rcount := 0, bd_dcount := 0\<rparr>))"

text \<open>The fresh memory of \<open>kalloc_data\<close> is an argument.\<close>

definition bpf_allocbufs :: "byte list \<Rightarrow> byte list \<Rightarrow> bpf_d \<Rightarrow> bpf_d" where
  "bpf_allocbufs mem1 mem2 d =
     d\<lparr>bd_hbuf := None, bd_fbuf := Some (take (bd_bufsize d) mem1), bd_sbuf := Some (take (bd_bufsize d) mem2),
       bd_slen := 0, bd_hlen := 0, bd_scnt := 0, bd_hcnt := 0\<rparr>"

text \<open>
  \<open>None\<close>: a read is in progress and the caller sleeps. \<open>bf_insns\<close> is the null address or what
  \<open>copyin\<close> of a number of instructions from it gives, \<open>None\<close> when it fails; \<open>setf\<close> tells
  \<open>BIOCSETF\<close> from \<open>BIOCSETFNR\<close>.
\<close>

definition bpf_setf ::
    "u32 \<Rightarrow> nat \<Rightarrow> (nat \<Rightarrow> bpf_insn list option) option \<Rightarrow> bool \<Rightarrow> bpf_d \<Rightarrow> (int \<times> bpf_d) result option" where
  "bpf_setf bpf_maxbufsize bf_len bf_insns setf d =
     (if bd_hbuf_read d then None
      else Some (
        if bd_closing d then Inr (ENXIO, d)
        else case bf_insns of
               None \<Rightarrow>
                 if bf_len \<noteq> 0 then Inr (EINVAL, d)
                 else bind_r (reset_d (d\<lparr>bd_filter := None\<rparr>)) (\<lambda>d1. Inr (0, d1))
             | Some copyin \<Rightarrow>
                 if bf_len > BPF_MAXINSNS then Inr (EINVAL, d)
                 else case copyin bf_len of
                        None \<Rightarrow> Inr (EINVAL, d)
                      | Some fcode \<Rightarrow>
                          if bpf_validate bpf_maxbufsize fcode then
                            bind_r (if setf then reset_d (d\<lparr>bd_filter := Some fcode\<rparr>) else Inr (d\<lparr>bd_filter := Some fcode\<rparr>))
                              (\<lambda>d1. Inr (0, d1))
                          else Inr (EINVAL, d)))"

section \<open>Capture\<close>

fun bpf_mcopy :: "byte list list \<Rightarrow> nat \<Rightarrow> byte list result" where
  "bpf_mcopy [] len = (if len = 0 then Inr [] else Inl Panic)"
| "bpf_mcopy (b # ms) len =
     (if len = 0 then Inr []
      else bind_r (bpf_mcopy ms (len - min (length b) len)) (\<lambda>r. Inr (take (min (length b) len) b @ r)))"

fun bpf_pktcopy :: "buflet list \<Rightarrow> nat \<Rightarrow> byte list result" where
  "bpf_pktcopy [] len = (if len = 0 then Inr [] else Inl Panic)"
| "bpf_pktcopy (b # bs) len =
     (if len = 0 then Inr []
      else case bl_data b of
             None \<Rightarrow> Inl Panic
           | Some addr \<Rightarrow>
               bind_r (bytes_at addr 0 (min (bl_len b) len)) (\<lambda>x.
               bind_r (bpf_pktcopy bs (len - min (bl_len b) len)) (\<lambda>r. Inr (x @ r))))"

definition copy_bpf_packet :: "bpf_packet \<Rightarrow> nat \<Rightarrow> byte list result" where
  "copy_bpf_packet pkt len =
     (let hdr = bpfp_header pkt; count = min len (length hdr); len' = len - count
      in if len' = 0 then Inr (take count hdr)
         else bind_r (case bpfp_u pkt of
                        BPF_PACKET_TYPE_MBUF m \<Rightarrow> bpf_mcopy m len'
                      | BPF_PACKET_TYPE_PKT bs \<Rightarrow> bpf_pktcopy bs len'
                      | BPF_PACKET_TYPE_OTHER \<Rightarrow> Inr [])
                (\<lambda>r. Inr (take count hdr @ r)))"

text \<open>A write of bytes at an offset of a buffer.\<close>

definition store_at :: "nat \<Rightarrow> byte list \<Rightarrow> byte list option \<Rightarrow> byte list option result" where
  "store_at off bs buf =
     (case buf of
        None \<Rightarrow> Inl NullDeref
      | Some b \<Rightarrow> if off + length bs \<le> length b then Inr (Some (take off b @ bs @ drop (off + length bs) b))
                  else Inl OutOfBounds)"

definition le32_bytes :: "u32 \<Rightarrow> byte list" where "le32_bytes w = rev (be32 w)"
definition le16_bytes :: "u16 \<Rightarrow> byte list" where "le16_bytes w = rev (be16 w)"

text \<open>The \<open>struct bpf_hdr\<close> with a time stamp, as it lies in memory.\<close>

definition bpf_hdr :: "u32 \<times> u32 \<Rightarrow> nat \<Rightarrow> nat \<Rightarrow> nat \<Rightarrow> byte list" where
  "bpf_hdr tv caplen datalen hdrlen =
     le32_bytes (fst tv) @ le32_bytes (snd tv) @ le32_bytes (of_nat caplen) @ le32_bytes (of_nat datalen) @
     le16_bytes (of_nat hdrlen)"

text \<open>
  The first half of \<open>catchpacket\<close>: the offset where the packet goes, and whether to wake up
  the reader; \<open>None\<close> when the packet is dropped.
\<close>

definition catch_room :: "nat \<Rightarrow> bpf_d \<Rightarrow> (bpf_d \<times> (nat \<times> bool) option) result" where
  "catch_room totlen d =
     (let curlen = BPF_WORDALIGN (bd_slen d)
      in if curlen + totlen > bd_bufsize d then
           (if bd_hbuf_read d then Inr (d\<lparr>bd_dcount := bd_dcount d + 1\<rparr>, None)
            else if bd_fbuf d = None then
              (if \<not> bd_headdrop d then Inr (d\<lparr>bd_dcount := bd_dcount d + 1\<rparr>, None)
               else bind_r (ROTATE_BUFFERS (d\<lparr>bd_dcount := bd_dcount d + bd_hcnt d, bd_fbuf := bd_hbuf d\<rparr>))
                      (\<lambda>d1. Inr (d1, Some (0, True))))
            else bind_r (ROTATE_BUFFERS d) (\<lambda>d1. Inr (d1, Some (0, True))))
         else Inr (d, Some (curlen, bd_immediate d \<or> bd_state d = BPF_TIMED_OUT)))"

definition catch_store ::
    "bpf_packet \<Rightarrow> u32 \<times> u32 \<Rightarrow> nat \<Rightarrow> nat \<Rightarrow> nat \<Rightarrow> bool \<Rightarrow> bpf_d \<Rightarrow> bpf_d result" where
  "catch_store pkt tv hdrlen totlen curlen do_wakeup d =
     (let caplen = totlen - hdrlen
      in bind_r (store_at curlen (bpf_hdr tv caplen (bpfp_total_length pkt) hdrlen) (bd_sbuf d)) (\<lambda>b1.
         bind_r (copy_bpf_packet pkt caplen) (\<lambda>payload.
         bind_r (store_at (curlen + hdrlen) payload b1) (\<lambda>b2.
         let d1 = d\<lparr>bd_sbuf := b2, bd_slen := curlen + totlen, bd_scnt := bd_scnt d + 1\<rparr>
         in Inr (if do_wakeup then bpf_wakeup d1 else d1)))))"

definition catchpacket :: "bpf_packet \<Rightarrow> u32 \<Rightarrow> u32 \<times> u32 \<Rightarrow> bpf_d \<Rightarrow> bpf_d result" where
  "catchpacket pkt snaplen tv d =
     (case bd_bif d of
        None \<Rightarrow> Inl NullDeref
      | Some hdrlen \<Rightarrow>
          let totlen = min (hdrlen + min (unat snaplen) (bpfp_total_length pkt)) (bd_bufsize d)
          in if hdrlen > totlen then Inr d
             else bind_r (catch_room totlen d) (\<lambda>(d1, room).
                  case room of
                    None \<Rightarrow> Inr d1
                  | Some (curlen, do_wakeup) \<Rightarrow> catch_store pkt tv hdrlen totlen curlen do_wakeup d1))"

text \<open>The body of the loop of \<open>bpf_tap_imp\<close>, and the loop over the descriptors of an interface.\<close>

definition bpf_tap_d :: "bpf_packet \<Rightarrow> bool \<Rightarrow> u32 \<times> u32 \<Rightarrow> bpf_d \<Rightarrow> bpf_d result" where
  "bpf_tap_d pkt outbound tv d =
     (if outbound \<and> \<not> bd_seesent d then Inr d
      else let d1 = d\<lparr>bd_rcount := bd_rcount d + 1\<rparr>
           in bind_r (bpf_filter (bd_filter d1) [] pkt (of_nat (bpfp_total_length pkt)) 0) (\<lambda>slen.
              if slen \<noteq> 0 then catchpacket pkt slen tv d1 else Inr d1))"

fun bpf_tap_imp :: "bpf_packet \<Rightarrow> bool \<Rightarrow> u32 \<times> u32 \<Rightarrow> bpf_d list \<Rightarrow> bpf_d list result" where
  "bpf_tap_imp pkt outbound tv [] = Inr []"
| "bpf_tap_imp pkt outbound tv (d # dlist) =
     bind_r (bpf_tap_d pkt outbound tv d) (\<lambda>d'.
     bind_r (bpf_tap_imp pkt outbound tv dlist) (\<lambda>ds. Inr (d' # ds)))"

section \<open>Reading\<close>

definition bpf_start_timer :: "bpf_d \<Rightarrow> bpf_d" where
  "bpf_start_timer d = (if bd_rtout d > 0 \<and> bd_state d = BPF_IDLE then d\<lparr>bd_state := BPF_WAITING\<rparr> else d)"

text \<open>
  \<open>bpfselect\<close> for \<open>FREAD\<close>; \<open>None\<close>: it sleeps until a read is over, and goes on with \<open>select_resume\<close>.
\<close>

definition select_read :: "bpf_d \<Rightarrow> int \<times> bpf_d" where
  "select_read d =
     (if bd_hlen d \<noteq> 0 \<or> ((bd_immediate d \<or> bd_state d = BPF_TIMED_OUT) \<and> bd_slen d \<noteq> 0) then (1, d)
      else (0, bpf_start_timer d))"

definition select_resume :: "bpf_d \<Rightarrow> (int \<times> bpf_d) option" where
  "select_resume d =
     (if bd_hbuf_read d then None
      else if bd_closing d then Some (ENXIO, d)
      else Some (select_read d))"

definition bpfselect :: "bpf_d \<Rightarrow> (int \<times> bpf_d) option" where
  "bpfselect d =
     (if bd_closing d then Some (ENXIO, d)
      else if bd_bif d = None then Some (ENXIO, d)
      else select_resume d)"

text \<open>
  Where a part of \<open>bpfread\<close> ends: it returns an error (0 for the end of a read without data),
  sleeps, or moves the bytes of the hold buffer to the process.
\<close>

datatype read_out = Errno int | Sleep | Move "byte list"

definition read_hold :: "bpf_d \<Rightarrow> (read_out \<times> bpf_d) result" where
  "read_hold d =
     bind_r (deref (bd_hbuf d) 0 (bd_hlen d)) (\<lambda>hbuf. Inr (Move hbuf, d\<lparr>bd_hbuf_read := True\<rparr>))"

text \<open>The loop up to its sleep.\<close>

definition read_loop :: "bool \<Rightarrow> bool \<Rightarrow> bpf_d \<Rightarrow> (read_out \<times> bpf_d) result" where
  "read_loop timed_out ndelay d =
     (if bd_hbuf d \<noteq> None then read_hold d
      else if (bd_immediate d \<or> timed_out \<or> ndelay) \<and> bd_slen d \<noteq> 0 then bind_r (ROTATE_BUFFERS d) read_hold
      else if bd_bif d = None then Inr (Errno ENXIO, d)
      else if ndelay then Inr (Errno EWOULDBLOCK, d)
      else Inr (Sleep, d))"

text \<open>Behind the sleep for a read in progress.\<close>

definition read_resume :: "bool \<Rightarrow> bool \<Rightarrow> bpf_d \<Rightarrow> (read_out \<times> bpf_d) result" where
  "read_resume timed_out ndelay d =
     (if bd_hbuf_read d then Inr (Sleep, d)
      else if bd_closing d then Inr (Errno ENXIO, d)
      else read_loop timed_out ndelay d)"

definition bpfread :: "nat \<Rightarrow> bool \<Rightarrow> bpf_d \<Rightarrow> (read_out \<times> bpf_d) result" where
  "bpfread resid ndelay d =
     (if bd_closing d then Inr (Errno ENXIO, d)
      else if resid \<noteq> bd_bufsize d then Inr (Errno EINVAL, d)
      else read_resume (bd_state d = BPF_TIMED_OUT) ndelay (d\<lparr>bd_state := BPF_IDLE\<rparr>))"

text \<open>Behind the sleep for data, with the result of the sleep.\<close>

definition read_woken :: "bool \<Rightarrow> bool \<Rightarrow> int \<Rightarrow> bpf_d \<Rightarrow> (read_out \<times> bpf_d) result" where
  "read_woken timed_out ndelay error d =
     (if bd_closing d then Inr (Errno ENXIO, d)
      else if bd_hbuf_read d then Inr (Sleep, d)
      else if error = EINTR \<or> error = ERESTART then
        (if bd_hbuf d \<noteq> None then read_hold d
         else if bd_slen d \<noteq> 0 then bind_r (ROTATE_BUFFERS d) read_hold
         else Inr (Errno EINTR, d))
      else if error = EWOULDBLOCK then
        (if bd_hbuf d \<noteq> None then read_hold d
         else if bd_slen d = 0 then Inr (Errno 0, d)
         else bind_r (ROTATE_BUFFERS d) read_hold)
      else read_loop timed_out ndelay d)"

text \<open>After the bytes have been moved.\<close>

definition read_done :: "bpf_d \<Rightarrow> bpf_d" where
  "read_done d =
     (if bd_closing d then d
      else d\<lparr>bd_hbuf_read := False, bd_fbuf := bd_hbuf d, bd_hbuf := None, bd_hlen := 0, bd_hcnt := 0\<rparr>)"

section \<open>Flushing and closing\<close>

text \<open>\<open>BIOCFLUSH\<close>; \<open>None\<close>: a read is in progress and the caller sleeps.\<close>

definition bpf_flush :: "bpf_d \<Rightarrow> (int \<times> bpf_d) result option" where
  "bpf_flush d =
     (if bd_hbuf_read d then None
      else Some (if bd_closing d then Inr (ENXIO, d) else bind_r (reset_d d) (\<lambda>d1. Inr (0, d1))))"

text \<open>What \<open>bpf_detachd\<close> does to the descriptor; the list of the interface is not modelled.\<close>

definition bpf_detachd :: "bpf_d \<Rightarrow> bpf_d" where
  "bpf_detachd d = (if bd_bif d \<noteq> None then d\<lparr>bd_bif := None\<rparr> else d)"

text \<open>
  \<open>bpfclose\<close> up to its sleeps: with \<open>Sleep\<close> it waits for a timeout that is running and goes on
  with \<open>close_drained\<close>, with \<open>Errno 0\<close> it goes on with \<open>close_free\<close>. The entry of the descriptor in
  \<open>bpf_dtab\<close> is reserved from the first call on. \<open>stopped\<close> is the result of \<open>bpf_stop_timer\<close>.
\<close>

definition bpfclose :: "bool \<Rightarrow> bpf_d \<Rightarrow> (read_out \<times> bpf_d) result" where
  "bpfclose stopped d =
     (if bd_closing d then Inr (Errno ENXIO, d)
      else let d1 = d\<lparr>bd_closing := True\<rparr>
           in if bd_state d1 = BPF_WAITING \<and> \<not> stopped then Inr (Sleep, d1\<lparr>bd_state := BPF_DRAINING\<rparr>)
              else if bd_state d1 = BPF_DRAINING then Inl Panic
              else Inr (Errno 0, bpf_detachd (d1\<lparr>bd_state := BPF_IDLE\<rparr>)))"

definition close_drained :: "bpf_d \<Rightarrow> read_out \<times> bpf_d" where
  "close_drained d =
     (if bd_state d = BPF_DRAINING then (Sleep, d) else (Errno 0, bpf_detachd (d\<lparr>bd_state := BPF_IDLE\<rparr>)))"

definition bpf_freed :: "bpf_d \<Rightarrow> bpf_d result" where
  "bpf_freed d =
     (if bd_hbuf_read d then Inl Panic
      else let d1 = (if bd_sbuf d \<noteq> None then d\<lparr>bd_sbuf := None, bd_hbuf := None, bd_fbuf := None\<rparr> else d)
           in Inr (d1\<lparr>bd_filter := None\<rparr>))"

text \<open>\<open>None\<close>: a read is in progress and \<open>bpfclose\<close> sleeps.\<close>

definition close_free :: "bpf_d \<Rightarrow> bpf_d result option" where
  "close_free d = (if bd_hbuf_read d then None else Some (bpf_freed d))"

end
