(* ===== verification/Capture.thy ===== *)
theory Capture
  imports Bpfdev "HOL-Library.Sublist"
begin

text \<open>
  The packet filter device as a queue: what a process reads from a descriptor are the packets
  its filter accepted, in order, each behind its header; the packets that found no room are
  counted. The panics of the buffer handling cannot happen.
\<close>

section \<open>Records in a buffer\<close>

text \<open>
  What a reader finds in the bytes of a buffer: the captured bytes behind each header, the
  next one at a multiple of four.
\<close>

function bpf_records :: "byte list \<Rightarrow> nat \<Rightarrow> byte list list result" where
  "bpf_records b off =
     (if off \<ge> length b then Inr []
      else bind_r (ld32 b (off + 8)) (\<lambda>caplen.
           bind_r (ld16 b (off + 16)) (\<lambda>hdrlen.
           bind_r (bytes_at b (off + unat hdrlen) (unat caplen)) (\<lambda>p.
           if BPF_WORDALIGN (unat hdrlen + unat caplen) = 0 then Inl Diverge
           else bind_r (bpf_records b (off + BPF_WORDALIGN (unat hdrlen + unat caplen))) (\<lambda>r. Inr (p # r))))))"
  by pat_completeness auto
termination by (relation "measure (\<lambda>(b, off). length b - off)") auto

declare bpf_records.simps [simp del]

lemma align_ge: "x \<le> BPF_WORDALIGN x"
  unfolding BPF_WORDALIGN_def by presburger

lemma align_dvd [simp]: "4 dvd BPF_WORDALIGN x"
  by (simp add: BPF_WORDALIGN_def)

lemma align_less: "BPF_WORDALIGN x < x + 4"
  unfolding BPF_WORDALIGN_def by presburger

lemma align_least: "x \<le> y \<Longrightarrow> 4 dvd y \<Longrightarrow> BPF_WORDALIGN x \<le> y"
  unfolding BPF_WORDALIGN_def by presburger

lemma align_add: "4 dvd a \<Longrightarrow> BPF_WORDALIGN (a + x) = a + BPF_WORDALIGN x"
  unfolding BPF_WORDALIGN_def by presburger

lemma align_0 [simp]: "BPF_WORDALIGN 0 = 0"
  by (simp add: BPF_WORDALIGN_def)

lemma align_pos: "0 < x \<Longrightarrow> 0 < BPF_WORDALIGN x"
  using align_ge [of x] by linarith

lemma ld_le_bytes:
  "off = length a \<Longrightarrow> ld32 (a @ le32_bytes w @ b) off = Inr w"
  "off = length a \<Longrightarrow> ld16 (a @ le16_bytes v @ b) off = Inr v"
  using rd32_be32 [of w "[]"] rd16_be16 [of v "[]"]
  by (simp_all add: ld32_def ld16_def bytes_at_def le32_bytes_def le16_bytes_def le32_def)

lemma length_bpf_hdr [simp]: "length (bpf_hdr tv c l h) = 18"
  by (simp add: bpf_hdr_def le32_bytes_def le16_bytes_def)

lemma bpf_hdr_fields:
  assumes "off = length a"
  shows "ld32 (a @ bpf_hdr tv c l h @ b) (off + 8) = Inr (of_nat c)"
    and "ld16 (a @ bpf_hdr tv c l h @ b) (off + 16) = Inr (of_nat h)"
proof -
  have len: "length (le32_bytes w) = 4" for w by (simp add: le32_bytes_def)
  show "ld32 (a @ bpf_hdr tv c l h @ b) (off + 8) = Inr (of_nat c)"
    using ld_le_bytes(1) [of "off + 8" "a @ le32_bytes (fst tv) @ le32_bytes (snd tv)" "of_nat c"] assms
    by (simp add: bpf_hdr_def len)
  show "ld16 (a @ bpf_hdr tv c l h @ b) (off + 16) = Inr (of_nat h)"
    using ld_le_bytes(2) [of "off + 16" "a @ le32_bytes (fst tv) @ le32_bytes (snd tv) @ le32_bytes (of_nat c) @ le32_bytes (of_nat l)"] assms
    by (simp add: bpf_hdr_def len)
qed

text \<open>A record as \<open>catchpacket\<close> writes it: header, space, bytes.\<close>

definition record_bytes :: "byte list \<Rightarrow> byte list \<Rightarrow> nat \<Rightarrow> byte list \<Rightarrow> bool" where
  "record_bytes r p h sp \<longleftrightarrow> (\<exists>tv l. r = bpf_hdr tv (length p) l h @ sp @ p \<and> h = 18 + length sp)"

text \<open>A record behind the aligned end of a buffer of records is one record more.\<close>

lemma bpf_records_snoc:
  assumes "bpf_records b off = Inr rs" "4 dvd off" "off \<le> BPF_WORDALIGN (length b)"
    "length (b @ pad) = BPF_WORDALIGN (length b)" "record_bytes r p h sp" "h < 2 ^ 16" "length p < 2 ^ 32"
  shows "bpf_records (b @ pad @ r) off = Inr (rs @ [p])"
  using assms
proof (induction b off arbitrary: rs rule: bpf_records.induct)
  case (1 b off)
  show ?case
  proof (cases "length b \<le> off")
    case True
    have off: "off = length (b @ pad)" using align_least [OF True "1.prems"(2)] "1.prems"(3,4) by simp
    obtain tv l where r: "r = bpf_hdr tv (length p) l h @ sp @ p" and h: "h = 18 + length sp"
      using "1.prems"(5) unfolding record_bytes_def by blast
    have n: "unat (of_nat h :: u16) = h" "unat (of_nat (length p) :: u32) = length p"
      using "1.prems"(6,7) by (simp_all add: unat_of_nat)
    have adv: "0 < BPF_WORDALIGN (h + length p)" "length (b @ pad @ r) \<le> off + BPF_WORDALIGN (h + length p)"
      using align_ge [of "h + length p"] h off r by auto
    have bs: "bytes_at (b @ pad @ r) (off + h) (length p) = Inr p" using off r h by (simp add: bytes_at_def)
    have fin: "bpf_records (b @ pad @ r) (off + BPF_WORDALIGN (h + length p)) = Inr []"
      using adv(2) by (subst bpf_records.simps) simp
    have "\<not> length (b @ pad @ r) \<le> off" using off r by simp
    with bpf_hdr_fields [OF off, of tv "length p" l h "sp @ p"] bs fin adv(1) n r True "1.prems"(1)
    show ?thesis by (subst bpf_records.simps) (simp add: bpf_records.simps [of b off])
  next
    case False
    then obtain c h' p' rs' where c: "ld32 b (off + 8) = Inr c" "ld16 b (off + 16) = Inr h'"
      "bytes_at b (off + unat h') (unat c) = Inr p'" "BPF_WORDALIGN (unat h' + unat c) \<noteq> 0"
      "bpf_records b (off + BPF_WORDALIGN (unat h' + unat c)) = Inr rs'" "rs = p' # rs'"
      using "1.prems"(1) by (subst (asm) bpf_records.simps) (auto simp: res_simps split: if_splits)
    have c': "ld32 (b @ pad @ r) (off + 8) = Inr c" "ld16 (b @ pad @ r) (off + 16) = Inr h'"
      "bytes_at (b @ pad @ r) (off + unat h') (unat c) = Inr p'"
      using c le_r_D ld_append bytes_at_append by metis+
    have "off + unat h' + unat c \<le> length b" using c(3) by (auto simp: bytes_at_def split: if_splits)
    then have "off + BPF_WORDALIGN (unat h' + unat c) \<le> BPF_WORDALIGN (length b)"
      using align_add [OF "1.prems"(2), of "unat h' + unat c"] align_least align_ge align_dvd
      by (metis (no_types, lifting) add.assoc order_trans)
    with "1.IH" [OF False c(1-4) c(5) _ _ "1.prems"(4-7)] "1.prems"(2)
    have "bpf_records (b @ pad @ r) (off + BPF_WORDALIGN (unat h' + unat c)) = Inr (rs' @ [p])" by simp
    with c c' False show ?thesis by (subst bpf_records.simps) simp
  qed
qed

section \<open>The device invariant\<close>

text \<open>
  The records in the hold and in the store buffer, and those no read has taken yet.
\<close>

definition recs_in :: "byte list option \<Rightarrow> nat \<Rightarrow> byte list list" where
  "recs_in buf len = (case buf of None \<Rightarrow> [] | Some b \<Rightarrow>
     (case bpf_records (take len b) 0 of Inl e \<Rightarrow> [] | Inr rs \<Rightarrow> rs))"

definition held :: "bpf_d \<Rightarrow> byte list list" where
  "held d = recs_in (bd_hbuf d) (bd_hlen d)"

definition stored :: "bpf_d \<Rightarrow> byte list list" where
  "stored d = recs_in (bd_sbuf d) (bd_slen d)"

definition pending :: "bpf_d \<Rightarrow> byte list list" where
  "pending d = (if bd_hbuf_read d then [] else held d) @ stored d"

text \<open>
  A slot with its length and its count of packets: memory of the size of the buffers, with
  that many records in that many bytes.
\<close>

definition slot_ok :: "nat \<Rightarrow> byte list option \<Rightarrow> nat \<Rightarrow> u32 \<Rightarrow> bool" where
  "slot_ok sz buf len cnt \<longleftrightarrow>
     (\<exists>b rs. buf = Some b \<and> length b = sz \<and> len \<le> sz \<and> bpf_records (take len b) 0 = Inr rs \<and> cnt = of_nat (length rs))"

text \<open>
  The store slot is always occupied, of the hold and the free slot exactly one is; a read
  in progress has a hold buffer. The filter has been validated.
\<close>

definition dev_ok :: "bpf_d \<Rightarrow> bool" where
  "dev_ok d \<longleftrightarrow>
     slot_ok (bd_bufsize d) (bd_sbuf d) (bd_slen d) (bd_scnt d) \<and>
     (bd_hbuf d = None \<longrightarrow> \<not> bd_hbuf_read d \<and> bd_hlen d = 0 \<and> bd_hcnt d = 0 \<and>
        (\<exists>b. bd_fbuf d = Some b \<and> length b = bd_bufsize d)) \<and>
     (bd_hbuf d \<noteq> None \<longrightarrow> bd_fbuf d = None \<and> 0 < bd_hlen d \<and>
        slot_ok (bd_bufsize d) (bd_hbuf d) (bd_hlen d) (bd_hcnt d)) \<and>
     bd_bufsize d < 2 ^ 31 \<and>
     (\<forall>h. bd_bif d = Some h \<longrightarrow> 18 \<le> h \<and> h < 2 ^ 16 \<and> h \<le> bd_bufsize d) \<and>
     (\<forall>f. bd_filter d = Some f \<longrightarrow> (\<exists>maxb. bpf_validate maxb f))"

text \<open>A packet that the network gives to the tap.\<close>

definition tap_ok :: "bpf_packet \<Rightarrow> bool" where
  "tap_ok pkt \<longleftrightarrow> packet_ok [] pkt 0 \<and> bpfp_total_length pkt = length (bp_content pkt) \<and> bpfp_total_length pkt < 2 ^ 31"

lemma bpf_mcopy_take: "n \<le> length (concat m) \<Longrightarrow> bpf_mcopy m n = Inr (take n (concat m))"
proof (induction m arbitrary: n)
  case (Cons b m)
  then show ?case by (cases "n \<le> length b") (auto simp: min_def)
qed simp

lemma bpf_pktcopy_m:
  "list_all buflet_ok bs \<Longrightarrow> bpf_pktcopy bs n = bpf_mcopy (buflet_bytes bs) n"
proof (induction bs arbitrary: n)
  case (Cons b bs)
  obtain x where "b = Buflet (length x) (Some x)" using Cons.prems by (auto elim: buflet_okE)
  with Cons show ?case by (simp add: buflet_bytes_def bytes_at_def)
qed (simp add: buflet_bytes_def)

lemma copy_bpf_packet_take:
  assumes "tap_ok pkt" "n \<le> bpfp_total_length pkt"
  shows "copy_bpf_packet pkt n = Inr (take n (bp_content pkt))"
proof (cases "bpfp_u pkt")
  case (BPF_PACKET_TYPE_MBUF m)
  with assms bpf_mcopy_take [of "n - length (bpfp_header pkt)" m] show ?thesis
    by (auto simp: copy_bpf_packet_def Let_def tap_ok_def bp_content_def min_def)
next
  case (BPF_PACKET_TYPE_PKT bs)
  with assms bpf_mcopy_take [of "n - length (bpfp_header pkt)" "buflet_bytes bs"] show ?thesis
    by (auto simp: copy_bpf_packet_def Let_def tap_ok_def packet_ok_def bp_content_def bpf_pktcopy_m min_def)
next
  case BPF_PACKET_TYPE_OTHER
  with assms show ?thesis by (auto simp: copy_bpf_packet_def Let_def tap_ok_def bp_content_def)
qed

lemma catch_store_ok:
  assumes "slot_ok (bd_bufsize d) (bd_sbuf d) (bd_slen d) (bd_scnt d)" "tap_ok pkt" "18 \<le> h" "h < 2 ^ 16"
    "curlen = BPF_WORDALIGN (bd_slen d)" "h \<le> totlen" "totlen - h \<le> bpfp_total_length pkt" "curlen + totlen \<le> bd_bufsize d"
    "bd_bufsize d < 2 ^ 31"
  shows "\<exists>b2. slot_ok (bd_bufsize d) (Some b2) (curlen + totlen) (bd_scnt d + 1) \<and>
      bpf_records (take (curlen + totlen) b2) 0 = Inr (stored d @ [take (totlen - h) (bp_content pkt)]) \<and>
      catch_store pkt tv h totlen curlen w d =
        Inr (let d1 = d\<lparr>bd_sbuf := Some b2, bd_slen := curlen + totlen, bd_scnt := bd_scnt d + 1\<rparr>
             in if w then bpf_wakeup d1 else d1)"
proof -
  obtain s rs where s: "bd_sbuf d = Some s" "length s = bd_bufsize d" "bd_slen d \<le> bd_bufsize d"
    "bpf_records (take (bd_slen d) s) 0 = Inr rs" "bd_scnt d = of_nat (length rs)"
    using assms(1) by (auto simp: slot_ok_def)
  define p where "p = take (totlen - h) (bp_content pkt)"
  define hdr where "hdr = bpf_hdr tv (totlen - h) (bpfp_total_length pkt) h"
  define b pad sp where "b = take (bd_slen d) s" and "pad = take (curlen - bd_slen d) (drop (bd_slen d) s)"
    and "sp = take (h - 18) (drop (curlen + 18) s)"
  define b2 where "b2 = b @ pad @ (hdr @ sp @ p) @ drop (curlen + totlen) s"
  have cur: "bd_slen d \<le> curlen" using align_ge assms(5) by simp
  have len: "length p = totlen - h" "length hdr = 18" "length b = bd_slen d" "length pad = curlen - bd_slen d" "length sp = h - 18"
    using assms(2,3,6-8) s cur by (auto simp: p_def hdr_def b_def pad_def sp_def tap_ok_def)
  have front: "take curlen s = b @ pad" using cur unfolding b_def pad_def by (metis le_add_diff_inverse take_add)
  have 1: "store_at curlen hdr (Some s) = Inr (Some (b @ pad @ hdr @ drop (curlen + 18) s))"
    using len assms(3,6,8) s front by (simp add: store_at_def)
  have "take (curlen + h) (b @ pad @ hdr @ drop (curlen + 18) s) = b @ pad @ hdr @ sp"
    using len cur assms(3) by (simp add: sp_def)
  moreover have "drop (curlen + h + length p) (b @ pad @ hdr @ drop (curlen + 18) s) = drop (curlen + totlen) s"
    using len cur assms(3,6) by (simp add: add.commute)
  ultimately have 2: "store_at (curlen + h) p (Some (b @ pad @ hdr @ drop (curlen + 18) s)) = Inr (Some b2)"
    using len cur assms(3,6,8) s by (simp add: store_at_def b2_def)
  have "record_bytes (hdr @ sp @ p) p h sp" unfolding record_bytes_def hdr_def
    by (intro exI [of _ tv] exI [of _ "bpfp_total_length pkt"]) (use len assms(3) in simp)
  then have r: "bpf_records (b @ pad @ hdr @ sp @ p) 0 = Inr (rs @ [p])"
    using bpf_records_snoc [of b 0 rs pad "hdr @ sp @ p" p h sp] s(4) len cur assms(4,5,8,9) by (simp add: b_def)
  have t: "take (curlen + totlen) b2 = b @ pad @ hdr @ sp @ p" using len cur assms(3,6) by (simp add: b2_def)
  have "length b2 = bd_bufsize d" using len cur assms(3,6,8) s by (simp add: b2_def)
  with r t s(5) assms(8) have "slot_ok (bd_bufsize d) (Some b2) (curlen + totlen) (bd_scnt d + 1)"
    by (auto simp: slot_ok_def)
  moreover have "stored d = rs" using s by (simp add: stored_def recs_in_def)
  moreover have "catch_store pkt tv h totlen curlen w d =
        Inr (let d1 = d\<lparr>bd_sbuf := Some b2, bd_slen := curlen + totlen, bd_scnt := bd_scnt d + 1\<rparr>
             in if w then bpf_wakeup d1 else d1)"
    using 1 2 copy_bpf_packet_take [OF assms(2,7)] s(1) by (simp add: catch_store_def hdr_def p_def Let_def)
  ultimately show ?thesis using r t by (auto simp: p_def)
qed

lemma slot_ok_empty [simp]: "slot_ok sz (Some b) 0 0 \<longleftrightarrow> length b = sz"
  by (auto simp: slot_ok_def bpf_records.simps)

lemma records_empty [simp]: "bpf_records [] 0 = Inr []"
  by (simp add: bpf_records.simps)

lemma held_None [simp]: "bd_hbuf d = None \<Longrightarrow> held d = []"
  by (simp add: held_def recs_in_def)

lemma count_held: "dev_ok d \<Longrightarrow> bd_hcnt d = of_nat (length (held d))"
  by (cases "bd_hbuf d") (auto simp: dev_ok_def slot_ok_def held_def recs_in_def)

text \<open>The bytes of a packet that are kept.\<close>

definition snapshot :: "bpf_packet \<Rightarrow> u32 \<Rightarrow> bpf_d \<Rightarrow> byte list" where
  "snapshot pkt snaplen d =
     take (min (unat snaplen) (bd_bufsize d - (case bd_bif d of None \<Rightarrow> 0 | Some h \<Rightarrow> h))) (bp_content pkt)"

text \<open>
  How a packet \<open>p\<close> that the filter accepts changes a descriptor: it is queued; or, when the
  hold buffer has not been read yet, it is dropped and counted, or the packets of the hold
  buffer are dropped and counted in its place.
\<close>

definition caught :: "byte list \<Rightarrow> bpf_d \<Rightarrow> bpf_d \<Rightarrow> bool" where
  "caught p d d' \<longleftrightarrow>
     pending d' = pending d @ [p] \<and> bd_dcount d' = bd_dcount d \<or>
     bd_hbuf d \<noteq> None \<and> pending d' = pending d \<and> bd_dcount d' = bd_dcount d + 1 \<or>
     bd_hbuf d \<noteq> None \<and> bd_headdrop d \<and> \<not> bd_hbuf_read d \<and> pending d' = stored d @ [p] \<and>
       bd_dcount d' = bd_dcount d + of_nat (length (held d))"

text \<open>What no event but the read itself changes while a read is in progress.\<close>

definition same_hold :: "bpf_d \<Rightarrow> bpf_d \<Rightarrow> bool" where
  "same_hold d d' \<longleftrightarrow> bd_hbuf_read d' = bd_hbuf_read d \<and>
     (bd_hbuf_read d \<longrightarrow> bd_hbuf d' = bd_hbuf d \<and> bd_hlen d' = bd_hlen d)"

lemma bpf_wakeup_simps [simp]:
  "bd_sbuf (bpf_wakeup d) = bd_sbuf d" "bd_hbuf (bpf_wakeup d) = bd_hbuf d" "bd_fbuf (bpf_wakeup d) = bd_fbuf d"
  "bd_slen (bpf_wakeup d) = bd_slen d" "bd_hlen (bpf_wakeup d) = bd_hlen d" "bd_scnt (bpf_wakeup d) = bd_scnt d"
  "bd_hcnt (bpf_wakeup d) = bd_hcnt d" "bd_bufsize (bpf_wakeup d) = bd_bufsize d" "bd_hbuf_read (bpf_wakeup d) = bd_hbuf_read d"
  "bd_bif (bpf_wakeup d) = bd_bif d" "bd_filter (bpf_wakeup d) = bd_filter d" "bd_dcount (bpf_wakeup d) = bd_dcount d"
  "bd_headdrop (bpf_wakeup d) = bd_headdrop d"
  by (simp_all add: bpf_wakeup_def Let_def)

lemma queue_wakeup [simp]:
  "dev_ok (bpf_wakeup d) = dev_ok d" "held (bpf_wakeup d) = held d" "stored (bpf_wakeup d) = stored d"
  "pending (bpf_wakeup d) = pending d" "caught p d0 (bpf_wakeup d) = caught p d0 d" "same_hold d0 (bpf_wakeup d) = same_hold d0 d"
  unfolding dev_ok_def held_def stored_def pending_def caught_def same_hold_def bpf_wakeup_simps by (rule refl)+

text \<open>Storing a packet in the store buffer, when the rest of the descriptor is in order.\<close>

lemma stored_packet:
  assumes "dev_ok d" "tap_ok pkt" "bd_bif d = Some h" "curlen = BPF_WORDALIGN (bd_slen d)"
    "h \<le> totlen" "totlen - h \<le> bpfp_total_length pkt" "curlen + totlen \<le> bd_bufsize d"
  shows "\<exists>d'. catch_store pkt tv h totlen curlen w d = Inr d' \<and> dev_ok d' \<and> same_hold d d' \<and> bd_dcount d' = bd_dcount d \<and>
      held d' = held d \<and> stored d' = stored d @ [take (totlen - h) (bp_content pkt)]"
proof -
  have h: "18 \<le> h" "h < 2 ^ 16" and b: "bd_bufsize d < 2 ^ 31"
    and s: "slot_ok (bd_bufsize d) (bd_sbuf d) (bd_slen d) (bd_scnt d)" using assms(1,3) by (auto simp: dev_ok_def)
  from catch_store_ok [OF s assms(2) h assms(4-7) b, of tv w] obtain b2 where b2:
    "slot_ok (bd_bufsize d) (Some b2) (curlen + totlen) (bd_scnt d + 1)"
    "bpf_records (take (curlen + totlen) b2) 0 = Inr (stored d @ [take (totlen - h) (bp_content pkt)])"
    "catch_store pkt tv h totlen curlen w d =
        Inr (let d1 = d\<lparr>bd_sbuf := Some b2, bd_slen := curlen + totlen, bd_scnt := bd_scnt d + 1\<rparr>
             in if w then bpf_wakeup d1 else d1)" by blast
  define d1 where "d1 = d\<lparr>bd_sbuf := Some b2, bd_slen := curlen + totlen, bd_scnt := bd_scnt d + 1\<rparr>"
  have "dev_ok d1" using assms(1) b2(1) by (simp add: dev_ok_def d1_def)
  moreover have "same_hold d d1 \<and> bd_dcount d1 = bd_dcount d \<and> held d1 = held d \<and>
      stored d1 = stored d @ [take (totlen - h) (bp_content pkt)]"
    using b2(2) by (simp add: same_hold_def held_def stored_def recs_in_def [of "Some b2"] d1_def)
  ultimately show ?thesis using b2(3) by (simp add: d1_def [symmetric] Let_def)
qed

lemma stored_zero [simp]: "bd_slen d = 0 \<Longrightarrow> stored d = []"
  by (simp add: stored_def recs_in_def split: option.splits)

lemma slot_ok_Some: "slot_ok sz buf len cnt \<Longrightarrow> \<exists>b. buf = Some b"
  by (auto simp: slot_ok_def)

lemma slot_ok_length: "slot_ok sz (Some b) len cnt \<Longrightarrow> length b = sz"
  by (auto simp: slot_ok_def)

lemma slot_ok_reset: "slot_ok sz buf len cnt \<Longrightarrow> slot_ok sz buf 0 0"
  by (auto simp: slot_ok_def)

lemma rotate_ok:
  assumes "dev_ok d" "bd_hbuf d = None" "bd_slen d \<noteq> 0"
  shows "\<exists>d'. ROTATE_BUFFERS d = Inr d' \<and> dev_ok d' \<and> \<not> bd_hbuf_read d' \<and> held d' = stored d \<and> bd_slen d' = 0 \<and>
      bd_hbuf d' = bd_sbuf d \<and> bd_hlen d' = bd_slen d \<and> bd_hbuf d' \<noteq> None \<and>
      bd_dcount d' = bd_dcount d \<and> bd_bif d' = bd_bif d \<and> bd_bufsize d' = bd_bufsize d"
  using assms by (auto simp: ROTATE_BUFFERS_def dev_ok_def held_def stored_def dest: slot_ok_Some)

lemma rotate_drop_ok:
  assumes "dev_ok d" "bd_hbuf d \<noteq> None" "\<not> bd_hbuf_read d" "bd_slen d \<noteq> 0"
  shows "\<exists>d'. ROTATE_BUFFERS (d\<lparr>bd_dcount := bd_dcount d + bd_hcnt d, bd_fbuf := bd_hbuf d\<rparr>) = Inr d' \<and> dev_ok d' \<and>
      \<not> bd_hbuf_read d' \<and> held d' = stored d \<and> bd_slen d' = 0 \<and>
      bd_dcount d' = bd_dcount d + of_nat (length (held d)) \<and> bd_bif d' = bd_bif d \<and> bd_bufsize d' = bd_bufsize d"
  using assms count_held [OF assms(1)]
  by (auto simp: ROTATE_BUFFERS_def dev_ok_def held_def stored_def dest: slot_ok_Some slot_ok_length)

lemma catchpacket_ok:
  assumes "dev_ok d" "tap_ok pkt" "bd_bif d = Some h"
  shows "\<exists>d'. catchpacket pkt snaplen tv d = Inr d' \<and> dev_ok d' \<and> same_hold d d' \<and> caught (snapshot pkt snaplen d) d d'"
proof -
  define totlen where "totlen = min (h + min (unat snaplen) (bpfp_total_length pkt)) (bd_bufsize d)"
  define p where "p = take (totlen - h) (bp_content pkt)"
  have h: "h \<le> bd_bufsize d" using assms(1,3) by (auto simp: dev_ok_def)
  have tot: "h \<le> totlen" "totlen - h \<le> bpfp_total_length pkt" "totlen \<le> bd_bufsize d" using h by (auto simp: totlen_def)
  have p: "snapshot pkt snaplen d = p"
    using assms(2,3) h by (auto simp: p_def totlen_def snapshot_def tap_ok_def min_def)
  have eq: "catchpacket pkt snaplen tv d = bind_r (catch_room totlen d) (\<lambda>(d1, room). case room of None \<Rightarrow> Inr d1
      | Some (curlen, do_wakeup) \<Rightarrow> catch_store pkt tv h totlen curlen do_wakeup d1)"
    using assms(3) tot(1) by (simp add: catchpacket_def totlen_def [symmetric])
  note store = stored_packet [OF _ assms(2) _ _ tot(1,2), folded p_def]
  consider (fits) "BPF_WORDALIGN (bd_slen d) + totlen \<le> bd_bufsize d"
    | (full) "BPF_WORDALIGN (bd_slen d) + totlen > bd_bufsize d" by linarith
  then show ?thesis
  proof cases
    case fits
    obtain d' where d': "catch_store pkt tv h totlen (BPF_WORDALIGN (bd_slen d)) (bd_immediate d \<or> bd_state d = BPF_TIMED_OUT) d = Inr d'"
      "dev_ok d'" "same_hold d d'" "bd_dcount d' = bd_dcount d" "held d' = held d" "stored d' = stored d @ [p]"
      using store [OF assms(1,3) refl fits] by blast
    then have "catchpacket pkt snaplen tv d = Inr d'" unfolding eq using fits by (simp add: catch_room_def Let_def)
    moreover have "caught p d d'" using d' by (simp add: caught_def pending_def same_hold_def)
    ultimately show ?thesis using d' p by blast
  next
    case full
    then have s: "bd_slen d \<noteq> 0" using tot(3) by (cases "bd_slen d") auto
    show ?thesis
    proof (cases "bd_hbuf d")
      case None
      then have f: "\<not> bd_hbuf_read d" "bd_fbuf d \<noteq> None" using assms(1) by (auto simp: dev_ok_def)
      obtain d1 where d1: "ROTATE_BUFFERS d = Inr d1" "dev_ok d1" "\<not> bd_hbuf_read d1" "held d1 = stored d" "bd_slen d1 = 0"
        "bd_dcount d1 = bd_dcount d" "bd_bif d1 = bd_bif d" "bd_bufsize d1 = bd_bufsize d"
        using rotate_ok [OF assms(1) None s] by blast
      obtain d' where d': "catch_store pkt tv h totlen 0 True d1 = Inr d'" "dev_ok d'" "same_hold d1 d'"
        "bd_dcount d' = bd_dcount d1" "held d' = held d1" "stored d' = stored d1 @ [p]"
        using store [OF d1(2), of 0 tv True] d1 assms(3) tot(3) by auto
      then have "catchpacket pkt snaplen tv d = Inr d'" unfolding eq using full f d1(1) by (auto simp: catch_room_def Let_def)
      moreover have "caught p d d'" "same_hold d d'" using d' d1 f None by (simp_all add: caught_def pending_def same_hold_def)
      ultimately show ?thesis using d' p by blast
    next
      case (Some hb)
      then have f: "bd_fbuf d = None" "bd_hbuf d \<noteq> None" using assms(1) by (auto simp: dev_ok_def)
      show ?thesis
      proof (cases "bd_hbuf_read d \<or> \<not> bd_headdrop d")
        case True
        have "dev_ok (d\<lparr>bd_dcount := bd_dcount d + 1\<rparr>)" using assms(1) by (simp add: dev_ok_def)
        with True full f show ?thesis unfolding eq p
          by (auto simp: catch_room_def Let_def caught_def pending_def same_hold_def held_def stored_def)
      next
        case False
        obtain d1 where d1: "ROTATE_BUFFERS (d\<lparr>bd_dcount := bd_dcount d + bd_hcnt d, bd_fbuf := bd_hbuf d\<rparr>) = Inr d1" "dev_ok d1"
          "\<not> bd_hbuf_read d1" "held d1 = stored d" "bd_slen d1 = 0" "bd_dcount d1 = bd_dcount d + of_nat (length (held d))"
          "bd_bif d1 = bd_bif d" "bd_bufsize d1 = bd_bufsize d"
          using rotate_drop_ok [OF assms(1) f(2) _ s] False by blast
        obtain d' where d': "catch_store pkt tv h totlen 0 True d1 = Inr d'" "dev_ok d'" "same_hold d1 d'"
          "bd_dcount d' = bd_dcount d1" "held d' = held d1" "stored d' = stored d1 @ [p]"
          using store [OF d1(2), of 0 tv True] d1 assms(3) tot(3) by auto
        then have "catchpacket pkt snaplen tv d = Inr d'" unfolding eq using full f d1(1) False
          by (simp add: catch_room_def Let_def)
        moreover have "caught p d d'" "same_hold d d'" using d' d1 f False
          by (simp_all add: caught_def pending_def same_hold_def)
        ultimately show ?thesis using d' p by blast
      qed
    qed
  qed
qed

section \<open>Every operation keeps the invariant\<close>

text \<open>What the tap of a packet adds to the queue.\<close>

definition accepted :: "bpf_packet \<Rightarrow> bool \<Rightarrow> bpf_d \<Rightarrow> byte list list" where
  "accepted pkt outbound d =
     (if outbound \<and> \<not> bd_seesent d then []
      else case bpf_filter (bd_filter d) [] pkt (of_nat (bpfp_total_length pkt)) 0 of
             Inl e \<Rightarrow> []
           | Inr slen \<Rightarrow> if slen \<noteq> 0 then [snapshot pkt slen d] else [])"

definition tapped :: "byte list list \<Rightarrow> bpf_d \<Rightarrow> bpf_d \<Rightarrow> bool" where
  "tapped ps d d' \<longleftrightarrow>
     (case ps of [] \<Rightarrow> pending d' = pending d \<and> bd_dcount d' = bd_dcount d | p # _ \<Rightarrow> caught p d d')"

lemma bpf_tap_d_ok:
  assumes "dev_ok d" "tap_ok pkt" "bd_bif d \<noteq> None"
  shows "safe_r (\<lambda>d'. dev_ok d' \<and> same_hold d d' \<and> tapped (accepted pkt outbound d) d d') {BadShift} (bpf_tap_d pkt outbound tv d)"
proof -
  obtain h where h: "bd_bif d = Some h" using assms(3) by blast
  define d1 where "d1 = d\<lparr>bd_rcount := bd_rcount d + 1\<rparr>"
  have d1: "dev_ok d1" "bd_bif d1 = Some h" "bd_filter d1 = bd_filter d" using assms(1) h by (simp_all add: dev_ok_def d1_def)
  have same: "same_hold d1 d' = same_hold d d'" "caught q d1 d' = caught q d d'" "snapshot pkt n d1 = snapshot pkt n d" for q n d'
    by (simp_all add: same_hold_def caught_def pending_def held_def stored_def snapshot_def d1_def)
  have f: "safe_r (\<lambda>v. True) {BadShift} (bpf_filter (bd_filter d) [] pkt (of_nat (bpfp_total_length pkt)) 0)"
    using bpf_run_safe assms(1,2)
    by (cases "bd_filter d") (fastforce simp: bpf_filter_def dev_ok_def tap_ok_def bpf_validate_def Let_def split: if_splits)+
  show ?thesis
  proof (cases "outbound \<and> \<not> bd_seesent d")
    case True
    with assms(1) show ?thesis by (simp add: bpf_tap_d_def accepted_def tapped_def same_hold_def)
  next
    case False
    have eq: "bpf_tap_d pkt outbound tv d =
        bind_r (bpf_filter (bd_filter d) [] pkt (of_nat (bpfp_total_length pkt)) 0)
          (\<lambda>slen. if slen \<noteq> 0 then catchpacket pkt slen tv d1 else Inr d1)"
      using False d1(3) unfolding bpf_tap_d_def d1_def [symmetric] Let_def by auto
    show ?thesis unfolding eq
    proof (rule safe_r_bind [OF f])
      fix slen
      assume r: "bpf_filter (bd_filter d) [] pkt (of_nat (bpfp_total_length pkt)) 0 = Inr slen"
      show "safe_r (\<lambda>d'. dev_ok d' \<and> same_hold d d' \<and> tapped (accepted pkt outbound d) d d') {BadShift}
          (if slen \<noteq> 0 then catchpacket pkt slen tv d1 else Inr d1)"
      proof (cases "slen = 0")
        case True
        have "pending d1 = pending d" "same_hold d d1" "bd_dcount d1 = bd_dcount d"
          by (simp_all add: pending_def held_def stored_def same_hold_def d1_def)
        with True False r d1 show ?thesis by (auto simp: accepted_def tapped_def)
      next
        case nz: False
        obtain d' where "catchpacket pkt slen tv d1 = Inr d'" "dev_ok d'" "same_hold d1 d'" "caught (snapshot pkt slen d1) d1 d'"
          using catchpacket_ok [OF d1(1) assms(2) d1(2), of slen tv] by blast
        with nz False r show ?thesis unfolding same by (auto simp: accepted_def tapped_def)
      qed
    qed
  qed
qed

text \<open>
  What a part of a read does to the queue: bytes moved are the packets at its front, and the
  read is in progress; otherwise the queue is as it was.
\<close>

definition read_post :: "bpf_d \<Rightarrow> read_out \<times> bpf_d \<Rightarrow> bool" where
  "read_post d od \<longleftrightarrow> (case od of (out, d') \<Rightarrow>
     dev_ok d' \<and> bd_dcount d' = bd_dcount d \<and>
     (case out of
        Move c \<Rightarrow> \<not> bd_hbuf_read d \<and> bd_hbuf_read d' \<and> c \<noteq> [] \<and> length c \<le> bd_bufsize d \<and> bd_hbuf d' = Some (c @ drop (length c) (the (bd_hbuf d'))) \<and>
          bd_hlen d' = length c \<and> (\<exists>rs. bpf_records c 0 = Inr rs \<and> pending d = rs @ pending d')
      | _ \<Rightarrow> pending d' = pending d \<and> same_hold d d'))"

lemma read_hold_ok:
  assumes "dev_ok d" "bd_hbuf d \<noteq> None" "\<not> bd_hbuf_read d"
  shows "\<exists>r. read_hold d = Inr r \<and> read_post d r"
proof -
  obtain b rs where b: "bd_hbuf d = Some b" "length b = bd_bufsize d" "bd_hlen d \<le> bd_bufsize d" "0 < bd_hlen d"
    "bpf_records (take (bd_hlen d) b) 0 = Inr rs" using assms by (auto simp: dev_ok_def slot_ok_def)
  define d' where "d' = d\<lparr>bd_hbuf_read := True\<rparr>"
  have "dev_ok d'" using assms by (simp add: dev_ok_def d'_def)
  moreover have "held d = rs" using b by (simp add: held_def recs_in_def)
  then have "pending d = rs @ pending d'" using assms(3) by (simp add: pending_def stored_def d'_def)
  moreover have "read_hold d = Inr (Move (take (bd_hlen d) b), d')"
    using b by (simp add: read_hold_def deref_def bytes_at_def d'_def)
  ultimately show ?thesis using b assms(3) by (auto simp: read_post_def d'_def min_def)
qed

lemma rotate_hold_ok:
  assumes "dev_ok d" "bd_hbuf d = None" "bd_slen d \<noteq> 0"
  shows "\<exists>r. bind_r (ROTATE_BUFFERS d) read_hold = Inr r \<and> read_post d r"
proof -
  obtain d1 where d1: "ROTATE_BUFFERS d = Inr d1" "dev_ok d1" "\<not> bd_hbuf_read d1" "held d1 = stored d" "bd_slen d1 = 0"
    "bd_hbuf d1 \<noteq> None" "bd_dcount d1 = bd_dcount d" "bd_bufsize d1 = bd_bufsize d"
    using rotate_ok [OF assms] by blast
  obtain r where r: "read_hold d1 = Inr r" "read_post d1 r" using read_hold_ok [OF d1(2,6,3)] by blast
  have "\<not> bd_hbuf_read d" using assms(1,2) by (auto simp: dev_ok_def)
  moreover have "pending d = pending d1" using d1 assms(2) calculation by (simp add: pending_def)
  ultimately have "read_post d r" using r d1 by (auto simp: read_post_def same_hold_def split: read_out.splits)
  with r d1 show ?thesis by simp
qed

lemma read_post_same: "dev_ok d \<Longrightarrow> read_post d (Errno e, d)" "dev_ok d \<Longrightarrow> read_post d (Sleep, d)"
  by (simp_all add: read_post_def same_hold_def)

lemma read_loop_ok:
  assumes "dev_ok d" "\<not> bd_hbuf_read d"
  shows "\<exists>r. read_loop t nd d = Inr r \<and> read_post d r"
proof (cases "bd_hbuf d = None")
  case True
  with rotate_hold_ok [OF assms(1)] read_post_same [OF assms(1)] show ?thesis by (auto simp: read_loop_def)
next
  case False
  with read_hold_ok [OF assms(1) _ assms(2)] show ?thesis by (simp add: read_loop_def)
qed

lemma read_resume_ok: "dev_ok d \<Longrightarrow> \<exists>r. read_resume t nd d = Inr r \<and> read_post d r"
  using read_loop_ok read_post_same by (auto simp: read_resume_def)

lemma bpfread_ok: "dev_ok d \<Longrightarrow> \<exists>r. bpfread resid nd d = Inr r \<and> read_post d r"
proof -
  assume d: "dev_ok d"
  define d1 where "d1 = d\<lparr>bd_state := BPF_IDLE\<rparr>"
  have "dev_ok d1" using d by (simp add: dev_ok_def d1_def)
  moreover have "read_post d1 r = read_post d r" for r
    by (cases r; cases "fst r") (simp_all add: read_post_def same_hold_def pending_def held_def stored_def d1_def)
  ultimately show ?thesis using d read_resume_ok [of d1 "bd_state d = BPF_TIMED_OUT" nd] read_post_same
    by (auto simp: bpfread_def d1_def [symmetric])
qed

lemma read_woken_ok: "dev_ok d \<Longrightarrow> \<exists>r. read_woken t nd e d = Inr r \<and> read_post d r"
  using read_loop_ok [of d t nd] read_hold_ok [of d] rotate_hold_ok [of d] read_post_same [of d]
  by (auto simp: read_woken_def)

lemma read_done_ok: "dev_ok d \<Longrightarrow> bd_hbuf_read d \<Longrightarrow> dev_ok (read_done d) \<and> pending (read_done d) = pending d \<and> bd_dcount (read_done d) = bd_dcount d"
  by (auto simp: read_done_def dev_ok_def pending_def stored_def dest: slot_ok_Some slot_ok_length)

lemma dev_ok_state: "dev_ok (d\<lparr>bd_state := n\<rparr>) = dev_ok d" "pending (d\<lparr>bd_state := n\<rparr>) = pending d" "same_hold d0 (d\<lparr>bd_state := n\<rparr>) = same_hold d0 d"
  by (simp_all add: dev_ok_def pending_def held_def stored_def same_hold_def)

lemma same_hold_refl [simp]: "same_hold d d"
  by (simp add: same_hold_def)

lemma bpf_timed_out_ok:
  "dev_ok d \<Longrightarrow> dev_ok (bpf_timed_out d) \<and> pending (bpf_timed_out d) = pending d \<and> same_hold d (bpf_timed_out d) \<and> bd_dcount (bpf_timed_out d) = bd_dcount d"
  by (simp add: bpf_timed_out_def Let_def dev_ok_state)

lemma bpfselect_ok:
  "dev_ok d \<Longrightarrow> bpfselect d = Some (r, d') \<Longrightarrow> dev_ok d' \<and> pending d' = pending d \<and> same_hold d d' \<and> bd_dcount d' = bd_dcount d"
  by (auto simp: bpfselect_def select_resume_def select_read_def bpf_start_timer_def dev_ok_state split: if_splits)

lemma select_resume_ok:
  "dev_ok d \<Longrightarrow> select_resume d = Some (r, d') \<Longrightarrow> dev_ok d' \<and> pending d' = pending d \<and> same_hold d d' \<and> bd_dcount d' = bd_dcount d"
  by (auto simp: select_resume_def select_read_def bpf_start_timer_def dev_ok_state split: if_splits)

lemma bpf_setf_ok:
  assumes "dev_ok d" "bpf_setf maxb n insns setf d = Some r"
  shows "safe_r (\<lambda>(e, d'). dev_ok d' \<and> (bd_filter d' = bd_filter d \<or> bd_filter d' = None \<or> (\<exists>f. bd_filter d' = Some f \<and> bpf_validate maxb f))) {} r"
proof -
  have reset: "safe_r (\<lambda>d'. dev_ok d' \<and> bd_filter d' = f) {} (reset_d (d\<lparr>bd_filter := f\<rparr>))"
    if "\<not> bd_hbuf_read d" "\<forall>g. f = Some g \<longrightarrow> bpf_validate maxb g" for f
    using assms(1) that
    by (cases "bd_hbuf d") (auto simp: reset_d_def dev_ok_def Let_def dest: slot_ok_reset slot_ok_length)
  have "dev_ok (d\<lparr>bd_filter := Some g\<rparr>)" if "bpf_validate maxb g" for g
    using assms(1) that by (auto simp: dev_ok_def)
  with assms show ?thesis
    by (auto simp: bpf_setf_def intro!: safe_r_bind [OF reset] split: option.splits if_splits)
qed

text \<open>What no tap changes.\<close>

definition settings :: "bpf_d \<Rightarrow> bool \<times> nat option \<times> bool \<times> nat \<times> bpf_insn list option \<times> bool" where
  "settings d = (bd_closing d, bd_bif d, bd_immediate d, bd_bufsize d, bd_filter d, bd_state d = BPF_DRAINING)"

lemma catch_room_settings: "catch_room totlen d = Inr (d', room) \<Longrightarrow> settings d' = settings d"
  by (auto simp: catch_room_def ROTATE_BUFFERS_def Let_def settings_def split: if_splits)

lemma settings_wakeup: "settings (bpf_wakeup d) = settings d"
  by (simp add: settings_def bpf_wakeup_def Let_def)

lemma settings_store: "settings (d\<lparr>bd_sbuf := b, bd_slen := n, bd_scnt := c\<rparr>) = settings d"
  by (simp add: settings_def)

lemma catch_store_settings: "catch_store pkt tv h totlen curlen w d = Inr d' \<Longrightarrow> settings d' = settings d"
  unfolding catch_store_def Let_def bind_r_Inr_iff 
  by (elim exE conjE, simp split: if_splits) (metis settings_wakeup settings_store)+

lemma catchpacket_settings:
  assumes "catchpacket pkt snaplen tv d = Inr d'"
  shows "settings d' = settings d"
proof (cases "bd_bif d")
  case (Some h)
  define totlen where "totlen = min (h + min (unat snaplen) (bpfp_total_length pkt)) (bd_bufsize d)"
  show ?thesis
  proof (cases "h > totlen")
    case True
    with assms Some show ?thesis by (simp add: catchpacket_def totlen_def [symmetric])
  next
    case False
    with assms Some obtain d1 room where 1: "catch_room totlen d = Inr (d1, room)"
      and 2: "(case room of None \<Rightarrow> Inr d1 | Some (curlen, w) \<Rightarrow> catch_store pkt tv h totlen curlen w d1) = Inr d'"
      by (auto simp: catchpacket_def totlen_def [symmetric] bind_r_Inr_iff)
    have "settings d' = settings d1"
    proof (cases room)
      case (Some cw)
      with 2 show ?thesis by (cases cw) (simp add: catch_store_settings)
    qed (use 2 in simp)
    with catch_room_settings [OF 1] show ?thesis by simp
  qed
qed (use assms in \<open>simp add: catchpacket_def\<close>)

lemma bpf_tap_d_settings:
  assumes "bpf_tap_d pkt outbound tv d = Inr d'"
  shows "settings d' = settings d"
proof (cases "outbound \<and> \<not> bd_seesent d")
  case False
  define d1 where "d1 = d\<lparr>bd_rcount := bd_rcount d + 1\<rparr>"
  have "settings d1 = settings d" by (simp add: settings_def d1_def)
  with False assms catchpacket_settings [of pkt _ tv d1 d'] show ?thesis
    unfolding bpf_tap_d_def d1_def [symmetric] Let_def by (auto simp: res_simps split: if_splits)
qed (use assms in \<open>simp add: bpf_tap_d_def\<close>)

text \<open>
  The whole invariant of a descriptor: its buffers, and that only a close makes it drain. No
  operation but the close itself begins to close or to drain.
\<close>

definition dev_inv :: "bpf_d \<Rightarrow> bool" where
  "dev_inv d \<longleftrightarrow> dev_ok d \<and> (bd_state d = BPF_DRAINING \<longrightarrow> bd_closing d)"

definition calm :: "bpf_d \<Rightarrow> bpf_d \<Rightarrow> bool" where
  "calm d d' \<longleftrightarrow> bd_closing d' = bd_closing d \<and> (bd_state d' = BPF_DRAINING \<longrightarrow> bd_state d = BPF_DRAINING)"

lemma dev_inv_calm: "dev_inv d \<Longrightarrow> dev_ok d' \<Longrightarrow> calm d d' \<Longrightarrow> dev_inv d'"
  by (auto simp: dev_inv_def calm_def)

lemma settings_calm: "settings d' = settings d \<Longrightarrow> calm d d'"
  by (simp add: settings_def calm_def)

lemma calm_read_hold: "read_hold d = Inr (out, d') \<Longrightarrow> calm d d'"
  by (auto simp: read_hold_def res_simps calm_def)

lemma calm_rotate_hold: "bind_r (ROTATE_BUFFERS d) read_hold = Inr (out, d') \<Longrightarrow> calm d d'"
  by (auto simp: ROTATE_BUFFERS_def read_hold_def res_simps calm_def split: if_splits)

lemma calm_refl [simp]: "calm d d"
  by (simp add: calm_def)

lemma calm_read_loop: "read_loop t nd d = Inr (out, d') \<Longrightarrow> calm d d'"
  by (auto simp: read_loop_def intro: calm_read_hold calm_rotate_hold split: if_splits)

lemma calm_read_resume: "read_resume t nd d = Inr (out, d') \<Longrightarrow> calm d d'"
  by (auto simp: read_resume_def intro: calm_read_loop split: if_splits)

lemma calm_read_woken: "read_woken t nd e d = Inr (out, d') \<Longrightarrow> calm d d'"
  by (auto simp: read_woken_def intro: calm_read_loop calm_read_hold calm_rotate_hold split: if_splits)

lemma calm_bpfread:
  assumes "bpfread resid nd d = Inr (out, d')"
  shows "calm d d'"
proof -
  have "calm (d\<lparr>bd_state := BPF_IDLE\<rparr>) x \<Longrightarrow> calm d x" for x by (auto simp: calm_def)
  with assms show ?thesis by (auto simp: bpfread_def dest: calm_read_resume split: if_splits)
qed

lemma calm_others:
  "calm d (read_done d)" "calm d (bpf_timed_out d)"
  "bpfselect d = Some (r, d') \<Longrightarrow> calm d d'" "select_resume d = Some (r, d') \<Longrightarrow> calm d d'"
  "reset_d d = Inr d' \<Longrightarrow> calm d d'"
  by (auto simp: calm_def read_done_def bpf_timed_out_def bpf_wakeup_def bpfselect_def select_resume_def select_read_def
      bpf_start_timer_def reset_d_def Let_def split: if_splits)

lemma calm_setf: "bpf_setf maxb n insns setf d = Some (Inr (e, d')) \<Longrightarrow> calm d d'"
  by (auto simp: bpf_setf_def reset_d_def Let_def calm_def res_simps split: if_splits option.splits)

lemma reset_ok:
  assumes "dev_ok d" "\<not> bd_hbuf_read d"
  shows "\<exists>d'. reset_d d = Inr d' \<and> dev_ok d'"
  using assms by (cases "bd_hbuf d") (auto simp: reset_d_def dev_ok_def Let_def dest: slot_ok_reset slot_ok_length)

lemma dev_ok_closing: "dev_ok (d\<lparr>bd_closing := c\<rparr>) = dev_ok d" "pending (d\<lparr>bd_closing := c\<rparr>) = pending d"
  by (simp_all add: dev_ok_def pending_def held_def stored_def)

lemma detach_ok: "dev_ok d \<Longrightarrow> dev_ok (bpf_detachd d)" "pending (bpf_detachd d) = pending d" "bd_dcount (bpf_detachd d) = bd_dcount d"
  "bd_state (bpf_detachd d) = bd_state d" "bd_closing (bpf_detachd d) = bd_closing d" "bd_hbuf_read (bpf_detachd d) = bd_hbuf_read d"
  by (auto simp: bpf_detachd_def dev_ok_def pending_def held_def stored_def)

lemma close_parts_ok:
  "dev_ok d \<Longrightarrow> bpfclose stopped d = Inr (out, d') \<Longrightarrow>
     dev_ok d' \<and> pending d' = pending d \<and> bd_dcount d' = bd_dcount d \<and> bd_closing d' \<and> bd_hbuf_read d' = bd_hbuf_read d"
  "dev_ok d \<Longrightarrow> close_drained d = (out, d') \<Longrightarrow>
     dev_ok d' \<and> pending d' = pending d \<and> bd_dcount d' = bd_dcount d \<and> bd_closing d' = bd_closing d \<and> bd_hbuf_read d' = bd_hbuf_read d"
  by (auto simp: bpfclose_def close_drained_def Let_def detach_ok dev_ok_closing dev_ok_state split: if_splits)

lemma bpfclose_ok: "dev_inv d \<Longrightarrow> \<exists>out d'. bpfclose stopped d = Inr (out, d') \<and> dev_inv d'"
  by (auto simp: bpfclose_def Let_def dev_inv_def detach_ok dev_ok_closing dev_ok_state)

lemma close_drained_ok: "dev_inv d \<Longrightarrow> dev_inv (snd (close_drained d))"
  by (auto simp: close_drained_def dev_inv_def detach_ok dev_ok_state)


text \<open>A descriptor in immediate mode on an Ethernet interface, with buffers of 64 bytes.\<close>

definition ex_dev :: bpf_d where
  "ex_dev = \<lparr>bd_sbuf = Some (replicate 64 0), bd_hbuf = None, bd_fbuf = Some (replicate 64 0), bd_slen = 0, bd_hlen = 0,
     bd_scnt = 0, bd_hcnt = 0, bd_bufsize = 64, bd_hbuf_read = False, bd_headdrop = False, bd_bif = Some 18, bd_rtout = 0,
     bd_filter = Some ex_prog, bd_rcount = 0, bd_dcount = 0, bd_state = 0, bd_immediate = True, bd_seesent = True,
     bd_closing = False, bd_wakeups = 0\<rparr>"

lemma ex_dev_ok: "dev_ok ex_dev" "pending ex_dev = []" "bd_dcount ex_dev = 0"
proof -
  have "bpf_validate 0x80000 ex_prog" by code_simp
  then show "dev_ok ex_dev" by (auto simp: dev_ok_def ex_dev_def)
qed (simp_all add: ex_dev_def pending_def)

lemma ex_packet_ok: "tap_ok ex_packet"
  by (simp add: tap_ok_def packet_ok_def chain_ok_def bp_content_def ex_packet_def)


section \<open>The device is a queue\<close>

text \<open>The steps of a descriptor, with the packets accepted and the bytes moved to processes.\<close>

fun moved :: "read_out \<Rightarrow> byte list list" where
  "moved (Move c) = [c]"
| "moved _ = []"

inductive bpf_step :: "bpf_d \<Rightarrow> byte list list \<Rightarrow> byte list list \<Rightarrow> bpf_d \<Rightarrow> bool" where
  tap: "tap_ok pkt \<Longrightarrow> bd_bif d \<noteq> None \<Longrightarrow> bpf_tap_d pkt outbound tv d = Inr d' \<Longrightarrow> bpf_step d (accepted pkt outbound d) [] d'"
| read: "bpfread resid ndelay d = Inr (out, d') \<Longrightarrow> bpf_step d [] (moved out) d'"
| resume: "read_resume timed_out ndelay d = Inr (out, d') \<Longrightarrow> bpf_step d [] (moved out) d'"
| woken: "read_woken timed_out ndelay error d = Inr (out, d') \<Longrightarrow> bpf_step d [] (moved out) d'"
| moved_all: "bd_hbuf_read d \<Longrightarrow> bpf_step d [] [] (read_done d)"
| timeout: "bpf_step d [] [] (bpf_timed_out d)"
| select: "bpfselect d = Some (r, d') \<Longrightarrow> bpf_step d [] [] d'"
| select_woken: "select_resume d = Some (r, d') \<Longrightarrow> bpf_step d [] [] d'"
| close: "bpfclose stopped d = Inr (out, d') \<Longrightarrow> bpf_step d [] [] d'"
| drained: "close_drained d = (out, d') \<Longrightarrow> bpf_step d [] [] d'"

inductive bpf_history :: "bpf_d \<Rightarrow> byte list list \<Rightarrow> byte list list \<Rightarrow> bpf_d \<Rightarrow> bool" for d0 where
  start: "bpf_history d0 [] [] d0"
| more: "bpf_history d0 ps cs d \<Longrightarrow> bpf_step d ps' cs' d' \<Longrightarrow> bpf_history d0 (ps @ ps') (cs @ cs') d'"

text \<open>One step: what is left and what was moved are packets of the queue and the new ones, in order.\<close>

lemma bpf_step_ok:
  assumes "bpf_step d ps cs d'" "dev_ok d"
  shows "dev_ok d' \<and> (\<exists>rss. list_all2 (\<lambda>c rs. bpf_records c 0 = Inr rs) cs rss \<and>
      subseq (concat rss @ pending d') (pending d @ ps) \<and>
      of_nat (length (concat rss @ pending d')) + bd_dcount d' = of_nat (length (pending d @ ps)) + bd_dcount d)"
proof -
  have post: ?thesis if r: "\<exists>x. R = Inr x \<and> read_post d x" "R = Inr (out, d')" "ps = []" "cs = moved out" for R out
  proof -
    have p: "read_post d (out, d')" using r by auto
    show ?thesis
    proof (cases out)
      case (Move c)
      with p obtain rs where "dev_ok d'" "bd_dcount d' = bd_dcount d" "bpf_records c 0 = Inr rs" "pending d = rs @ pending d'"
        by (auto simp: read_post_def)
      with r(3,4) Move show ?thesis by (intro conjI exI [of _ "[rs]"]) simp_all
    qed (use p r(3,4) in \<open>auto simp: read_post_def intro!: exI [of _ "[]"]\<close>)
  qed
  from assms(1) show ?thesis
  proof cases
    case (tap pkt outbound tv)
    then have d: "dev_ok d'" "tapped ps d d'"
      using bpf_tap_d_ok [OF assms(2) tap(3,4), of outbound tv] by auto
    have len: "length ps \<le> 1" using tap(1) by (auto simp: accepted_def split: sum.splits)
    have s: "subseq (stored d @ x) ((held d @ stored d) @ x)" for x by (simp add: list_emb_append2)
    have "subseq (pending d') (pending d @ ps) \<and> of_nat (length (pending d')) + bd_dcount d' = of_nat (length (pending d @ ps)) + bd_dcount d"
    proof (cases ps)
      case Nil with d(2) show ?thesis by (simp add: tapped_def)
    next
      case (Cons p q)
      with len have "ps = [p]" by simp
      with d(2) have "caught p d d'" by (simp add: tapped_def)
      then show ?thesis using \<open>ps = [p]\<close> s [of "[p]"] unfolding caught_def
        by (elim disjE) (auto simp: pending_def [of d])
    qed
    with d(1) tap(2) show ?thesis by (intro conjI exI [of _ "[]"]) simp_all
  next
    case (read resid nd out) show ?thesis by (rule post [OF bpfread_ok [OF assms(2)] read(3,1,2)])
  next
    case (resume t nd out) show ?thesis by (rule post [OF read_resume_ok [OF assms(2)] resume(3,1,2)])
  next
    case (woken t nd e out) show ?thesis by (rule post [OF read_woken_ok [OF assms(2)] woken(3,1,2)])
  next
    case moved_all with read_done_ok [OF assms(2)] show ?thesis by (auto intro!: exI [of _ "[]"])
  next
    case timeout with bpf_timed_out_ok [OF assms(2)] show ?thesis by (auto intro!: exI [of _ "[]"])
  next
    case (select r) with bpfselect_ok [OF assms(2) select(3)] show ?thesis by (auto intro!: exI [of _ "[]"])
  next
    case (select_woken r) with select_resume_ok [OF assms(2) select_woken(3)] show ?thesis by (auto intro!: exI [of _ "[]"])
  next
    case (close stopped out) with close_parts_ok(1) [OF assms(2) close(3)] show ?thesis by (auto intro!: exI [of _ "[]"])
  next
    case (drained out) with close_parts_ok(2) [OF assms(2) drained(3)] show ?thesis by (auto intro!: exI [of _ "[]"])
  qed
qed

lemma bpf_history_ok:
  assumes "bpf_history d0 ps cs d" "dev_ok d0" "pending d0 = []" "bd_dcount d0 = 0"
  shows "dev_ok d \<and> (\<exists>rss. list_all2 (\<lambda>c rs. bpf_records c 0 = Inr rs) cs rss \<and>
      subseq (concat rss @ pending d) ps \<and>
      of_nat (length (concat rss @ pending d)) + bd_dcount d = of_nat (length ps))"
  using assms
proof (induction rule: bpf_history.induct)
  case start
  then show ?case by (auto intro!: exI [of _ "[]"])
next
  case (more ps cs d ps' cs' d')
  then obtain rss where r: "dev_ok d" "list_all2 (\<lambda>c rs. bpf_records c 0 = Inr rs) cs rss" "subseq (concat rss @ pending d) ps"
    "of_nat (length (concat rss @ pending d)) + bd_dcount d = of_nat (length ps)" by blast
  obtain rss' where r': "dev_ok d'" "list_all2 (\<lambda>c rs. bpf_records c 0 = Inr rs) cs' rss'"
    "subseq (concat rss' @ pending d') (pending d @ ps')"
    "of_nat (length (concat rss' @ pending d')) + bd_dcount d' = of_nat (length (pending d @ ps')) + bd_dcount d"
    using bpf_step_ok [OF more.hyps(2) r(1)] by blast
  have a: "subseq (concat rss @ concat rss' @ pending d') (concat rss @ pending d @ ps')"
    by (rule list_emb_append_mono [OF subseq_order.order_refl r'(3)])
  have b: "subseq (concat rss @ pending d @ ps') (ps @ ps')"
    using list_emb_append_mono [OF r(3) subseq_order.order_refl, of ps'] by simp
  from subseq_order.order_trans [OF a b] have "subseq (concat (rss @ rss') @ pending d') (ps @ ps')" by simp
  moreover have "of_nat (length (concat (rss @ rss') @ pending d')) + bd_dcount d' =
      of_nat (length (concat rss)) + (of_nat (length (concat rss' @ pending d')) + bd_dcount d')"
    by (simp add: algebra_simps)
  then have "of_nat (length (concat (rss @ rss') @ pending d')) + bd_dcount d' =
      (of_nat (length (concat rss @ pending d)) + bd_dcount d) + of_nat (length ps')"
    unfolding r'(4) by (simp add: algebra_simps)
  then have "of_nat (length (concat (rss @ rss') @ pending d')) + bd_dcount d' = (of_nat (length (ps @ ps')) :: u32)"
    unfolding r(4) by simp
  moreover have "list_all2 (\<lambda>c rs. bpf_records c 0 = Inr rs) (cs @ cs') (rss @ rss')"
    using r(2) r'(2) by (rule list_all2_appendI)
  ultimately show ?case using r'(1) by blast
qed

text \<open>
  C16. The double buffering is a queue. However taps, reads and timeouts interleave,
  the bytes moved to the processes are sequences of complete records, and these records,
  followed by those still in the buffers, are packets the filter accepted, in the order of
  their arrival, none twice. The packets that are missing are exactly those the drop counter
  counts; when it is zero nothing is missing.
\<close>

theorem capture_fifo:
  assumes "bpf_history d0 ps cs d" "dev_ok d0" "pending d0 = []" "bd_dcount d0 = 0"
  shows "\<exists>rss. list_all2 (\<lambda>c rs. bpf_records c 0 = Inr rs) cs rss \<and>
      subseq (concat rss @ pending d) ps \<and>
      of_nat (length (concat rss @ pending d)) + bd_dcount d = of_nat (length ps) \<and>
      (bd_dcount d = 0 \<and> length ps < 2 ^ 32 \<longrightarrow> concat rss @ pending d = ps)"
proof -
  obtain rss where r: "list_all2 (\<lambda>c rs. bpf_records c 0 = Inr rs) cs rss" "subseq (concat rss @ pending d) ps"
    "of_nat (length (concat rss @ pending d)) + bd_dcount d = of_nat (length ps)"
    using bpf_history_ok [OF assms] by blast
  have "concat rss @ pending d = ps" if "bd_dcount d = 0" "length ps < 2 ^ 32"
  proof -
    have "length (concat rss @ pending d) \<le> length ps" using r(2) by (rule list_emb_length)
    then have "length (concat rss @ pending d) = length ps"
      using r(3) that unat_of_nat_u32 [of "length ps"] unat_of_nat_u32 [of "length (concat rss @ pending d)"] by simp
    then show ?thesis using r(2) by (rule subseq_same_length [rotated])
  qed
  with r show ?thesis by blast
qed

text \<open>One packet comes in and is read.\<close>

definition ex_dev1 :: bpf_d where
  "ex_dev1 = (case bpf_tap_d ex_packet False (1, 2) ex_dev of Inl e \<Rightarrow> ex_dev | Inr d \<Rightarrow> d)"

lemma ex_tap: "bpf_tap_d ex_packet False (1, 2) ex_dev = Inr ex_dev1"
  by code_simp

lemma ex_dev1_ok: "dev_ok ex_dev1"
  using bpf_tap_d_ok [OF ex_dev_ok(1) ex_packet_ok, of False "(1, 2)"] ex_tap by (simp add: ex_dev_def)

lemma ex_history: "bpf_history ex_dev [bp_content ex_packet] [] ex_dev1"
proof -
  have "accepted ex_packet False ex_dev = [bp_content ex_packet]" by code_simp
  then have "bpf_step ex_dev [bp_content ex_packet] [] ex_dev1"
    using bpf_step.tap [OF ex_packet_ok _ ex_tap] by (simp add: ex_dev_def)
  from bpf_history.more [OF bpf_history.start this] show ?thesis by simp
qed

theorem capture_fifo_witness:
  "bd_dcount ex_dev1 = 0 \<and> pending ex_dev1 = [bp_content ex_packet]"
proof -
  have z: "bd_dcount ex_dev1 = 0" by code_simp
  then show ?thesis using capture_fifo [OF ex_history ex_dev_ok] by simp
qed

text \<open>A read of a descriptor that is ready.\<close>

lemma ready_read:
  assumes "dev_ok d" "bpfselect d = Some (1, d')"
  shows "\<exists>c rs d''. bpfread (bd_bufsize d') ndelay d' = Inr (Move c, d'') \<and> c \<noteq> [] \<and> length c \<le> bd_bufsize d' \<and>
      bpf_records c 0 = Inr rs \<and> pending d' = rs @ pending d''"
proof -
  have d: "d' = d" "\<not> bd_closing d" "\<not> bd_hbuf_read d"
    "bd_hlen d \<noteq> 0 \<or> ((bd_immediate d \<or> bd_state d = BPF_TIMED_OUT) \<and> bd_slen d \<noteq> 0)"
    using assms(2) by (auto simp: bpfselect_def select_resume_def select_read_def split: if_splits)
  define d1 where "d1 = d\<lparr>bd_state := BPF_IDLE\<rparr>"
  have ok: "dev_ok d1" using assms(1) by (simp add: d1_def dev_ok_state)
  have eq: "bpfread (bd_bufsize d) ndelay d =
      (if bd_hbuf d1 \<noteq> None then read_hold d1 else bind_r (ROTATE_BUFFERS d1) read_hold)"
    using d assms(1) by (auto simp: bpfread_def read_resume_def read_loop_def d1_def dev_ok_def)
  obtain r where r: "bpfread (bd_bufsize d) ndelay d = Inr r" "read_post d r" using bpfread_ok [OF assms(1)] by blast
  have "\<exists>c d2. r = (Move c, d2)"
    using r(1) unfolding eq by (auto simp: read_hold_def res_simps split: if_splits)
  with r d(1) show ?thesis by (auto simp: read_post_def)
qed

text \<open>
  C40. When \<open>bpfselect\<close> reports a descriptor ready, a read that follows gets
  packets at once: it does not sleep and does not fail.
\<close>

theorem select_then_read:
  assumes "dev_ok d" "bpfselect d = Some (1, d')"
  shows "\<exists>c rs d''. bpfread (bd_bufsize d') ndelay d' = Inr (Move c, d'') \<and> c \<noteq> [] \<and> length c \<le> bd_bufsize d' \<and>
      bpf_records c 0 = Inr rs \<and> pending d' = rs @ pending d''"
  by (rule ready_read [OF assms])

theorem select_then_read_witness:
  "bpfselect ex_dev1 = Some (1, ex_dev1) \<and> (\<exists>c d''. bpfread (bd_bufsize ex_dev1) False ex_dev1 = Inr (Move c, d'') \<and> c \<noteq> [])"
proof -
  have "bpfselect ex_dev1 = Some (1, ex_dev1)" by code_simp
  with select_then_read [OF ex_dev1_ok this, of False] show ?thesis by blast
qed

section \<open>A close during a read\<close>

lemma closing_step:
  assumes "bpf_step d ps cs d'" "dev_ok d" "bd_closing d" "bd_hbuf_read d"
  shows "bd_closing d' \<and> bd_hbuf_read d'"
  using assms(1)
proof cases
  case (tap pkt outbound tv)
  then have "same_hold d d'" using bpf_tap_d_ok [OF assms(2) tap(3,4), of outbound tv] by auto
  moreover have "settings d' = settings d" using bpf_tap_d_settings [OF tap(5)] .
  ultimately show ?thesis using assms(3,4) by (simp add: same_hold_def settings_def)
next
  case timeout
  then show ?thesis using assms(3,4) bpf_timed_out_ok [OF assms(2)] calm_others(2) [of d] by (simp add: same_hold_def calm_def)
next
  case (close stopped out)
  then show ?thesis using close_parts_ok(1) [OF assms(2)] assms(4) by auto
next
  case (drained out)
  then show ?thesis using close_parts_ok(2) [OF assms(2)] assms(3,4) by auto
qed (use assms(3,4) in \<open>auto simp: bpfread_def read_resume_def read_woken_def read_done_def bpfselect_def select_resume_def split: if_splits\<close>)

text \<open>
  A close that comes while a process is reading does not end: the reader
  finds the descriptor closing when it has moved its data and leaves the mark of the read in
  place, and the close sleeps until that mark is cleared, which none of the operations on the
  descriptor does afterwards.
\<close>

theorem close_read_stuck:
  assumes "bpf_history d ps cs d'" "dev_ok d" "bd_closing d" "bd_hbuf_read d"
  shows "close_free d' = None"
proof -
  have "dev_ok d' \<and> bd_closing d' \<and> bd_hbuf_read d'"
    using assms
  proof (induction rule: bpf_history.induct)
    case (more ps cs d1 ps' cs' d2)
    then show ?case using bpf_step_ok [OF more.hyps(2)] closing_step [OF more.hyps(2)] by blast
  qed simp
  then show ?thesis by (simp add: close_free_def)
qed

definition ex_dev2 :: bpf_d where
  "ex_dev2 = (case bpfread 64 False ex_dev1 of Inr (out, d) \<Rightarrow> d\<lparr>bd_closing := True\<rparr> | _ \<Rightarrow> ex_dev1)"

theorem close_read_stuck_witness:
  "bd_hbuf_read ex_dev2 \<and> close_free (read_done ex_dev2) = None"
proof -
  obtain out d where r: "bpfread 64 False ex_dev1 = Inr (out, d)" "dev_ok d"
    using bpfread_ok [OF ex_dev1_ok, of 64 False] by (auto simp: read_post_def)
  then have 1: "dev_ok ex_dev2" by (simp add: ex_dev2_def dev_ok_closing)
  have 2: "bd_closing ex_dev2" "bd_hbuf_read ex_dev2" by code_simp+
  have "bpf_history ex_dev2 [] [] (read_done ex_dev2)"
    using bpf_history.more [OF bpf_history.start bpf_step.moved_all [OF 2(2)]] by simp
  from close_read_stuck [OF this 1 2] 2(2) show ?thesis by simp
qed

end
