(* ===== verification/Rarpd.thy ===== *)
theory Rarpd
  imports Bpfdev
begin

text \<open>
  The reverse ARP daemon (\<open>src/rarpd.tproj/rarpd.c\<close>): it listens on packet filter descriptors
  for reverse ARP requests and answers with the IP address of the host, when it can boot it.
  What the system answers (ioctls, \<open>ether_ntohost\<close>, \<open>gethostbyname\<close>, the directory of boot
  files) is in the record \<open>rarpenv\<close>. A pointer into the read buffer is the bytes from there to
  the end of the buffer. Replies written are collected. An error that is fatal ends the
  daemon with \<open>exit(1)\<close>; what it logs is not modelled.
\<close>

section \<open>State\<close>

abbreviation (input) ETHERTYPE_IP :: u16 where "ETHERTYPE_IP \<equiv> 0x0800"
abbreviation (input) ETHERTYPE_REVARP :: u16 where "ETHERTYPE_REVARP \<equiv> 0x8035"
abbreviation (input) ARPHRD_ETHER :: u16 where "ARPHRD_ETHER \<equiv> 1"
abbreviation (input) ARPOP_REVREQUEST :: u16 where "ARPOP_REVREQUEST \<equiv> 3"
abbreviation (input) ARPOP_REVREPLY :: u16 where "ARPOP_REVREPLY \<equiv> 4"
abbreviation (input) DLT_EN10MB :: u32 where "DLT_EN10MB \<equiv> 1"

record if_info =
  ii_fd :: int
  ii_eaddr :: "byte list"
  ii_ipaddr :: u32
  ii_netmask :: u32

text \<open>An \<open>in_addr_t\<close> is in network byte order: its bytes in memory are those of the address.\<close>

datatype bpf_try = Opened int | Busy | Failed

record rarpenv =
  re_socket :: bool
  re_immediate :: "byte list \<Rightarrow> bool"
  re_setif :: "byte list \<Rightarrow> bool"
  re_dlt :: "byte list \<Rightarrow> u32 option"
  re_setf :: "byte list \<Rightarrow> bool"
  re_ifconf :: "(nat \<times> byte list) option"
  re_flags :: "byte list \<Rightarrow> u16 option"
  re_addr :: "byte list \<Rightarrow> u32 option"
  re_netmask :: "byte list \<Rightarrow> u32 option"
  re_ethers :: "byte list \<Rightarrow> string option"
  re_hosts :: "string \<Rightarrow> (int \<times> u32 list) option"
  re_chdir :: bool
  re_opendir :: bool
  re_dir :: "nat \<Rightarrow> string list"
  re_blen :: bool

text \<open>
  \<open>rd_opens\<close> holds the results of the calls of \<open>open\<close> to come, \<open>rd_scans\<close> the number of times the
  directory has been read, \<open>rd_written\<close> the packets written and their descriptors.
\<close>

record rarpd =
  rd_iflist :: "if_info list"
  rd_opens :: "bpf_try list"
  rd_dd :: bool
  rd_scans :: nat
  rd_written :: "(int \<times> byte list) list"

text \<open>The evaluation of \<open>||\<close>.\<close>

definition or_r :: "bool result \<Rightarrow> bool result \<Rightarrow> bool result" where
  "or_r a b = bind_r a (\<lambda>x. if x then Inr True else b)"

section \<open>Interfaces\<close>

text \<open>The program that \<open>rarp_open\<close> installs.\<close>

definition rarp_insns :: "bpf_insn list" where
  "rarp_insns =
     [BPF_STMT (BPF_LD OR BPF_H OR BPF_ABS) 12,
      BPF_JUMP (BPF_JMP OR BPF_JEQ OR BPF_K) (ucast ETHERTYPE_REVARP) 0 3,
      BPF_STMT (BPF_LD OR BPF_H OR BPF_ABS) 20,
      BPF_JUMP (BPF_JMP OR BPF_JEQ OR BPF_K) (ucast ARPOP_REVREQUEST) 0 1,
      BPF_STMT (BPF_RET OR BPF_K) (28 + 14),
      BPF_STMT (BPF_RET OR BPF_K) 0]"

fun bpf_open :: "bpf_try list \<Rightarrow> (int \<times> bpf_try list) result" where
  "bpf_open [] = Inl Diverge"
| "bpf_open (Opened fd # tries) = Inr (fd, tries)"
| "bpf_open (Busy # tries) = bpf_open tries"
| "bpf_open (Failed # tries) = Inl (Exit 1)"

definition rarp_open :: "rarpenv \<Rightarrow> byte list \<Rightarrow> rarpd \<Rightarrow> (int \<times> rarpd) result" where
  "rarp_open env device s =
     bind_r (bpf_open (rd_opens s)) (\<lambda>(fd, opens).
     if \<not> re_immediate env device then Inl (Exit 1)
     else if \<not> re_setif env (take 15 device) then Inl (Exit 1)
     else case re_dlt env device of
            None \<Rightarrow> Inl (Exit 1)
          | Some dlt \<Rightarrow>
              if dlt \<noteq> DLT_EN10MB then Inl (Exit 1)
              else if \<not> re_setf env device then Inl (Exit 1)
              else Inr (fd, s\<lparr>rd_opens := opens\<rparr>))"

text \<open>The name in a field of sixteen bytes.\<close>

definition ifr_name :: "byte list \<Rightarrow> byte list" where
  "ifr_name b = takeWhile (\<lambda>c. c \<noteq> 0) (take 16 b)"

text \<open>The loop of \<open>lookup_eaddr\<close> over the requests in the buffer of \<open>SIOCGIFCONF\<close>.\<close>

function find_eaddr :: "byte list \<Rightarrow> byte list \<Rightarrow> nat \<Rightarrow> nat \<Rightarrow> byte list result" where
  "find_eaddr name buf len i =
     (if i < len then
        bind_r (ld8 buf (i + 16)) (\<lambda>sa_len.
        bind_r (or_r (bind_r (ld8 buf (i + 17)) (\<lambda>sdl_family. Inr (sdl_family \<noteq> 18)))
               (or_r (bind_r (ld8 buf (i + 20)) (\<lambda>sdl_type. Inr (sdl_type \<noteq> 6)))
                     (bind_r (ld8 buf (i + 22)) (\<lambda>sdl_alen. Inr (sdl_alen \<noteq> 6)))))
          (\<lambda>skip.
           if \<not> skip \<and> ifr_name (drop i buf) = take 16 name then
             bind_r (ld8 buf (i + 21)) (\<lambda>sdl_nlen. bytes_at buf (i + 24 + unat sdl_nlen) 6)
           else find_eaddr name buf len (i + (16 + unat sa_len))))
      else Inl (Exit 1))"
  by pat_completeness auto
termination by (relation "measure (\<lambda>(name, buf, len, i). len - i)") auto

declare find_eaddr.simps [simp del]

definition lookup_eaddr :: "rarpenv \<Rightarrow> byte list \<Rightarrow> byte list result" where
  "lookup_eaddr env name =
     (if \<not> re_socket env then Inl (Exit 1)
      else case re_ifconf env of
             None \<Rightarrow> Inl (Exit 1)
           | Some (ifc_len, inbuf) \<Rightarrow> if ifc_len < 32 then Inl (Exit 1) else find_eaddr name inbuf ifc_len 0)"

definition IN_CLASSA :: "u32 \<Rightarrow> bool" where "IN_CLASSA i = (i AND 0x80000000 = 0)"
definition IN_CLASSB :: "u32 \<Rightarrow> bool" where "IN_CLASSB i = (i AND 0xc0000000 = 0x80000000)"
definition IN_CLASSC :: "u32 \<Rightarrow> bool" where "IN_CLASSC i = (i AND 0xe0000000 = 0xc0000000)"

definition ipaddrtonetmask :: "u32 \<Rightarrow> u32 result" where
  "ipaddrtonetmask addr =
     (if IN_CLASSA addr then Inr 0xff000000
      else if IN_CLASSB addr then Inr 0xffff0000
      else if IN_CLASSC addr then Inr 0xffffff00
      else Inl (Exit 1))"

definition lookup_ipaddr :: "rarpenv \<Rightarrow> byte list \<Rightarrow> (u32 \<times> u32) result" where
  "lookup_ipaddr env name =
     (if \<not> re_socket env then Inl (Exit 1)
      else case re_addr env (take 15 name) of
             None \<Rightarrow> Inl (Exit 1)
           | Some addr \<Rightarrow>
               (case re_netmask env (take 15 name) of
                  None \<Rightarrow> Inl (Exit 1)
                | Some netmask \<Rightarrow>
                    if netmask = 0 then bind_r (ipaddrtonetmask addr) (\<lambda>m. Inr (addr, m)) else Inr (addr, netmask)))"

definition init_one :: "rarpenv \<Rightarrow> byte list \<Rightarrow> rarpd \<Rightarrow> rarpd result" where
  "init_one env name s =
     bind_r (rarp_open env name s) (\<lambda>(fd, s1).
     bind_r (lookup_eaddr env name) (\<lambda>eaddr.
     bind_r (lookup_ipaddr env name) (\<lambda>(addr, netmask).
     Inr (s1\<lparr>rd_iflist := \<lparr>ii_fd = fd, ii_eaddr = eaddr, ii_ipaddr = addr, ii_netmask = netmask\<rparr> # rd_iflist s1\<rparr>))))"

text \<open>
  The loop of \<open>init_all\<close>. The ioctl \<open>SIOCGIFFLAGS\<close> takes the request of 32 bytes in the buffer and
  writes the flags over the first bytes of its address. The flags that count are \<open>IFF_UP\<close>,
  \<open>IFF_LOOPBACK\<close> and \<open>IFF_POINTOPOINT\<close>.
\<close>

function init_loop :: "rarpenv \<Rightarrow> byte list \<Rightarrow> nat \<Rightarrow> nat \<Rightarrow> rarpd \<Rightarrow> rarpd result" where
  "init_loop env buf len i s =
     (if i < len then
        bind_r (ld8 buf (i + 16)) (\<lambda>sa_len.
        bind_r (bytes_at buf i 32) (\<lambda>ifr.
        case re_flags env (ifr_name ifr) of
          None \<Rightarrow> Inl (Exit 1)
        | Some flags \<Rightarrow>
            bind_r (if flags AND (0x1 OR 0x8 OR 0x10) \<noteq> 0x1 then Inr s else init_one env (ifr_name ifr) s) (\<lambda>s'.
            init_loop env (take (i + 16) buf @ le16_bytes flags @ drop (i + 18) buf) len (i + (16 + unat sa_len)) s')))
      else Inr s)"
  by pat_completeness auto
termination by (relation "measure (\<lambda>(env, buf, len, i, s). len - i)") auto

declare init_loop.simps [simp del]

definition init_all :: "rarpenv \<Rightarrow> rarpd \<Rightarrow> rarpd result" where
  "init_all env s =
     (if \<not> re_socket env then Inl (Exit 1)
      else case re_ifconf env of
             None \<Rightarrow> Inl (Exit 1)
           | Some (ifc_len, inbuf) \<Rightarrow> if ifc_len < 32 then Inl (Exit 1) else init_loop env inbuf ifc_len 0 s)"

section \<open>Requests\<close>

text \<open>\<open>ntohs\<close> of a field.\<close>

definition field16 :: "byte list \<Rightarrow> nat \<Rightarrow> u16 result" where
  "field16 p i = bind_r (bytes_at p i 2) (\<lambda>b. Inr (rd16 b))"

text \<open>The comparison of \<open>len\<close> with a \<open>size_t\<close> is unsigned.\<close>

definition rarp_check :: "byte list \<Rightarrow> int \<Rightarrow> bool result" where
  "rarp_check p len =
     (if len mod 2 ^ 64 < 14 + 28 then Inr False
      else bind_r (or_r (bind_r (field16 p 12) (\<lambda>x. Inr (x \<noteq> ETHERTYPE_REVARP)))
                  (or_r (bind_r (field16 p 14) (\<lambda>x. Inr (x \<noteq> ARPHRD_ETHER)))
                  (or_r (bind_r (field16 p 20) (\<lambda>x. Inr (x \<noteq> ARPOP_REVREQUEST)))
                  (or_r (bind_r (field16 p 16) (\<lambda>x. Inr (x \<noteq> ETHERTYPE_IP)))
                  (or_r (bind_r (ld8 p 18) (\<lambda>x. Inr (x \<noteq> 6)))
                        (bind_r (ld8 p 19) (\<lambda>x. Inr (x \<noteq> 4))))))))
        (\<lambda>bad. if bad then Inr False
         else bind_r (bytes_at p 6 6) (\<lambda>ether_shost.
              bind_r (bytes_at p 22 6) (\<lambda>arp_sha.
              if ether_shost \<noteq> arp_sha then Inr False
              else bind_r (bytes_at p 32 6) (\<lambda>arp_tha. Inr (arp_sha = arp_tha))))))"

fun choose_ipaddr :: "u32 list \<Rightarrow> u32 \<Rightarrow> u32 \<Rightarrow> u32" where
  "choose_ipaddr [] net netmask = 0"
| "choose_ipaddr (a # alist) net netmask = (if a AND netmask = net then a else choose_ipaddr alist net netmask)"

text \<open>The format \<open>%08X\<close>.\<close>

definition hex_digit :: "u32 \<Rightarrow> char" where
  "hex_digit d = ''0123456789ABCDEF'' ! unat d"

definition hex08 :: "u32 \<Rightarrow> string" where
  "hex08 w = map (\<lambda>i. hex_digit (drop_bit (4 * i) w AND 0xf)) [7, 6, 5, 4, 3, 2, 1, 0]"

definition rarp_bootable :: "rarpenv \<Rightarrow> u32 \<Rightarrow> rarpd \<Rightarrow> (bool \<times> rarpd) result" where
  "rarp_bootable env addr s =
     (let ipname = hex08 addr;
          scan = (\<lambda>s. Inr (list_ex (\<lambda>d_name. take 8 d_name = ipname) (re_dir env (rd_scans s)), s\<lparr>rd_scans := Suc (rd_scans s)\<rparr>))
      in if rd_dd s then scan s
         else if \<not> re_chdir env then Inl (Exit 1)
         else if \<not> re_opendir env then Inl (Exit 1)
         else scan (s\<lparr>rd_dd := True\<rparr>))"

text \<open>
  The reply is built on top of the request: the first component of the result is the packet
  with what follows it in the buffer. \<open>update_arptab\<close> has no effect, as its ioctl is not
  compiled.
\<close>

definition rarp_reply :: "if_info \<Rightarrow> byte list \<Rightarrow> u32 \<Rightarrow> rarpd \<Rightarrow> (byte list \<times> rarpd) result" where
  "rarp_reply ii ep ipaddr s =
     bind_r (bytes_at ep 0 42) (\<lambda>pkt.
     let arp_sha = take 6 (drop 22 pkt);
         reply = arp_sha @ ii_eaddr ii @ be16 ETHERTYPE_REVARP @
                 be16 ARPHRD_ETHER @ be16 ETHERTYPE_IP @ take 2 (drop 18 pkt) @ be16 ARPOP_REVREPLY @
                 ii_eaddr ii @ le32_bytes (ii_ipaddr ii) @ take 6 (drop 32 pkt) @ le32_bytes ipaddr
     in Inr (reply @ drop 42 ep, s\<lparr>rd_written := rd_written s @ [(ii_fd ii, reply)]\<rparr>))"

text \<open>\<open>htonl\<close> of an address; \<open>AF_INET\<close> is 2.\<close>

definition htonl :: "u32 \<Rightarrow> u32" where
  "htonl w = rd32 (le32_bytes w)"

definition rarp_process :: "rarpenv \<Rightarrow> if_info \<Rightarrow> byte list \<Rightarrow> rarpd \<Rightarrow> (byte list \<times> rarpd) result" where
  "rarp_process env ii pkt s =
     bind_r (bytes_at pkt 6 6) (\<lambda>ether_shost.
     case re_ethers env ether_shost of
       None \<Rightarrow> Inr (pkt, s)
     | Some ename \<Rightarrow>
         (case re_hosts env ename of
            None \<Rightarrow> Inr (pkt, s)
          | Some (h_addrtype, h_addr_list) \<Rightarrow>
              if h_addrtype \<noteq> 2 then Inl (Exit 1)
              else let target_ipaddr = choose_ipaddr h_addr_list (ii_ipaddr ii AND ii_netmask ii) (ii_netmask ii)
                   in if target_ipaddr = 0 then Inr (pkt, s)
                      else bind_r (rarp_bootable env (htonl target_ipaddr) s) (\<lambda>(boot, s1).
                           if boot then rarp_reply ii pkt target_ipaddr s1 else Inr (pkt, s1))))"

section \<open>The loop\<close>

text \<open>
  The loop over the packets of a buffer that was read: \<open>caplen\<close> and \<open>hdrlen\<close> are signed, and so
  is their sum. The fuel bounds the number of passes.
\<close>

fun rarp_packets :: "nat \<Rightarrow> rarpenv \<Rightarrow> if_info \<Rightarrow> byte list \<Rightarrow> int \<Rightarrow> int \<Rightarrow> rarpd \<Rightarrow> rarpd result" where
  "rarp_packets 0 env ii buf cc bp s = (if bp < cc then Inl Diverge else Inr s)"
| "rarp_packets (Suc fuel) env ii buf cc bp s =
     (if \<not> bp < cc then Inr s
      else if bp < 0 then Inl OutOfBounds
      else bind_r (ld32 buf (nat bp + 8)) (\<lambda>bh_caplen.
           bind_r (ld16 buf (nat bp + 16)) (\<lambda>bh_hdrlen.
           let caplen = sint bh_caplen; hdrlen = uint bh_hdrlen; p = drop (nat bp + unat bh_hdrlen) buf
           in bind_r (rarp_check p caplen) (\<lambda>ok.
              bind_r (if ok then rarp_process env ii p s else Inr (p, s)) (\<lambda>(p1, s1).
              if hdrlen + caplen \<ge> 2 ^ 31 then Inl SignedOverflow
              else rarp_packets fuel env ii (take (nat bp + unat bh_hdrlen) buf @ p1) cc (bp + (hdrlen + caplen + 3) div 4 * 4) s1)))))"

text \<open>
  The results of \<open>read\<close> until it gives data: interrupted, the case of the overflown file
  offset, or another error.
\<close>

datatype read_try = Read_eintr | Read_overflow | Read_error | Read_data "byte list"

fun rarp_read :: "read_try list \<Rightarrow> byte list result" where
  "rarp_read [] = Inl Diverge"
| "rarp_read (Read_eintr # rs) = rarp_read rs"
| "rarp_read (Read_overflow # rs) = rarp_read rs"
| "rarp_read (Read_error # rs) = Inl (Exit 1)"
| "rarp_read (Read_data b # rs) = Inr b"

text \<open>
  An interface in a pass of \<open>rarp_loop\<close>: \<open>ready\<close> gives for each descriptor that \<open>select\<close> reports the results of
  the reads. An access behind the bytes of the last read counts as out of bounds, although the
  buffer may go on there.
\<close>

definition rarp_ready :: "rarpenv \<Rightarrow> (int \<Rightarrow> read_try list option) \<Rightarrow> if_info \<Rightarrow> rarpd \<Rightarrow> rarpd result" where
  "rarp_ready env ready ii s =
     (case ready (ii_fd ii) of
        None \<Rightarrow> Inr s
      | Some rs \<Rightarrow> bind_r (rarp_read rs) (\<lambda>b. rarp_packets (length b) env ii b (int (length b)) 0 s))"

text \<open>The loop, for the given results of \<open>select\<close>, where \<open>None\<close> is a failure.\<close>

definition rarp_pass :: "rarpenv \<Rightarrow> (int \<Rightarrow> read_try list option) option \<Rightarrow> rarpd \<Rightarrow> rarpd result" where
  "rarp_pass env listeners s =
     (case listeners of
        None \<Rightarrow> Inl (Exit 1)
      | Some ready \<Rightarrow> fold_r (rarp_ready env ready) (rd_iflist s) s)"

definition rarp_loop :: "rarpenv \<Rightarrow> (int \<Rightarrow> read_try list option) option list \<Rightarrow> rarpd \<Rightarrow> rarpd result" where
  "rarp_loop env selects s =
     (if rd_iflist s = [] then Inl (Exit 1)
      else if \<not> re_blen env then Inl (Exit 1)
      else fold_r (rarp_pass env) selects s)"

end
