(* ===== verification/Netboot.thy ===== *)
theory Netboot
  imports Capture Rarpd
begin

text \<open>
  Properties of the reverse ARP daemon, alone and on top of the packet filter device: which
  frames its filter lets through, how it walks the buffer the device fills, and which reply
  it sends.
\<close>

section \<open>The filter\<close>

text \<open>A reverse ARP request, as far as the filter looks.\<close>

definition revarp_request :: "byte list \<Rightarrow> bool" where
  "revarp_request f \<longleftrightarrow> 22 \<le> length f \<and> rd16 (drop 12 f) = ETHERTYPE_REVARP \<and> rd16 (drop 20 f) = ARPOP_REVREQUEST"

lemma bp_xhalf_content:
  assumes "bp_ok bp"
  shows "bp_xhalf bp k = Inr (if unat k + 2 \<le> length (bp_content bp) then Some (rd16 (drop (unat k) (bp_content bp))) else None)"
  using assms by (cases "bpfp_u bp") (simp_all add: bp_ok_def bp_xhalf_def bp_content_def mbufs.half buflets.half)

lemma ucast_half_eq: "(ucast (x::u16) = (ucast y :: u32)) = (x = y)"
proof -
  have "unat (ucast z :: u32) = unat z" for z :: u16
  proof -
    have "unat z < 2 ^ LENGTH(16)" by (rule unsigned_less)
    then show ?thesis by (simp add: unsigned_ucast_eq take_bit_nat_eq_self_iff)
  qed
  then show ?thesis by (metis unsigned_word_eqI)
qed

lemma rarp_filter_run:
  assumes "bp_ok bp"
  shows "bpf_filter (Some rarp_insns) p bp wirelen 0 = Inr (if revarp_request (bp_content bp) then 42 else 0)"
proof -
  define f where "f = bp_content bp"
  have h: "bp_xhalf bp k = Inr (if unat k + 2 \<le> length f then Some (rd16 (drop (unat k) f)) else None)" for k
    using bp_xhalf_content [OF assms] by (simp add: f_def)
  have e: "(ucast (x::u16) = (0x8035::u32)) = (x = 0x8035)" "(ucast (x::u16) = (3::u32)) = (x = 3)" for x
    using ucast_half_eq [of x "0x8035"] ucast_half_eq [of x 3] by simp_all
  show ?thesis unfolding f_def [symmetric]
    by (simp add: rarp_insns_def BPF_STMT_def BPF_JUMP_def bpf_exec_simps bpf_st_def bpf_jmp_def branch_def load_half_def h e
        revarp_request_def)
qed

text \<open>
  C22. The program \<open>rarp_open\<close> installs passes the kernel's validation, and it
  accepts exactly the reverse ARP requests: of every frame, however it is stored, it keeps the
  42 bytes of the Ethernet header and the ARP packet when the type is that of reverse ARP
  and the operation a request, and nothing otherwise.
\<close>

theorem rarp_filter_exact:
  assumes "bp_ok bp"
  shows "bpf_validate 0x80000 rarp_insns \<and> list_all shift_fits rarp_insns \<and>
    bpf_filter (Some rarp_insns) p bp wirelen 0 = Inr (if revarp_request (bp_content bp) then 42 else 0)"
proof -
  have "bpf_validate 0x80000 rarp_insns" "list_all shift_fits rarp_insns" by code_simp+
  with rarp_filter_run [OF assms] show ?thesis by simp
qed

section \<open>The packets of a buffer\<close>

text \<open>What the daemon does with one packet.\<close>

definition rarp_frame :: "rarpenv \<Rightarrow> if_info \<Rightarrow> byte list \<Rightarrow> rarpd \<Rightarrow> rarpd result" where
  "rarp_frame env ii p s =
     bind_r (rarp_check p (int (length p))) (\<lambda>ok.
     if ok then bind_r (rarp_process env ii p s) (\<lambda>(p1, s1). Inr s1) else Inr s)"

lemma bytes_at_front: "i + n \<le> length p \<Longrightarrow> bytes_at (p @ q) i n = bytes_at p i n"
  by (simp add: bytes_at_def)

lemma rarp_check_front:
  assumes "length p < 2 ^ 63"
  shows "rarp_check (p @ q) (int (length p)) = rarp_check p (int (length p))"
  using assms by (simp add: rarp_check_def field16_def ld8_def bytes_at_front cong: if_cong)

text \<open>What follows a packet in the buffer has no influence and is left as it is.\<close>

lemma rarp_process_front:
  assumes "42 \<le> length p"
  shows "rarp_process env ii (p @ q) s = bind_r (rarp_process env ii p s) (\<lambda>(p1, s1). Inr (p1 @ q, s1))"
proof -
  have "rarp_reply ii (p @ q) a s1 = bind_r (rarp_reply ii p a s1) (\<lambda>(p1, s1). Inr (p1 @ q, s1))" for a s1
    using assms by (simp add: rarp_reply_def bytes_at_def Let_def)
  then show ?thesis using assms
    by (auto simp: rarp_process_def bytes_at_front bytes_at_def Let_def bind_r_assoc intro!: bind_r_cong split: option.splits)
qed

lemma rarp_process_length:
  assumes "rarp_process env ii p s = Inr (p1, s1)" "length (ii_eaddr ii) = 6"
  shows "length p1 = length p"
proof -
  have "length p1 = length p" if "rarp_reply ii p a s2 = Inr (p1, s1)" for a s2
    using that assms(2) by (auto simp: rarp_reply_def bytes_at_def le32_bytes_def Let_def split: if_splits)
  note reply = this
  obtain hw where hw: "bytes_at p 6 6 = Inr hw" using assms(1) by (auto simp: rarp_process_def res_simps)
  show ?thesis
  proof (cases "re_ethers env hw")
    case (Some ename)
    note e = this
    show ?thesis
    proof (cases "re_hosts env ename")
      case (Some ta)
      with assms(1) hw e show ?thesis
        by (cases ta) (auto simp: rarp_process_def Let_def bind_r_Inr_iff dest: reply split: if_splits)
    qed (use assms(1) hw e in \<open>simp add: rarp_process_def\<close>)
  qed (use assms(1) hw in \<open>simp add: rarp_process_def\<close>)
qed

lemma rarp_check_length: "rarp_check p (int (length p)) = Inr True \<Longrightarrow> length p < 2 ^ 63 \<Longrightarrow> 42 \<le> length p"
  by (auto simp: rarp_check_def split: if_splits)

lemma wordalign_int: "(int n + 3) div 4 * 4 = int (BPF_WORDALIGN n)"
  by (simp add: BPF_WORDALIGN_def zdiv_int)

lemma bytes_at_drop:
  assumes "drop off b = drop off c" "length b = length c"
  shows "bytes_at b (off + i) n = bytes_at c (off + i) n"
proof -
  have "drop (off + i) b = drop i (drop off b)" "drop (off + i) c = drop i (drop off c)" by (simp_all add: add.commute)
  then show ?thesis using assms by (simp add: bytes_at_def)
qed

text \<open>One record of a buffer: the rest of the buffer is as it was.\<close>

lemma rarp_packets_step:
  assumes "ld32 b (off + 8) = Inr cl" "ld16 b (off + 16) = Inr h" "bytes_at b (off + unat h) (unat cl) = Inr p"
    "off < length b" "length b < 2 ^ 31" "length (ii_eaddr ii) = 6" "adv = BPF_WORDALIGN (unat h + unat cl)"
  and rest: "\<And>b1 s1. length b1 = length b \<Longrightarrow> drop (off + adv) b1 = drop (off + adv) b \<Longrightarrow>
      rarp_packets f env ii b1 (int (length b)) (int (off + adv)) s1 = k s1"
  shows "rarp_packets (Suc f) env ii b (int (length b)) (int off) s = bind_r (rarp_frame env ii p s) k"
proof -
  have len: "off + unat h + unat cl \<le> length b" "p = take (unat cl) (drop (off + unat h) b)" "length p = unat cl"
    using assms(3) by (auto simp: bytes_at_def split: if_splits)
  define q where "q = drop (unat cl) (drop (off + unat h) b)"
  have q: "drop (off + unat h) b = p @ q" unfolding len(2) q_def by (rule append_take_drop_id [symmetric])
  have "uint cl = int (length p)" using len(3) by simp
  moreover have lp: "length p < 2147483648" using len(1,3) assms(5) by simp
  then have "int (length p) < 2147483648" by (simp only: of_nat_less_numeral_iff)
  ultimately have cl: "sint cl = int (length p)" by (simp add: sint_uint signed_take_bit_int_eq_self)
  have hl: "uint h + sint cl = int (unat h + unat cl)" using cl len(3) by simp
  have "unat h + unat cl < 2147483648" using len(1) assms(5) by simp
  then have small: "uint h + sint cl < 2147483648" unfolding hl by (simp only: of_nat_less_numeral_iff)
  have adv: "int off + (uint h + sint cl + 3) div 4 * 4 = int (off + adv)"
    unfolding hl assms(7) wordalign_int by (simp only: of_nat_add)
  have after: "rarp_packets f env ii (take (off + unat h) b @ p1 @ q) (int (length b)) (int (off + adv)) s1 = k s1"
    if "length p1 = length p" for p1 s1
  proof (rule rest)
    show "length (take (off + unat h) b @ p1 @ q) = length b" using that len(1,3) by (simp add: q_def)
    have "unat h + unat cl \<le> adv" unfolding assms(7) by (rule align_ge)
    then show "drop (off + adv) (take (off + unat h) b @ p1 @ q) = drop (off + adv) b"
      using that len(1,3) by (simp add: q_def add.commute)
  qed
  have chk: "rarp_check (p @ q) (int (length p)) = rarp_check p (int (length p))" using lp by (simp add: rarp_check_front)
  have "rarp_packets (Suc f) env ii b (int (length b)) (int off) s =
      bind_r (rarp_check p (int (length p))) (\<lambda>ok.
      bind_r (if ok then rarp_process env ii (p @ q) s else Inr (p @ q, s)) (\<lambda>(p1, s1).
      rarp_packets f env ii (take (off + unat h) b @ p1) (int (length b)) (int (off + adv)) s1))"
    using assms(1,2,4) small adv unfolding cl by (auto simp: Let_def q chk cl intro!: bind_r_cong)
  also have "... = bind_r (rarp_frame env ii p s) k"
    unfolding rarp_frame_def bind_r_assoc
  proof (rule bind_r_cong [OF refl])
    fix ok assume ok: "rarp_check p (int (length p)) = Inr ok"
    show "bind_r (if ok then rarp_process env ii (p @ q) s else Inr (p @ q, s)) (\<lambda>(p1, s1).
        rarp_packets f env ii (take (off + unat h) b @ p1) (int (length b)) (int (off + adv)) s1) =
      bind_r (if ok then bind_r (rarp_process env ii p s) (\<lambda>(p1, s1). Inr s1) else Inr s) k"
    proof (cases ok)
      case True
      then have "42 \<le> length p" using ok lp rarp_check_length [of p] by simp
      with True show ?thesis
        by (auto simp: rarp_process_front bind_r_assoc simp del: of_nat_add intro!: bind_r_cong after rarp_process_length [OF _ assms(6)])
    qed (simp add: after del: of_nat_add)
  qed
  finally show ?thesis .
qed

lemma rarp_packets_records:
  assumes "bpf_records c off = Inr rs" "length c < 2 ^ 31" "length c - off \<le> fuel" "length (ii_eaddr ii) = 6"
    "length b = length c" "drop off b = drop off c"
  shows "rarp_packets fuel env ii b (int (length c)) (int off) s = fold_r (rarp_frame env ii) rs s"
  using assms
proof (induction c off arbitrary: rs fuel b s rule: bpf_records.induct)
  case (1 c off)
  show ?case
  proof (cases "length c \<le> off")
    case True
    with "1.prems"(1) show ?thesis by (cases fuel) (simp_all add: bpf_records.simps [of c off])
  next
    case False
    then obtain cl h p rs' where c: "ld32 c (off + 8) = Inr cl" "ld16 c (off + 16) = Inr h"
      "bytes_at c (off + unat h) (unat cl) = Inr p" "BPF_WORDALIGN (unat h + unat cl) \<noteq> 0"
      "bpf_records c (off + BPF_WORDALIGN (unat h + unat cl)) = Inr rs'" "rs = p # rs'"
      using "1.prems"(1) by (subst (asm) bpf_records.simps) (auto simp: res_simps split: if_splits)
    define adv where "adv = BPF_WORDALIGN (unat h + unat cl)"
    have b: "ld32 b (off + 8) = Inr cl" "ld16 b (off + 16) = Inr h" "bytes_at b (off + unat h) (unat cl) = Inr p"
      using c(1-3) bytes_at_drop [OF "1.prems"(6,5)] by (simp_all add: ld32_def ld16_def)
    obtain f where f: "fuel = Suc f" using False "1.prems"(3) by (cases fuel) auto
    have rest: "rarp_packets f env ii b1 (int (length b)) (int (off + adv)) s1 = fold_r (rarp_frame env ii) rs' s1"
      if "length b1 = length b" "drop (off + adv) b1 = drop (off + adv) b" for b1 s1
    proof -
      have "drop (off + adv) b = drop adv (drop off b)" "drop (off + adv) c = drop adv (drop off c)" by (simp_all add: add.commute)
      then have d: "drop (off + adv) b1 = drop (off + adv) c" using that(2) "1.prems"(6) by simp
      have l: "length b1 = length c" "length c - (off + adv) \<le> f" using that(1) "1.prems"(3,5) c(4) f by (simp_all add: adv_def)
      show ?thesis
        using "1.IH" [OF False c(1-4) c(5) "1.prems"(2) _ "1.prems"(4) l(1)] d l(2) "1.prems"(5) by (simp add: adv_def)
    qed
    have "off < length b" "length b < 2 ^ 31" using False "1.prems"(2,5) by simp_all
    then have "rarp_packets (Suc f) env ii b (int (length b)) (int off) s = bind_r (rarp_frame env ii p s) (fold_r (rarp_frame env ii) rs')"
      using rest by (intro rarp_packets_step [OF b _ _ "1.prems"(4) adv_def]) blast+
    then show ?thesis unfolding f c(6) "1.prems"(5) by simp
  qed
qed

text \<open>
  C21. On every buffer of complete records, as the device fills it, one pass
  of the daemon ends and handles each packet once, in order: it stops neither before the end
  nor reads behind it, whatever the packets contain, and the replies it builds in the buffer
  do not touch the packets that follow.
\<close>

theorem rarp_loop_records:
  assumes "bpf_records c 0 = Inr rs" "length c < 2 ^ 31" "ready (ii_fd ii) = Some [Read_data c]" "length (ii_eaddr ii) = 6"
  shows "rarp_ready env ready ii s = fold_r (rarp_frame env ii) rs s"
  using rarp_packets_records [OF assms(1,2) _ assms(4) refl refl, of "length c" env s] assms(3) by (simp add: rarp_ready_def)

section \<open>The answer\<close>

text \<open>A request that is well-formed and that a host makes for itself.\<close>

definition revarp_own :: "byte list \<Rightarrow> bool" where
  "revarp_own p \<longleftrightarrow> 42 \<le> length p \<and> take 10 (drop 12 p) = [0x80, 0x35, 0, 1, 8, 0, 6, 4, 0, 3] \<and>
     take 6 (drop 22 p) = take 6 (drop 6 p) \<and> take 6 (drop 32 p) = take 6 (drop 6 p)"

text \<open>The address of a host on the network of an interface.\<close>

definition own_addr :: "rarpenv \<Rightarrow> if_info \<Rightarrow> byte list \<Rightarrow> u32 option" where
  "own_addr env ii hw =
     (case re_ethers env hw of None \<Rightarrow> None | Some ename \<Rightarrow>
        (case re_hosts env ename of None \<Rightarrow> None | Some (t, addrs) \<Rightarrow>
           find (\<lambda>a. a AND ii_netmask ii = ii_ipaddr ii AND ii_netmask ii) addrs))"

text \<open>The reply of RFC 903 to a host, that its address is \<open>a\<close>.\<close>

definition revarp_reply :: "if_info \<Rightarrow> byte list \<Rightarrow> u32 \<Rightarrow> byte list" where
  "revarp_reply ii hw a =
     hw @ ii_eaddr ii @ [0x80, 0x35] @ [0, 1, 8, 0, 6, 4, 0, 4] @
     ii_eaddr ii @ le32_bytes (ii_ipaddr ii) @ hw @ le32_bytes a"

text \<open>What the daemon sends for a frame; \<open>n\<close> is the number of times it has read the directory.\<close>

definition rarp_answer :: "rarpenv \<Rightarrow> if_info \<Rightarrow> nat \<Rightarrow> byte list \<Rightarrow> (int \<times> byte list) list" where
  "rarp_answer env ii n p =
     (let hw = take 6 (drop 6 p)
      in if revarp_own p then
           (case own_addr env ii hw of
              None \<Rightarrow> []
            | Some a \<Rightarrow> if a \<noteq> 0 \<and> list_ex (\<lambda>f. take 8 f = hex08 (htonl a)) (re_dir env n)
                        then [(ii_fd ii, revarp_reply ii hw a)] else [])
         else [])"

lemma be16_rd16: "length b = 2 \<Longrightarrow> be16 (rd16 b) = b"
proof -
  assume "length b = 2"
  then obtain x y where b: "b = [x, y]" by (auto simp: length_Suc_conv numeral_2_eq_2)
  have "ucast (drop_bit 8 (rd16 [x, y])) = x" "ucast (rd16 [x, y]) = y"
    by (rule bit_word_eqI; auto simp: rd16_def bit_simps dest: bit_imp_le_length)+
  then show ?thesis by (simp add: b be16_def)
qed

lemma rd16_eq: "length b = 2 \<Longrightarrow> rd16 b = w \<longleftrightarrow> b = be16 w"
  using be16_rd16 [of b] rd16_be16 [of w "[]"] by auto

lemma take_take_drop: "take (m + n) (drop i p) = take m (drop i p) @ take n (drop (i + m) p)"
  by (simp add: take_add add.commute)

lemma rarp_check_own:
  assumes "length p < 2 ^ 63"
  shows "rarp_check p (int (length p)) = Inr (revarp_own p)"
proof (cases "42 \<le> length p")
  case True
  define h where "h = (\<lambda>i. take 2 (drop i p))"
  have len: "length (h i) = 2" if "i \<le> 40" for i using True that by (simp add: h_def)
  have f: "field16 p i = Inr (rd16 (h i))" if "i \<le> 40" for i using True that by (simp add: field16_def bytes_at_def h_def)
  have b: "ld8 p 18 = Inr (h 18 ! 0)" "ld8 p 19 = Inr (h 18 ! 1)" using True by (simp_all add: ld8_def bytes_at_def h_def)
  have m: "take 10 (drop 12 p) = h 12 @ h 14 @ h 16 @ h 18 @ h 20"
    using take_take_drop [of 2 8 12 p] take_take_drop [of 2 6 14 p] take_take_drop [of 2 4 16 p] take_take_drop [of 2 2 18 p]
    by (simp add: h_def)
  have l: "h 18 = [6, 4] \<longleftrightarrow> h 18 ! 0 = 6 \<and> h 18 ! 1 = 4" using len [of 18] by (auto simp: length_Suc_conv numeral_2_eq_2)
  have o: "take 10 (drop 12 p) = [0x80, 0x35, 0, 1, 8, 0, 6, 4, 0, 3] \<longleftrightarrow>
      h 12 = be16 0x8035 \<and> h 14 = be16 1 \<and> h 16 = be16 0x800 \<and> h 18 = [6, 4] \<and> h 20 = be16 3"
  proof -
    have "[0x80, 0x35, 0, 1, 8, 0, 6, 4, 0, 3] = be16 0x8035 @ be16 1 @ be16 0x800 @ [6, 4] @ be16 3" by code_simp
    then show ?thesis unfolding m using len by (simp add: append_eq_append_conv del: append_Cons)
  qed
  show ?thesis
    using True assms len
    by (auto simp: rarp_check_def revarp_own_def or_r_def f b o l rd16_eq bytes_at_def)
qed (use assms in \<open>simp add: rarp_check_def revarp_own_def\<close>)

lemma choose_ipaddr_find:
  "choose_ipaddr addrs net netmask = (case find (\<lambda>a. a AND netmask = net) addrs of None \<Rightarrow> 0 | Some a \<Rightarrow> a)"
  by (induction addrs) auto

lemma rarp_reply_own:
  assumes "revarp_own p"
  shows "rarp_reply ii p a s = Inr (revarp_reply ii (take 6 (drop 6 p)) a @ drop 42 p, s\<lparr>rd_written := rd_written s @ [(ii_fd ii, revarp_reply ii (take 6 (drop 6 p)) a)]\<rparr>)"
proof -
  have "take 2 (drop 18 p) = take 2 (drop 6 (take 10 (drop 12 p)))" by (simp add: drop_take)
  then have "take 2 (drop 18 p) = [6, 4]" using assms by (simp add: revarp_own_def)
  then show ?thesis using assms
    by (simp add: rarp_reply_def revarp_reply_def revarp_own_def bytes_at_def drop_take Let_def be16_def)
qed

text \<open>The directory of the boot files can be read, and all the hosts have Internet addresses.\<close>

definition rarp_serves :: "rarpenv \<Rightarrow> bool" where
  "rarp_serves env \<longleftrightarrow> re_chdir env \<and> re_opendir env \<and> (\<forall>ename t addrs. re_hosts env ename = Some (t, addrs) \<longrightarrow> t = 2)"

lemma rarp_bootable_serves:
  assumes "rarp_serves env"
  shows "\<exists>s'. rarp_bootable env a s = Inr (list_ex (\<lambda>f. take 8 f = hex08 a) (re_dir env (rd_scans s)), s') \<and>
    rd_iflist s' = rd_iflist s \<and> rd_written s' = rd_written s"
  using assms by (simp add: rarp_bootable_def rarp_serves_def Let_def)

lemma rarp_frame_answer:
  assumes "rarp_serves env" "length p < 2 ^ 63"
  shows "\<exists>s'. rarp_frame env ii p s = Inr s' \<and> rd_iflist s' = rd_iflist s \<and>
    rd_written s' = rd_written s @ rarp_answer env ii (rd_scans s) p"
proof (cases "revarp_own p \<and> own_addr env ii (take 6 (drop 6 p)) \<noteq> None")
  case False
  have "rarp_process env ii p s = Inr (p, s)" if own: "revarp_own p"
  proof -
    have "bytes_at p 6 6 = Inr (take 6 (drop 6 p))" using own by (simp add: revarp_own_def bytes_at_def)
    moreover have "own_addr env ii (take 6 (drop 6 p)) = None" using False own by simp
    ultimately show ?thesis using assms(1)
      by (auto simp: rarp_process_def own_addr_def rarp_serves_def choose_ipaddr_find Let_def split: option.splits)
  qed
  then show ?thesis using False assms(2)
    by (auto simp: rarp_frame_def rarp_check_own rarp_answer_def Let_def)
next
  case True
  then obtain a ename t addrs where own: "revarp_own p" and a: "own_addr env ii (take 6 (drop 6 p)) = Some a"
    and e: "re_ethers env (take 6 (drop 6 p)) = Some ename" "re_hosts env ename = Some (t, addrs)"
    "find (\<lambda>a. a AND ii_netmask ii = ii_ipaddr ii AND ii_netmask ii) addrs = Some a"
    by (auto simp: own_addr_def split: option.splits)
  have t: "t = 2" using assms(1) e(2) by (auto simp: rarp_serves_def)
  obtain s1 where s1: "rarp_bootable env (htonl a) s = Inr (list_ex (\<lambda>f. take 8 f = hex08 (htonl a)) (re_dir env (rd_scans s)), s1)"
    "rd_iflist s1 = rd_iflist s" "rd_written s1 = rd_written s" using rarp_bootable_serves [OF assms(1)] by blast
  have "rarp_process env ii p s = (if a = 0 then Inr (p, s)
      else if list_ex (\<lambda>f. take 8 f = hex08 (htonl a)) (re_dir env (rd_scans s)) then rarp_reply ii p a s1 else Inr (p, s1))"
    using own e t s1(1) by (simp add: rarp_process_def revarp_own_def bytes_at_def choose_ipaddr_find Let_def)
  with own a s1(2,3) assms(2) show ?thesis
    by (simp add: rarp_frame_def rarp_check_own rarp_answer_def rarp_reply_own Let_def)
qed

text \<open>
  C20. For every frame the daemon goes on, and what it writes is what \<open>rarp_answer\<close>
  says: one reply of the format of RFC 903 when a host asks for its own address, has one on
  the network of the interface, and the boot directory has an entry, file or directory, whose
  name begins with the address in hexadecimal digits; nothing otherwise. The manual promises
  a reply only when the directory named by the address exists, so this is more than it says.
\<close>

theorem rarp_answers:
  assumes "rarp_serves env" "length p < 2 ^ 63"
  shows "\<exists>s'. rarp_frame env ii p s = Inr s' \<and> rd_iflist s' = rd_iflist s \<and>
    rd_written s' = rd_written s @ rarp_answer env ii (rd_scans s) p"
  by (rule rarp_frame_answer [OF assms])

text \<open>A host with a boot file, and its request.\<close>

definition ex_rarpenv :: rarpenv where
  "ex_rarpenv = \<lparr>re_socket = True, re_immediate = (\<lambda>n. True), re_setif = (\<lambda>n. True),
     re_dlt = (\<lambda>n. Some 1), re_setf = (\<lambda>n. True), re_ifconf = None, re_flags = (\<lambda>n. Some 1), re_addr = (\<lambda>n. Some 0x0101a8c0),
     re_netmask = (\<lambda>n. Some 0x00ffffff), re_ethers = (\<lambda>hw. if hw = [2, 0, 0, 0, 0, 1] then Some ''box'' else None),
     re_hosts = (\<lambda>e. Some (2, [0x01010a0a, 0x0a01a8c0])), re_chdir = True, re_opendir = True,
     re_dir = (\<lambda>n. [''README'', ''C0A8010A'']), re_blen = True\<rparr>"

definition ex_ii :: if_info where
  "ex_ii = \<lparr>ii_fd = 5, ii_eaddr = [2, 0, 0, 0, 0, 9], ii_ipaddr = 0x0101a8c0, ii_netmask = 0x00ffffff\<rparr>"

definition ex_request :: "byte list" where
  "ex_request = replicate 6 0xff @ [2, 0, 0, 0, 0, 1] @ [0x80, 0x35, 0, 1, 8, 0, 6, 4, 0, 3] @
     [2, 0, 0, 0, 0, 1] @ [0, 0, 0, 0] @ [2, 0, 0, 0, 0, 1] @ [0, 0, 0, 0]"

definition ex_rarpd :: rarpd where
  "ex_rarpd = \<lparr>rd_iflist = [ex_ii], rd_opens = [Busy, Opened 5, Opened 6], rd_dd = False, rd_scans = 0, rd_written = []\<rparr>"

lemma ex_serves: "rarp_serves ex_rarpenv"
  by (simp add: rarp_serves_def ex_rarpenv_def)

definition ex_reply :: "byte list" where
  "ex_reply = [2, 0, 0, 0, 0, 1] @ [2, 0, 0, 0, 0, 9] @ [0x80, 0x35, 0, 1, 8, 0, 6, 4, 0, 4] @
     [2, 0, 0, 0, 0, 9] @ [192, 168, 1, 1] @ [2, 0, 0, 0, 0, 1] @ [192, 168, 1, 10]"

lemma ex_answer: "rarp_answer ex_rarpenv ex_ii 0 ex_request = [(5, ex_reply)]"
  by code_simp

definition ex_chunk :: "byte list" where
  "ex_chunk = bpf_hdr (1, 2) 42 42 18 @ ex_request"

theorem rarp_loop_records_witness:
  "rarp_ready ex_rarpenv [5 \<mapsto> [Read_data ex_chunk]] ex_ii ex_rarpd = fold_r (rarp_frame ex_rarpenv ex_ii) [ex_request] ex_rarpd"
proof -
  have 1: "bpf_records ex_chunk 0 = Inr [ex_request]" by code_simp
  have 2: "length ex_chunk < 2 ^ 31" by (simp add: ex_chunk_def ex_request_def)
  have 3: "[5 \<mapsto> [Read_data ex_chunk]] (ii_fd ex_ii) = Some [Read_data ex_chunk]" by (simp add: ex_ii_def)
  have 4: "length (ii_eaddr ex_ii) = 6" by (simp add: ex_ii_def)
  show ?thesis
    using rarp_loop_records [OF 1 2, where ready = "[5 \<mapsto> [Read_data ex_chunk]]" and ii = ex_ii and env = ex_rarpenv and s = ex_rarpd] 3 4
    by blast
qed

theorem rarp_answers_witness:
  "\<exists>s'. rarp_frame ex_rarpenv ex_ii ex_request ex_rarpd = Inr s' \<and> rd_written s' = [(5, ex_reply)]"
  using rarp_answers [OF ex_serves, of ex_request ex_ii ex_rarpd] ex_answer
  by (auto simp: ex_rarpd_def ex_request_def)

section \<open>The daemon on the device\<close>

text \<open>A packet that the filter accepts, on a descriptor that has nothing else.\<close>

lemma tap_select_read:
  assumes "dev_ok d" "bd_hbuf d = None" "bd_slen d = 0" "bd_immediate d" "\<not> bd_closing d" "bd_bif d = Some h" "tap_ok pkt"
    "bpf_filter (bd_filter d) [] pkt (of_nat (bpfp_total_length pkt)) 0 = Inr n" "n \<noteq> 0"
  shows "\<exists>d1 c d2. bpf_tap_d pkt False tv d = Inr d1 \<and> bpfselect d1 = Some (1, d1) \<and>
      bpfread (bd_bufsize d) ndelay d1 = Inr (Move c, d2) \<and> length c < 2 ^ 31 \<and> bpf_records c 0 = Inr [snapshot pkt n d]"
proof -
  define d0 where "d0 = d\<lparr>bd_rcount := bd_rcount d + 1\<rparr>"
  have d0: "dev_ok d0" "bd_bif d0 = Some h" "bd_hbuf d0 = None" "settings d0 = settings d" "pending d0 = []"
    "snapshot pkt n d0 = snapshot pkt n d" "\<not> bd_hbuf_read d0"
    using assms(1-3,6) by (simp_all add: d0_def dev_ok_def settings_def pending_def snapshot_def)
  obtain d1 where c: "catchpacket pkt n tv d0 = Inr d1" "dev_ok d1" "same_hold d0 d1" "caught (snapshot pkt n d) d0 d1"
    using catchpacket_ok [OF d0(1) assms(7) d0(2), of n tv] d0(6) by auto
  have t: "bpf_tap_d pkt False tv d = Inr d1" using assms(8,9) c(1) by (simp add: bpf_tap_d_def d0_def Let_def)
  have p: "pending d1 = [snapshot pkt n d]" using c(4) d0(3,5) by (simp add: caught_def)
  have st: "bd_closing d1 = bd_closing d" "bd_bif d1 = bd_bif d" "bd_immediate d1 = bd_immediate d" "bd_bufsize d1 = bd_bufsize d"
    using catchpacket_settings [OF c(1)] d0(4) by (simp_all add: settings_def)
  have r: "\<not> bd_hbuf_read d1" using c(3) d0(7) by (simp add: same_hold_def)
  have "bd_hlen d1 \<noteq> 0 \<or> bd_slen d1 \<noteq> 0"
  proof (cases "bd_hbuf d1")
    case None
    with p r have "stored d1 = [snapshot pkt n d]" by (simp add: pending_def)
    then have "stored d1 \<noteq> []" by simp
    then show ?thesis using stored_zero by blast
  next
    case Some
    with c(2) show ?thesis by (simp add: dev_ok_def)
  qed
  then have sel: "bpfselect d1 = Some (1, d1)" using st r assms(4-6) by (auto simp: bpfselect_def select_resume_def select_read_def)
  obtain c' rs d2 where rd: "bpfread (bd_bufsize d1) ndelay d1 = Inr (Move c', d2)" "c' \<noteq> []" "length c' \<le> bd_bufsize d1"
    "bpf_records c' 0 = Inr rs" "pending d1 = rs @ pending d2" using ready_read [OF c(2) sel] by blast
  have "rs \<noteq> []" using rd(2,4) by (subst (asm) bpf_records.simps) (auto simp: res_simps split: if_splits)
  with rd(5) p have "rs = [snapshot pkt n d]" by (cases rs) auto
  with t sel rd st(4) assms(1) show ?thesis by (auto simp: dev_ok_def)
qed

text \<open>
  C19. The daemon on the device of the kernel. A reverse ARP request comes in on
  an interface whose descriptor has the daemon's filter, is in immediate mode, as \<open>rarp_open\<close>
  has set it up, and has nothing to read. Then the tap keeps the request, \<open>select\<close> reports the
  descriptor, the read gets it at once, and the loop of the daemon, with that result of its
  \<open>select\<close>, writes exactly the answer to the first 42 bytes of the frame, as \<open>rarp_answers\<close>
  describes it, and goes on.
\<close>

theorem rarp_end_to_end:
  assumes "dev_ok d" "bd_hbuf d = None" "bd_slen d = 0" "bd_filter d = Some rarp_insns" "bd_immediate d" "\<not> bd_closing d"
    "bd_bif d = Some h" "h + 42 \<le> bd_bufsize d" "tap_ok pkt" "bp_ok pkt" "revarp_request (bp_content pkt)"
    "rarp_serves env" "re_blen env" "rd_iflist s = [ii]" "length (ii_eaddr ii) = 6"
  shows "\<exists>d1 c d2 s'. bpf_tap_d pkt False tv d = Inr d1 \<and> bpfselect d1 = Some (1, d1) \<and>
    bpfread (bd_bufsize d) ndelay d1 = Inr (Move c, d2) \<and>
    rarp_loop env [Some [ii_fd ii \<mapsto> [Read_data c]]] s = Inr s' \<and>
    rd_written s' = rd_written s @ rarp_answer env ii (rd_scans s) (take 42 (bp_content pkt))"
proof -
  have "bpf_filter (bd_filter d) [] pkt (of_nat (bpfp_total_length pkt)) 0 = Inr 42"
    using assms(4,11) rarp_filter_run [OF assms(10)] by simp
  then obtain d1 c d2 where d: "bpf_tap_d pkt False tv d = Inr d1" "bpfselect d1 = Some (1, d1)"
    "bpfread (bd_bufsize d) ndelay d1 = Inr (Move c, d2)" "length c < 2 ^ 31" "bpf_records c 0 = Inr [snapshot pkt 42 d]"
    using tap_select_read [OF assms(1-3,5-7,9), of 42 tv ndelay] by auto
  have p: "snapshot pkt 42 d = take 42 (bp_content pkt)" using assms(7,8) by (simp add: snapshot_def)
  have l: "length (take 42 (bp_content pkt)) < 2 ^ 63" by (simp add: min_less_iff_disj)
  obtain s' where s': "rarp_frame env ii (take 42 (bp_content pkt)) s = Inr s'"
    "rd_written s' = rd_written s @ rarp_answer env ii (rd_scans s) (take 42 (bp_content pkt))"
    using rarp_frame_answer [OF assms(12) l] by blast
  have "rarp_loop env [Some [ii_fd ii \<mapsto> [Read_data c]]] s = Inr s'"
    using rarp_packets_records [OF d(5,4) _ assms(15) refl refl, of "length c" env s] s'(1) assms(13,14)
    by (simp add: rarp_loop_def rarp_pass_def rarp_ready_def p)
  with d s'(2) show ?thesis by blast
qed

definition ex_rarp_packet :: bpf_packet where
  "ex_rarp_packet = \<lparr>bpfp_header = [], bpfp_u = BPF_PACKET_TYPE_MBUF [take 14 ex_request, drop 14 ex_request], bpfp_total_length = 42\<rparr>"

definition ex_rarp_dev :: bpf_d where
  "ex_rarp_dev = ex_dev\<lparr>bd_filter := Some rarp_insns\<rparr>"

theorem rarp_filter_exact_witness:
  "bp_ok ex_rarp_packet \<and> revarp_request (bp_content ex_rarp_packet) \<and> bpf_filter (Some rarp_insns) [] ex_rarp_packet 42 0 = Inr 42"
proof -
  have 1: "bp_ok ex_rarp_packet" "revarp_request (bp_content ex_rarp_packet)" by code_simp+
  with rarp_filter_exact [OF 1(1), of "[]" 42] show ?thesis by simp
qed

theorem rarp_end_to_end_witness:
  "\<exists>d1 c d2 s'. bpf_tap_d ex_rarp_packet False (1, 2) ex_rarp_dev = Inr d1 \<and> bpfselect d1 = Some (1, d1) \<and>
    bpfread 64 False d1 = Inr (Move c, d2) \<and> rarp_loop ex_rarpenv [Some [5 \<mapsto> [Read_data c]]] ex_rarpd = Inr s' \<and>
    rd_written s' = [(5, ex_reply)]"
proof -
  have "bpf_validate 0x80000 rarp_insns" by code_simp
  then have 1: "dev_ok ex_rarp_dev" by (auto simp: dev_ok_def ex_rarp_dev_def ex_dev_def)
  have 2: "bp_ok ex_rarp_packet" "revarp_request (bp_content ex_rarp_packet)" "take 42 (bp_content ex_rarp_packet) = ex_request"
    by code_simp+
  have 3: "tap_ok ex_rarp_packet" by (simp add: tap_ok_def packet_ok_def chain_ok_def bp_content_def ex_rarp_packet_def ex_request_def)
  have 4: "bd_hbuf ex_rarp_dev = None" "bd_slen ex_rarp_dev = 0" "bd_filter ex_rarp_dev = Some rarp_insns" "bd_immediate ex_rarp_dev"
    "\<not> bd_closing ex_rarp_dev" "bd_bif ex_rarp_dev = Some 18" "18 + 42 \<le> bd_bufsize ex_rarp_dev" "bd_bufsize ex_rarp_dev = 64"
    by (simp_all add: ex_rarp_dev_def ex_dev_def)
  have b: "re_blen ex_rarpenv" by (simp add: ex_rarpenv_def)
  have 5: "rd_iflist ex_rarpd = [ex_ii]" "rd_scans ex_rarpd = 0" "rd_written ex_rarpd = []" "ii_fd ex_ii = 5" "length (ii_eaddr ex_ii) = 6"
    by (simp_all add: ex_rarpd_def ex_ii_def)
  show ?thesis
    using rarp_end_to_end [OF 1 4(1-7) 3 2(1,2) ex_serves b 5(1,5), of "(1, 2)" False] by (simp add: 2(3) 4(8) 5 ex_answer)
qed

section \<open>The interfaces\<close>

text \<open>
  The names in a well-formed buffer of \<open>SIOCGIFCONF\<close>, one for each address: a request has its 32
  bytes in the buffer, and its address at least the length and the family.
\<close>

function ifc_names :: "byte list \<Rightarrow> nat \<Rightarrow> nat \<Rightarrow> byte list list option" where
  "ifc_names buf len i =
     (if i < len then
        if i + 32 \<le> length buf \<and> 2 \<le> unat (buf ! (i + 16))
        then map_option (\<lambda>names. ifr_name (drop i buf) # names) (ifc_names buf len (i + (16 + unat (buf ! (i + 16)))))
        else None
      else Some [])"
  by pat_completeness auto
termination by (relation "measure (\<lambda>(buf, len, i). len - i)") auto

declare ifc_names.simps [simp del]

definition candidate :: "rarpenv \<Rightarrow> byte list \<Rightarrow> bool" where
  "candidate env name \<longleftrightarrow> (case re_flags env name of None \<Rightarrow> False | Some flags \<Rightarrow> flags AND 0x19 = 1)"

definition init_name :: "rarpenv \<Rightarrow> byte list \<Rightarrow> rarpd \<Rightarrow> rarpd result" where
  "init_name env name s =
     (if re_flags env name = None then Inl (Exit 1) else if candidate env name then init_one env name s else Inr s)"

lemma init_loop_names:
  assumes "ifc_names buf len i = Some names" "length buf' = length buf" "drop i buf' = drop i buf"
  shows "init_loop env buf' len i s = fold_r (init_name env) names s"
  using assms
proof (induction buf len i arbitrary: names buf' s rule: ifc_names.induct)
  case (1 buf len i)
  show ?case
  proof (cases "i < len")
    case True
    define l where "l = unat (buf ! (i + 16))"
    have w: "i + 32 \<le> length buf" "2 \<le> l"
      using "1.prems"(1) True by (subst (asm) ifc_names.simps, simp add: l_def split: if_splits)+
    then obtain names' where n: "names = ifr_name (drop i buf) # names'" "ifc_names buf len (i + (16 + l)) = Some names'"
      using "1.prems"(1) True by (subst (asm) ifc_names.simps) (auto simp: l_def)
    have nth: "buf' ! (i + 16) = buf ! (i + 16)"
      using "1.prems"(2,3) w(1) by (metis add_leD1 nth_drop)
    have 8: "ld8 buf' (i + 16) = Inr (buf ! (i + 16))"
      using "1.prems"(2) w(1) nth by (simp add: ld8_def bytes_at_def)
    have 32: "bytes_at buf' i 32 = Inr (take 32 (drop i buf))" using "1.prems"(2,3) w(1) by (simp add: bytes_at_def)
    have nm: "ifr_name (take 32 (drop i buf)) = ifr_name (drop i buf)" by (simp add: ifr_name_def min_def)
    have IH: "init_loop env (take (i + 16) buf' @ le16_bytes f @ drop (i + 18) buf') len (i + (16 + l)) = fold_r (init_name env) names'" for f
    proof (rule ext, rule "1.IH" [OF True, folded l_def, OF conjI [OF w] n(2)])
      show "length (take (i + 16) buf' @ le16_bytes f @ drop (i + 18) buf') = length buf"
        using "1.prems"(2) w(1) by (simp add: le16_bytes_def)
      have "drop (i + (16 + l)) buf' = drop (16 + l) (drop i buf')" by (simp add: ac_simps)
      also have "... = drop (i + (16 + l)) buf" unfolding "1.prems"(3) by (simp add: ac_simps)
      finally show "drop (i + (16 + l)) (take (i + 16) buf' @ le16_bytes f @ drop (i + 18) buf') = drop (i + (16 + l)) buf"
        using "1.prems"(2) w by (simp add: le16_bytes_def ac_simps)
    qed
    show ?thesis unfolding n(1)
      by (subst init_loop.simps) (simp add: True 8 32 nm l_def [symmetric] IH init_name_def candidate_def split: option.splits)
  next
    case False
    with "1.prems"(1) show ?thesis by (simp add: ifc_names.simps init_loop.simps)
  qed
qed

text \<open>The interface a name stands for, and the descriptors that \<open>open\<close> gives.\<close>

definition opened :: "rarpenv \<Rightarrow> byte list \<Rightarrow> if_info \<Rightarrow> bool" where
  "opened env name ii \<longleftrightarrow> re_dlt env name = Some DLT_EN10MB \<and> lookup_eaddr env name = Inr (ii_eaddr ii) \<and>
     lookup_ipaddr env name = Inr (ii_ipaddr ii, ii_netmask ii) \<and> length (ii_eaddr ii) = 6"

fun open_fds :: "bpf_try list \<Rightarrow> int list" where
  "open_fds [] = []"
| "open_fds (Opened fd # tries) = fd # open_fds tries"
| "open_fds (t # tries) = open_fds tries"

lemma bpf_open_fds: "bpf_open tries = Inr (fd, tries') \<Longrightarrow> open_fds tries = fd # open_fds tries'"
  by (induction tries rule: bpf_open.induct) auto

lemma find_eaddr_length: "find_eaddr name buf len i = Inr e \<Longrightarrow> length e = 6"
proof (induction name buf len i rule: find_eaddr.induct)
  case (1 name buf len i)
  show ?case using "1.prems" "1.IH"
    unfolding find_eaddr.simps [of name buf len i] by (auto simp: bind_r_Inr_iff bytes_at_def split: if_splits)
qed

lemma lookup_eaddr_length: "lookup_eaddr env name = Inr e \<Longrightarrow> length e = 6"
  by (auto simp: lookup_eaddr_def dest: find_eaddr_length split: if_splits option.splits)

lemma rarp_open_fds:
  assumes "rarp_open env name s = Inr (fd, s1)"
  shows "re_dlt env name = Some DLT_EN10MB \<and> rd_iflist s1 = rd_iflist s \<and> open_fds (rd_opens s) = fd # open_fds (rd_opens s1)"
proof -
  obtain fd' opens where b: "bpf_open (rd_opens s) = Inr (fd', opens)"
    using assms by (auto simp: rarp_open_def bind_r_Inr_iff)
  with assms show ?thesis using bpf_open_fds [OF b]
    by (cases "re_dlt env name") (auto simp: rarp_open_def split: if_splits)
qed

lemma init_one_opened:
  assumes "init_one env name s = Inr s'"
  shows "\<exists>ii. opened env name ii \<and> rd_iflist s' = ii # rd_iflist s \<and> open_fds (rd_opens s) = ii_fd ii # open_fds (rd_opens s')"
proof -
  obtain fd s1 eaddr addr m where o: "rarp_open env name s = Inr (fd, s1)" "lookup_eaddr env name = Inr eaddr"
    "lookup_ipaddr env name = Inr (addr, m)"
    "s' = s1\<lparr>rd_iflist := \<lparr>ii_fd = fd, ii_eaddr = eaddr, ii_ipaddr = addr, ii_netmask = m\<rparr> # rd_iflist s1\<rparr>"
    using assms by (auto simp: init_one_def res_simps)
  have "re_dlt env name = Some DLT_EN10MB \<and> rd_iflist s1 = rd_iflist s \<and> open_fds (rd_opens s) = fd # open_fds (rd_opens s1)"
    using rarp_open_fds [OF o(1)] .
  with o(2-4) lookup_eaddr_length [OF o(2)] show ?thesis
    by (intro exI [of _ "\<lparr>ii_fd = fd, ii_eaddr = eaddr, ii_ipaddr = addr, ii_netmask = m\<rparr>"]) (simp add: opened_def)
qed

lemma init_names_opened:
  assumes "fold_r (init_name env) names s = Inr s'"
  shows "\<exists>iis. rd_iflist s' = rev iis @ rd_iflist s \<and> list_all2 (opened env) (filter (candidate env) names) iis \<and>
    open_fds (rd_opens s) = map ii_fd iis @ open_fds (rd_opens s')"
  using assms
proof (induction names arbitrary: s)
  case (Cons name names)
  then obtain s1 where s1: "init_name env name s = Inr s1" "fold_r (init_name env) names s1 = Inr s'" by (auto simp: res_simps)
  obtain iis where iis: "rd_iflist s' = rev iis @ rd_iflist s1" "list_all2 (opened env) (filter (candidate env) names) iis"
    "open_fds (rd_opens s1) = map ii_fd iis @ open_fds (rd_opens s')"
    using Cons.IH [OF s1(2)] by blast
  show ?case
  proof (cases "candidate env name")
    case True
    with s1(1) have "init_one env name s = Inr s1" by (simp add: init_name_def split: if_splits)
    then obtain ii where "opened env name ii" "rd_iflist s1 = ii # rd_iflist s" "open_fds (rd_opens s) = ii_fd ii # open_fds (rd_opens s1)"
      using init_one_opened by blast
    with iis True show ?thesis by (intro exI [of _ "ii # iis"]) simp
  next
    case False
    with s1(1) iis show ?thesis by (auto simp: init_name_def split: if_splits)
  qed
qed simp

text \<open>
  C23. \<open>init_all\<close> walks a well-formed answer of \<open>SIOCGIFCONF\<close> from end to end, although
  it writes into it, and opens the candidates: the interface list gets one entry for every
  address of an interface that is up, neither loopback nor point-to-point, with the link
  address, the address and the mask of that interface and a descriptor of its own, the next
  one that \<open>open\<close> gives, as long as \<open>open\<close> does not give a descriptor twice. An interface with
  several addresses therefore has several descriptors, and a request on it is answered once
  for each.
\<close>

theorem init_all_addresses:
  assumes "re_ifconf env = Some (len, buf)" "ifc_names buf len 0 = Some names" "init_all env s = Inr s'"
    "distinct (open_fds (rd_opens s))"
  shows "\<exists>iis. rd_iflist s' = rev iis @ rd_iflist s \<and> list_all2 (opened env) (filter (candidate env) names) iis \<and>
    distinct (map ii_fd iis) \<and> open_fds (rd_opens s) = map ii_fd iis @ open_fds (rd_opens s')"
proof -
  have "fold_r (init_name env) names s = Inr s'"
    using assms(1,3) init_loop_names [OF assms(2), of buf env s] by (simp add: init_all_def split: if_splits)
  from init_names_opened [OF this] assms(4) show ?thesis by auto
qed

text \<open>An interface with a link address and an Internet address.\<close>

definition ex_ifconf :: "byte list" where
  "ex_ifconf = [101, 110, 48] @ replicate 13 0 @ [20, 18, 1, 0, 6, 3, 6, 0, 101, 110, 48, 2, 0, 0, 0, 0, 9, 0, 0, 0] @
     [101, 110, 48] @ replicate 13 0 @ [16, 2, 0, 0, 192, 168, 1, 1] @ replicate 8 0"

definition ex_initenv :: rarpenv where
  "ex_initenv = ex_rarpenv\<lparr>re_ifconf := Some (68, ex_ifconf)\<rparr>"

definition ex_start :: rarpd where
  "ex_start = ex_rarpd\<lparr>rd_iflist := []\<rparr>"

theorem init_all_addresses_witness:
  "\<exists>s' iis. init_all ex_initenv ex_start = Inr s' \<and> rd_iflist s' = rev iis \<and> length iis = 2 \<and> distinct (map ii_fd iis)"
proof -
  have 1: "re_ifconf ex_initenv = Some (68, ex_ifconf)" by (simp add: ex_initenv_def)
  have 2: "ifc_names ex_ifconf 68 0 = Some [[101, 110, 48], [101, 110, 48]]" by code_simp
  have 3: "init_all ex_initenv ex_start = Inr (ex_start\<lparr>rd_iflist := [ex_ii\<lparr>ii_fd := 6\<rparr>, ex_ii], rd_opens := []\<rparr>)" by code_simp
  have 4: "distinct (open_fds (rd_opens ex_start))" by code_simp
  have c: "candidate ex_initenv [101, 110, 48]" by code_simp
  from init_all_addresses [OF 1 2 3 4] obtain iis where
    i: "rd_iflist (ex_start\<lparr>rd_iflist := [ex_ii\<lparr>ii_fd := 6\<rparr>, ex_ii], rd_opens := []\<rparr>) = rev iis" "distinct (map ii_fd iis)"
    "list_all2 (opened ex_initenv) (filter (candidate ex_initenv) [[101, 110, 48], [101, 110, 48]]) iis"
    by (auto simp: ex_start_def)
  have "length iis = 2" using list_all2_lengthD [OF i(3)] c by simp
  with 3 i(1,2) show ?thesis by blast
qed

end
