(* ===== verification/Expiry.thy ===== *)
theory Expiry
  imports Safety
begin

text \<open>
  What the timers of the daemon achieve: an advertisement timer that expires sends an
  advertisement on its interface when that is up, the timer of a prefix removes the prefix.
  The callbacks are shown to satisfy the contract \<open>live_callbacks\<close> of the timer queue.
\<close>

section \<open>Effects of the callbacks\<close>

text \<open>Since the state \<open>s0\<close> a timer with this callback has done its work.\<close>

fun fired_since :: "rtadvd \<Rightarrow> expire_cb \<Rightarrow> rtadvd \<Rightarrow> bool" where
  "fired_since s0 (Ra_timeout r) s \<longleftrightarrow>
     (\<forall>i q. (r, i, q) \<in> set (rai_keys s) \<longrightarrow> if_up i (ifilist s) \<longrightarrow> (\<exists>b. (i, b) \<in> set (drop (length (sent s0)) (sent s))))"
| "fired_since s0 (Prefix_timeout k) s \<longleftrightarrow> k \<notin> pfx_id ` set (all_prefixes (ralist s))"

text \<open>The interface of an advertisement timer has no timer (any more).\<close>

fun ra_stopped :: "expire_cb \<Rightarrow> rtadvd \<Rightarrow> bool" where
  "ra_stopped (Ra_timeout r) s \<longleftrightarrow> (\<exists>i. (r, i, None) \<in> set (rai_keys s))"
| "ra_stopped (Prefix_timeout k) s \<longleftrightarrow> False"

definition since :: "rtadvd \<Rightarrow> rtadvd \<Rightarrow> bool" where
  "since s0 s \<longleftrightarrow> dinv s \<and> same_ifs s0 s \<and> take (length (sent s0)) (sent s) = sent s0"

text \<open>What a callback leaves, in terms of these.\<close>

definition progress :: "rtadvd \<Rightarrow> rtadvd \<Rightarrow> bool" where
  "progress s s' \<longleftrightarrow> dinv s' \<and> same_ifs s s' \<and> (\<exists>x. sent s' = sent s @ x) \<and>
     pfx_id ` set (all_prefixes (ralist s')) \<subseteq> pfx_id ` set (all_prefixes (ralist s))"

lemma since_length:
  assumes "since s0 s"
  shows "length (sent s0) \<le> length (sent s)"
proof -
  have "length (take (length (sent s0)) (sent s)) = length (sent s0)" using assms by (simp add: since_def)
  then show ?thesis by simp
qed

lemma progress_since:
  assumes "progress s s'" "since s0 s"
  shows "since s0 s'"
proof -
  obtain x where x: "sent s' = sent s @ x" and p: "dinv s'" "same_ifs s s'" using assms(1) unfolding progress_def by blast
  have "take (length (sent s0)) (sent s') = sent s0"
    using since_length [OF assms(2)] assms(2) by (simp add: x since_def)
  moreover have "same_ifs s0 s'" using assms(2) p(2) same_ifs_trans unfolding since_def by blast
  ultimately show ?thesis using p(1) by (simp add: since_def)
qed

lemma progress_fired:
  assumes "progress s s'" "since s0 s" "fired_since s0 e s"
  shows "fired_since s0 e s'"
proof (cases e)
  case (Ra_timeout r)
  obtain x where x: "sent s' = sent s @ x" and k: "rai_keys s' = rai_keys s" "ifilist s' = ifilist s"
    using assms(1) by (auto simp: progress_def same_ifs_def)
  show ?thesis using assms(3) since_length [OF assms(2)] unfolding Ra_timeout fired_since.simps k x by fastforce
next
  case (Prefix_timeout k)
  then show ?thesis using assms(1,3) unfolding progress_def Prefix_timeout fired_since.simps by blast
qed

lemma progress_stopped: "progress s s' \<Longrightarrow> ra_stopped e s \<Longrightarrow> ra_stopped e s'"
  by (cases e) (simp_all add: progress_def same_ifs_def)

lemma ra_timeout_progress:
  assumes inv: "dinv s" and at: "rai_at r s = Some rai" and out: "ra_timeout r s = Inr (alive, s')" and s0: "since s0 s"
  shows "progress s s' \<and> fired_since s0 (Ra_timeout r) s' \<and> (\<not> alive \<longrightarrow> ra_stopped (Ra_timeout r) s')"
proof -
  have ok: "rai \<in> set (ralist s)" "rai_id rai = r" "rainfo_wf rai"
    using rai_at_Some [OF inv, of r rai] rai_ok_wf [OF inv at] at by auto
  obtain s1 where s1: "ra_output r s = Inr s1" "dinv s1" and a: "s' = s1" "alive \<longleftrightarrow> rai_timer rai \<noteq> None"
    using ra_output_ok [OF inv at] out by (auto simp: ra_timeout_def)
  have same: "same_ifs s s'" using ra_output_ifs [OF inv at s1(1)] a(1) by simp
  then have keys: "rai_keys s' = rai_keys s" "ifilist s' = ifilist s" by (simp_all add: same_ifs_def)
  have key: "(r, ifindex rai, rai_timer rai) \<in> set (rai_keys s)" using ok(1,2) by (force simp: rai_key_def)
  have only: "i = ifindex rai" if "(r, i, q) \<in> set (rai_keys s)" for i q
    using key_at [OF inv that] at by simp
  have stop: "\<not> alive \<longrightarrow> ra_stopped (Ra_timeout r) s'" using key a(2) unfolding ra_stopped.simps keys by (metis (full_types))
  show ?thesis
  proof (cases "\<exists>ifm. get_interface_entry (ifindex rai) s = Some ifm \<and> ifm_flags ifm AND IFF_UP \<noteq> 0")
    case False
    then have "s1 = s" using s1(1) at by (auto simp: ra_output_def split: option.splits)
    moreover have "\<not> if_up (ifindex rai) (ifilist s)" using False by (simp add: if_up_def get_interface_entry_def)
    ultimately show ?thesis using stop a(1) inv only by (auto simp: progress_def)
  next
    case True
    then obtain b n where o: "s1 = rai_upd r (\<lambda>_. after_output (gtod s n) b rai)
        (s\<lparr>sent := sent s @ [(ifindex rai, b)], gtod_calls := Suc n\<rparr>)"
      using ra_output_eq [OF at ok(3)] s1(1) by auto
    have "set (all_prefixes (ralist s')) \<subseteq> set (all_prefixes (ralist s))"
      using ok(1) unfolding a(1) o by (auto simp: rai_upd_def split: if_splits)
    then have "pfx_id ` set (all_prefixes (ralist s')) \<subseteq> pfx_id ` set (all_prefixes (ralist s))" by (rule image_mono)
    moreover have sent: "sent s' = sent s @ [(ifindex rai, b)]" unfolding a(1) o by (simp add: rai_upd_def)
    moreover have "fired_since s0 (Ra_timeout r) s'"
      unfolding fired_since.simps keys sent using only since_length [OF s0] by fastforce
    ultimately show ?thesis using stop s1(2) a(1) same by (simp add: progress_def)
  qed
qed

lemma prefix_timeout_progress:
  assumes inv: "dinv s" and m: "rai \<in> set (ralist s)" "pp \<in> set (prefix_list rai)"
    and out: "prefix_timeout (pfx_id pp) s = Inr (alive, s')"
  shows "progress s s' \<and> fired_since s0 (Prefix_timeout (pfx_id pp)) s' \<and>
    (\<forall>p. pfx_timer pp = Some p \<longrightarrow> p \<notin> set (timer_ids s'))"
proof -
  let ?f = "drop_prefix (pfx_id pp)"
  have s': "s' = rai_upd (rai_id rai) ?f
      (s\<lparr>timer_list := filter (\<lambda>t. pfx_timer pp \<noteq> Some (tid t)) (timer_list s)\<rparr>)"
    using out delete_prefix_eq [OF inv m] by (simp add: prefix_timeout_def)
  have ras: "ralist s' = ralist (rai_upd (rai_id rai) ?f s)" unfolding s' by (simp add: rai_upd_def)
  have "all_prefixes (ralist s') = filter (\<lambda>q. pfx_id q \<noteq> pfx_id pp) (all_prefixes (ralist s))"
    unfolding ras
    using all_prefixes_upd [OF inv m, of ?f "filter (\<lambda>q. pfx_id q \<noteq> pfx_id pp)"]
    by (simp add: drop_prefix_def filter_concat filter_id_conv image_iff) metis
  then have "pfx_id ` set (all_prefixes (ralist s')) = pfx_id ` set (all_prefixes (ralist s)) - {pfx_id pp}" by auto
  moreover have "same_ifs s s'" using out delete_prefix_ifs by (auto simp: prefix_timeout_def res_simps)
  moreover have "dinv s'" unfolding s' by (rule dinv_delete [OF inv m])
  moreover have "sent s' = sent s" "\<forall>p. pfx_timer pp = Some p \<longrightarrow> p \<notin> set (timer_ids s')"
    unfolding s' by (auto simp: rai_upd_def)
  ultimately show ?thesis unfolding progress_def fired_since.simps by simp
qed

lemma expire_fn_progress:
  assumes s0: "since s0 s" and at: "timer_at p s = Some t" and out: "expire_fn (expire t) s = Inr (alive, s')"
  shows "progress s s' \<and> fired_since s0 (expire t) s' \<and>
    (\<not> alive \<longrightarrow> p \<notin> set (timer_ids s') \<or> ra_stopped (expire t) s')"
proof -
  have inv: "dinv s" using s0 by (simp add: since_def)
  have t: "tid t = p" "timer_ok (ralist s) t"
    using inv at timer_at_Some [of s p t] by (auto simp: dinv_def)
  show ?thesis
  proof (cases "expire t")
    case (Ra_timeout r)
    then obtain rai where "rai_at r s = Some rai" using t(2) rai_at_ex [of r s] by (auto simp: timer_ok_def)
    then show ?thesis using ra_timeout_progress [OF inv _ _ s0, of r rai alive s'] out unfolding Ra_timeout by simp
  next
    case (Prefix_timeout k)
    then obtain rai pp where m: "rai \<in> set (ralist s)" "pp \<in> set (prefix_list rai)"
      and k: "pfx_id pp = k" "pfx_timer pp = Some p"
      using t by (auto simp: timer_ok_def)
    then show ?thesis
      using prefix_timeout_progress [OF inv m, of alive s' s0] out unfolding Prefix_timeout by simp
  qed
qed

lemma update_fn_progress:
  assumes inv: "dinv s" and at: "timer_at p s = Some t" and u: "update t = Some u" and out: "update_fn u s = Inr (v, s')"
  shows "progress s s'"
proof -
  obtain r rai where r: "u = Ra_timer_update r" "rai_at r s = Some rai"
    using inv at u timer_at_Some [of s p t] rai_at_ex by (cases "expire t") (fastforce simp: dinv_def timer_ok_def)+
  then have "s' = s\<lparr>rand_calls := Suc (rand_calls s)\<rparr>" using ra_timer_update_ok [OF inv r(2)] out by auto
  then show ?thesis using inv by (simp add: progress_def)
qed

section \<open>The contract\<close>

lemma since_store:
  "since s0 s \<Longrightarrow> since s0 (s\<lparr>gtod_calls := n\<rparr>)" "since s0 s \<Longrightarrow> since s0 (s\<lparr>timer_head_tm := v\<rparr>)"
  "since s0 s \<Longrightarrow> tv_time v \<Longrightarrow> since s0 (set_tm p v s)"
  using dinv_set_tm [of s v p] by (simp_all add: since_def same_ifs_def set_tm_def)

lemma effects_store:
  "fired_since s0 e (s\<lparr>timer_head_tm := v\<rparr>) = fired_since s0 e s" "fired_since s0 e (set_tm p v s) = fired_since s0 e s"
  "ra_stopped e (s\<lparr>timer_head_tm := v\<rparr>) = ra_stopped e s" "ra_stopped e (set_tm p v s) = ra_stopped e s"
  by (cases e; simp add: set_tm_def)+

lemma since_refl: "dinv s \<Longrightarrow> since s s"
  by (simp add: since_def)

interpretation rtl: live_callbacks expire_fn update_fn "since s0" "fired_since s0" ra_stopped for s0
proof (unfold_locales, goal_cases)
  case (7 s p t)
  then have "dinv s" by (simp add: since_def)
  from expire_fn_ok [OF this 7(2)] show ?case using expire_fn_progress [OF 7] progress_since 7(1) by blast
next
  case (8 s p t u)
  then have "dinv s" by (simp add: since_def)
  from update_fn_ok [OF this 8(2,3)] show ?case using update_fn_progress [OF \<open>dinv s\<close> 8(2,3)] progress_since 8(1) by blast
next
  case (9 s p t s')
  then show ?case using expire_fn_progress by blast
next
  case (10 s p t alive s')
  then show ?case using expire_fn_progress by blast
next
  case (11 s p t alive s' e)
  then show ?case using expire_fn_progress progress_fired progress_stopped by blast
next
  case (12 s p t u v s' e)
  then have "dinv s" by (simp add: since_def)
  then show ?case using update_fn_progress 12 progress_fired progress_stopped by blast
qed (simp_all add: since_store effects_store, auto simp: since_def dinv_def timer_ok_def)

end
