(* ===== verification/Spec2Isabelle.thy ===== *)
theory Spec2Isabelle
  imports Formats Protocol Defaults Solicit Netboot Expiry
begin

text \<open>
  The two daemons of IPv6 router discovery, the router's \<open>rtadvd\<close> (\<open>src/rtadvd.tproj\<close>) and the
  host's \<open>rtsold\<close> (\<open>src/rtsol.tproj\<close>), and the reverse ARP daemon \<open>rarpd\<close> (\<open>src/rarpd.tproj\<close>)
  with the packet filter of the kernel that it runs on (\<open>src/bsd/net/bpf_filter.c\<close>, \<open>bpf.c\<close>),
  modelled function by function from the C sources.

  \<^bold>\<open>The program.\<close> \<open>rtadvd\<close> advertises an IPv6 router on a set of interfaces. \<open>main\<close> reads
  the interface list of the kernel (\<open>if.c\<close>), configures each interface given on the command
  line from a \<open>termcap\<close>-like file (\<open>config.c\<close> over \<open>advcap.c\<close>) and then loops: it runs the
  expired timers (\<open>timer.c\<close>), whose callbacks send advertisements and remove prefixes, and
  handles the messages of the routing socket (prefixes and interfaces that come and go) and
  the packets of the ICMPv6 socket: solicitations, advertisements of other routers and
  router renumbering commands (\<open>rrenum.c\<close>). \<open>rtsold\<close> sends solicitations on the interfaces
  of a host until a router answers: each interface (\<open>struct ifinfo\<close>) is a state machine
  driven by its timer (\<open>rtsold.c\<close>) and by the advertisements received (\<open>rtsol.c\<close>); on a mobile
  node the default routers are probed (\<open>probe.c\<close>). \<open>rarpd\<close> opens a packet filter descriptor for
  each interface, installs a filter program for reverse ARP requests and answers the requests
  of the hosts it can boot. In the kernel every packet of an interface is given to its
  descriptors (\<open>bpf_tap_imp\<close>): the filter machine decides how much of it is kept, and
  \<open>catchpacket\<close> appends it to one of two buffers, of which \<open>bpfread\<close> hands over the other.

  \<^bold>\<open>The model.\<close> A function that can stop the program returns a \<open>result\<close>: \<open>Inr\<close> the value or
  \<open>Inl\<close> the reason, an \<open>exit\<close> or an undefined behaviour such as an access out of bounds, a
  null dereference, a use after free, a division by zero or a bad shift; \<open>Diverge\<close> is a loop
  that does not end. The state of the daemon is the record \<open>rtadvd\<close>, which extends the
  record \<open>timers\<close> of the timer queue. Objects on the heap (timers, interfaces, prefixes) have
  an address, a number that is not used again, and pointers to them are addresses; a
  lookup of an address that is not linked any more is a use after free. Callbacks of timers
  are values of the types \<open>expire_cb\<close> and \<open>update_cb\<close>. What the kernel and the C library
  answer (the clock, \<open>random\<close>, \<open>sysctl\<close>, \<open>ioctl\<close>, \<open>inet_pton\<close>, \<open>getifaddrs\<close>) is a field of
  the state or of the environment \<open>cfgenv\<close>, with nothing assumed but what \<open>dinv\<close>, \<open>boot\<close> and
  \<open>env_ok\<close> name: times are not negative and normalised, random numbers are not negative, and
  addresses have sixteen bytes. \<open>rtsold\<close> and \<open>rarpd\<close> have records of their names for their state;
  a descriptor of the packet filter is the record \<open>bpf_d\<close>, a packet a record \<open>bpf_packet\<close> whose
  bytes lie in mbufs or in buflets. \<open>panic\<close> is a stop as well. Sent packets are collected in \<open>sent\<close>, renumbering
  requests to the kernel in \<open>renumreqs\<close>.

  \<^bold>\<open>The theories.\<close>
  \<^item> \<open>Prelude\<close>: results and their sequencing \<open>bind_r\<close>, the loop \<open>fold_r\<close>, the predicate
    \<open>safe_r\<close> (a value with a property or a stop of a given set), bytes and byte order.
  \<^item> \<open>Timers\<close> (\<open>timer.c\<close>): times and the timer queue. The locale \<open>timer_callbacks\<close> names what
    the queue needs of the callbacks; in it \<open>rtadvd_check_timer\<close> is shown to visit every
    timer once and to compute the right wait. It is interpreted on the daemon's callbacks
    in \<open>Daemon\<close> and again, for a stronger invariant, in \<open>Safety\<close>. Its extension
    \<open>live_callbacks\<close> adds what a callback achieves; in it every timer that is due is shown to
    have done its work when \<open>rtadvd_check_timer\<close> returns.
  \<^item> \<open>Addresses\<close>, \<open>Rainfo\<close>: addresses, prefixes and the record of an interface; comparison
    of prefixes is agreement on leading bits.
  \<^item> \<open>Tlv\<close>: a locale \<open>tlv_format\<close> for sequences of messages that begin with their length,
    interpreted for options (\<open>Ndopts\<close>), routing messages (\<open>Rtmsg\<close>) and prefix control
    operations (\<open>Rrenum\<close>).
  \<^item> \<open>Ndopts\<close>, \<open>Packet\<close>: the parser of options (\<open>nd6_options\<close>) and the writer of
    advertisements (\<open>make_packet\<close>, \<open>encode_domain\<close>).
  \<^item> \<open>Rtmsg\<close> (\<open>if.c\<close>): routing messages and the interface list, read from byte strings.
  \<^item> \<open>Daemon\<close>, \<open>Input\<close>: the state, its invariant \<open>dinv\<close>, advertisements and the life of
    prefixes (\<open>ra_output\<close>, \<open>ra_timeout\<close>, \<open>set_short_delay\<close>, \<open>add_prefix\<close>,
    \<open>invalidate_prefix\<close>), solicitations and received advertisements (\<open>rs_input\<close>, \<open>ra_input\<close>).
  \<^item> \<open>Rrenum\<close> (\<open>rrenum.c\<close>), \<open>Events\<close>: router renumbering, the handlers of the two sockets, one
    pass of the main loop (\<open>main_iter\<close>), the step relation \<open>daemon_step\<close> and \<open>reachable\<close>.
  \<^item> \<open>Safety\<close>, \<open>Mainloop\<close>: the invariant \<open>winv\<close> of the main loop and its preservation by every
    handler, for arbitrary input bytes.
  \<^item> \<open>Expiry\<close>: what the expired timers of the daemon achieve, as an interpretation of
    \<open>live_callbacks\<close>: advertisements sent (\<open>fired_since\<close>), prefixes removed, and which timers
    can stay overdue (\<open>ra_stopped\<close>).
  \<^item> \<open>Advcap\<close> (\<open>advcap.c\<close>), \<open>Config\<close> (\<open>config.c\<close>): capability entries and \<open>getconfig\<close>,
    \<open>main_init\<close>. \<open>Configured\<close> shows what a successful configuration establishes, \<open>Capdb\<close> what
    the lookups return on well-formed entries (the locale \<open>field_loop\<close>, interpreted for the
    three accessors), \<open>Defaults\<close> the configuration without a file.
  \<^item> \<open>Examples\<close>: a concrete daemon on which properties are instantiated.
  \<^item> \<open>Rtsold\<close>: the solicitation daemon, over the record \<open>rtsold\<close>; what the kernel answers is a
    field of it. \<open>Solicit\<close> has its properties: the timers, the limit on solicitations, that
    an interface sends its own packet only, and that the two daemons understand each other's packets.
  \<^item> \<open>Bpf\<close> (\<open>bpf_filter.c\<close>): the instructions, the loads from packets in pieces, \<open>bpf_filter\<close> and
    \<open>bpf_validate\<close>. \<open>Filtering\<close> shows that a validated program runs to a verdict inside its
    code, its memory and the packet, and, in the locale \<open>packet_reader\<close>, interpreted for mbufs
    and for buflets, that the verdict does not depend on how the packet is stored, unless the
    offset of an indirect load wraps.
  \<^item> \<open>Bpfdev\<close> (\<open>bpf.c\<close>): the descriptor, capture, reading, selecting, flushing and closing, where
    \<open>bpfread\<close>, \<open>bpfselect\<close> and \<open>bpfclose\<close> are cut at their sleeps. \<open>Capture\<close> has the invariants
    \<open>dev_ok\<close> and \<open>dev_inv\<close>, which these parts keep from every state and so under any
    interleaving (\<open>bpf_step\<close>, \<open>bpf_history\<close>), shows that the two buffers are a queue, and that a
    close that comes during a read does not end (\<open>close_read_stuck\<close>).
  \<^item> \<open>Rarpd\<close> (\<open>rarpd.c\<close>): the reverse ARP daemon; what the system answers is the record
    \<open>rarpenv\<close>. \<open>Netboot\<close> shows what its filter accepts, that it walks the buffers of the device
    record by record, which reply it sends, and, with the two together, that a request on
    the wire is answered.
  \<^item> \<open>Formats\<close>, \<open>Protocol\<close> and this theory: the properties of the formats, of the daemon's
    reactions, and of the daemon as a whole.

  \<^bold>\<open>Bounds.\<close> Loops over byte strings recurse on the bytes left. \<open>parse_iflist\<close> and \<open>do_rr\<close> can
  run forever; their models have fuel, the length of their input, which is enough since
  every pass that advances consumes a byte, and the properties that they do not return hold
  for any fuel. \<open>pco_loop\<close> has fuel 65536, the number of interface indices.
  \<open>if_nametosdl\<close> has the length of the list as fuel in the same way. A filter program has no
  backward jumps, so \<open>bpf_run\<close> recurses on the instructions left. \<open>rarp_packets\<close> has the number
  of bytes read as fuel; on the records the device writes each pass advances, and
  \<open>rarp_loop_records\<close> shows that it does not run out.

  \<^bold>\<open>Conventions.\<close> The machine is little-endian with 64-bit pointers; \<open>char\<close> is signed;
  \<open>malloc\<close> does not fail; the fields of a \<open>timeval\<close> are unbounded integers; statistics
  counters are natural numbers; \<open>soliciter\<close> keeps the address only, and its counter \<open>waiting\<close> is
  an unbounded integer. In \<open>get_prefix\<close> an entry of \<open>getifaddrs\<close> without an address counts as one of
  another family. Arguments of log
  messages are evaluated where that can fail (\<open>on_off\<close>), the messages are not modelled. The
  packet filter is the one of the kernel build, without extended headers; the lengths of
  its buffers are natural numbers, since the invariant keeps them below the size of a buffer.
  In \<open>rarpd\<close> an access behind the bytes of the last read counts as out of bounds.

  \<^bold>\<open>Not modelled.\<close> Of \<open>rtadvd\<close>: \<open>dump.c\<close> and the log output (formatted text only), the opening of
  sockets, the parsing of command line options, the pid file and the signal handlers (the
  flag \<open>do_die\<close> is an input of \<open>main_iter\<close>; the dump on \<open>SIGUSR1\<close> changes no state); the same
  parts of \<open>rtsold\<close>, and its code for systems with \<open>RTM_IFANNOUNCE\<close> or without \<open>getifaddrs\<close>; the
  options and the log of \<open>rarpd\<close>. Of the packet filter device: extended headers and \<open>pktap\<close>,
  writing, the attachment of descriptors to interfaces and the ioctls but \<open>BIOCSETF\<close> and \<open>BIOCFLUSH\<close>, which
  need the interface layer of the kernel. The other tools of the repository format what the
  kernel reports or send test traffic; they and the rest of the kernel sources under
  \<open>src/bsd\<close> are not modelled, except for the message layouts and constants that the modelled
  parts include.
\<close>

section \<open>The timer queue\<close>

text \<open>
  C3. In every state of the daemon that satisfies its invariant,
  \<open>rtadvd_check_timer\<close> returns: no callback uses a freed timer, prefix or interface, none
  exits. The invariant holds again and the interfaces are as before. Every timer that was due
  has done its work: an advertisement timer has sent an advertisement on its interface if that
  is up, the timer of a prefix has removed the prefix. Every timer that was not due is still
  linked, with the same deadline. The waiting time that is returned ends exactly at the deadline
  of some timer and passes the deadline of none; without a waiting time no deadline is before
  the largest time the queue can represent. Exempt from this are only advertisement timers whose
  interface points to no timer: their callback has the queue leave them as they are.
\<close>

theorem check_timer_sound:
  assumes "dinv s" and "now = gtod s (gtod_calls s)"
  shows "\<exists>r s'. rtadvd_check_timer expire_fn update_fn s = Inr (r, s') \<and> dinv s' \<and> same_ifs s s' \<and>
    (\<forall>t \<in> set (timer_list s). if tm t \<le> now then fired_since s (expire t) s' else t \<in> set (timer_list s')) \<and>
    (case r of
       None \<Rightarrow> \<forall>t \<in> set (timer_list s'). tm_max \<le> tm t \<or> ra_stopped (expire t) s'
     | Some d \<Rightarrow> tv_ok d \<and>
         (\<forall>t \<in> set (timer_list s'). usecs now + usecs d \<le> usecs (tm t) \<or> ra_stopped (expire t) s') \<and>
         (\<exists>t \<in> set (timer_list s'). usecs d = usecs (tm t) - usecs now))"
  using rtl.check_timer_live [OF since_refl [OF assms(1)], of now] assms(2) unfolding since_def by auto

theorem check_timer_sound_witness:
  "\<exists>r s' b. rtadvd_check_timer expire_fn update_fn ex_state = Inr (r, s') \<and> (4, b) \<in> set (sent s')"
proof -
  obtain r s' where r: "rtadvd_check_timer expire_fn update_fn ex_state = Inr (r, s')" and i: "same_ifs ex_state s'"
    and f: "\<forall>t \<in> set (timer_list ex_state).
      if tm t \<le> gtod ex_state 0 then fired_since ex_state (expire t) s' else t \<in> set (timer_list s')"
    using check_timer_sound [OF ex_dinv refl] by (auto simp: ex_state_def)
  have "fired_since ex_state (Ra_timeout 0) s'" using f by (simp add: ex_state_def)
  moreover have "rai_keys s' = [(0, 4, Some 0)]" "if_up 4 (ifilist s')"
    using i by (simp_all add: same_ifs_def ex_state_def rai_key_def ex_rai_def if_up_def)
  ultimately have "\<exists>b. (4, b) \<in> set (sent s')" unfolding fired_since.simps by (simp add: ex_state_def)
  with r show ?thesis by blast
qed

text \<open>
  C26. Although it walks a linked list that its callbacks change,
  \<open>rtadvd_check_timer\<close> visits exactly the timers that were linked when it was called, each
  once, in link order, and derives its result from the head time they leave.
\<close>

theorem check_timer_visits:
  assumes "dinv s" and "now = gtod s (gtod_calls s)"
  shows "rtadvd_check_timer expire_fn update_fn s =
    bind_r (visit_all expire_fn update_fn now (timer_ids s)
              ((snd (gettimeofday s))\<lparr>timer_head_tm := tm_max\<rparr>)) (\<lambda>s3.
      Inr (if tm_max = timer_head_tm s3 then None
           else if timer_head_tm s3 < now then Some (Timeval 0 0)
           else Some (TIMEVAL_SUB (timer_head_tm s3) now), s3))"
  using rt.check_timer_eq [OF assms(1), of now] assms(2) by simp

theorem check_timer_visits_witness:
  "\<exists>f. rtadvd_check_timer expire_fn update_fn ex_state =
    bind_r (visit_all expire_fn update_fn (Timeval 100 0) [1, 0]
              ((snd (gettimeofday ex_state))\<lparr>timer_head_tm := tm_max\<rparr>)) f"
  using check_timer_visits [OF ex_dinv, of "Timeval 100 0"] by (auto simp: ex_state_def)

text \<open>
  Once the clock has reached \<open>tm_max\<close>, 2^31-1 seconds after the epoch,
  \<open>rtadvd_check_timer\<close> returns null whatever timers are linked, so the main loop's
  \<open>select\<close> waits without a timeout and periodic advertisements stop.
\<close>

theorem check_timer_2038:
  assumes "dinv s" and "tm_max \<le> gtod s (gtod_calls s)"
  shows "\<exists>s'. rtadvd_check_timer expire_fn update_fn s = Inr (None, s')"
proof -
  obtain r s' where r: "rtadvd_check_timer expire_fn update_fn s = Inr (r, s')"
    and w: "rt.next_wait (gtod s (gtod_calls s)) s' r"
    using rt.check_timer_ok [OF assms(1), of "gtod s (gtod_calls s)"] by auto
  have "r = None"
    using w assms(2) by (cases r) (auto simp: rt.next_wait_def)
  with r show ?thesis by blast
qed

theorem check_timer_2038_witness:
  "\<exists>s'. rtadvd_check_timer expire_fn update_fn
     (ex_state\<lparr>gtod := \<lambda>n. Timeval (2147483648 + int n) 0\<rparr>) = Inr (None, s')"
proof (rule check_timer_2038)
  show "dinv (ex_state\<lparr>gtod := \<lambda>n. Timeval (2147483648 + int n) 0\<rparr>)"
    using ex_dinv by (simp add: dinv_def tv_time_def)
qed (simp add: ex_state_def tm_max_def less_eq_timeval_def TIMEVAL_LEQ_def del: TIMEVAL_LEQ_le)

section \<open>The main loop\<close>

text \<open>
  C1. One pass of the main loop, whatever signals, routing messages and packets
  arrive and whatever bytes they hold, keeps the invariant of the daemon. It can end the
  daemon only by \<open>exit\<close>, by a read outside the bytes of a message, by a missing address in a
  routing message or by a shift by a message type above 31; it never uses freed memory,
  divides by zero, overflows or loops.
\<close>

theorem main_pass_safe:
  assumes "winv s"
  shows "case main_iter ev s of
      Inl e \<Rightarrow> e \<in> {Exit 0, Exit 1, OutOfBounds, NullDeref, BadShift}
    | Inr s' \<Rightarrow> winv s'"
  using main_iter_safe [OF assms, of ev] by (auto simp: safe_r_def pass_stops_def parse_stops_def split: sum.splits)

lemma ex_started: "\<exists>s. main_init ex_env [''en0''] ex_boot = Inr s \<and> winv s"
  using ex_main_init main_init_started [OF ex_boot_ok ex_env_ok] started_winv by blast

theorem main_pass_safe_witness:
  "\<exists>s. main_init ex_env [''en0''] ex_boot = Inr s \<and>
    (case main_iter \<lparr>ev_die = False, ev_rtsock = None, ev_sock = None\<rparr> s of
       Inl e \<Rightarrow> e \<in> {Exit 0, Exit 1, OutOfBounds, NullDeref, BadShift} | Inr s' \<Rightarrow> winv s')"
  using ex_started main_pass_safe by blast

text \<open>
  C2. In every state the daemon reaches from its initialisation the data
  structures are consistent: timers, interfaces and prefixes are distinct objects, every
  timer refers to an interface or prefix that exists and every prefix and interface with a
  timer is referred to by it, every advertisement can be built, and the intervals keep
  their bounds.
\<close>

theorem daemon_invariant:
  assumes "boot s0" "env_ok env" "main_init env argv s0 = Inr s1" "reachable s1 s"
  shows "winv s"
  using reachable_winv [OF assms(4)] started_winv [OF main_init_started [OF assms(1-3)]] by blast

theorem daemon_invariant_witness:
  "\<exists>s1. main_init ex_env [''en0''] ex_boot = Inr s1 \<and> reachable s1 s1 \<and> winv s1"
  using ex_main_init daemon_invariant [OF ex_boot_ok ex_env_ok _ reachable.start] reachable.start by blast

text \<open>
  C8. On termination the daemon withdraws as a router: exactly one advertisement
  with lifetime zero is sent on every advertising interface that is up, in order.
\<close>

theorem die_withdraws:
  assumes "dinv s"
  shows "\<exists>s' bs. die_state s = Inr s' \<and> sent s' = sent s @ bs \<and>
    map fst bs = map ifindex (filter (\<lambda>rai. if_up (ifindex rai) (ifilist s)) (ralist s)) \<and>
    list_all (\<lambda>(i, b). rd16 (drop 6 b) = 0) bs"
  using die_state_ok [OF assms] unfolding list_all_iff .

theorem die_withdraws_witness:
  "\<exists>s' b. die_state ex_state = Inr s' \<and> sent s' = [(4, b)] \<and> rd16 (drop 6 b) = 0"
proof -
  have "map ifindex (filter (\<lambda>rai. if_up (ifindex rai) (ifilist ex_state)) (ralist ex_state)) = [4]" "sent ex_state = []"
    by (simp_all add: if_up_def ex_state_def ex_rai_def get_interface_entry_def)
  with die_withdraws [OF ex_dinv] show ?thesis by (auto simp: list_all_iff)
qed

section \<open>Configuration\<close>

text \<open>
  C5. Whatever the configuration file holds, an interface that \<open>getconfig\<close>
  accepts respects the bounds of RFC 4861: the intervals between advertisements, the router
  lifetime, the reachable time, the hop limit and the flags. It is put in front of the
  interfaces, with its timer running and its packet built.
\<close>

theorem getconfig_bounds:
  assumes "started s" "env_ok env" "getconfig env intface (hop, fwd, s) = Inr (hop', fwd', s')"
  shows "started s' \<and> (\<exists>rai. ralist s' = rai # ralist s \<and>
    4 \<le> uint (maxinterval rai) \<and> uint (maxinterval rai) \<le> 1800 \<and>
    3 \<le> uint (mininterval rai) \<and> 4 * uint (mininterval rai) \<le> 3 * uint (maxinterval rai) \<and>
    (lifetime rai = 0 \<or> uint (maxinterval rai) \<le> uint (lifetime rai) \<and> uint (lifetime rai) \<le> 9000) \<and>
    reachabletime rai \<le> 3600000 \<and> hoplimit rai \<le> 255 \<and>
    managedflg rai \<in> {0, 0x80} \<and> otherflg rai \<in> {0, 0x40} \<and> rtpref rai \<in> {0, 0x08, 0x18})"
  using getconfig_ok [OF assms] unfolding rfc_bounds_def by blast

text \<open>
  C31. Without a configuration file an interface that forwards and has no
  address yet is advertised with the defaults of RFC 4861: at most every 600 and at least
  every 200 seconds apart, with lifetime 1800 and hop limit 64, no flags and no options.
\<close>

theorem default_configuration:
  assumes "started s" "env_ok env" "conffile (advcap env) = None"
    "if_nametosdl (iflist_sysctl env) intface = Inr (Some d)" "forwarding_sysctl env = Some f" "0 < f"
    "getifaddrs env = Some ifap" "\<forall>ifa \<in> set ifap. ifa_inet6 ifa = None"
  shows "\<exists>s' rai. getconfig env intface (hop, -1, s) = Inr (hop, f, s') \<and> ralist s' = rai # ralist s \<and>
    default_vars rai \<and> rai_timer rai \<noteq> None"
  using getconfig_blank [OF assms] by blast

lemma ex_boot_started: "started ((rtadvd_timer_init ex_boot)\<lparr>ifilist := [], kiflist_calls := 1\<rparr>)"
  by (rule boot_started [OF ex_boot_ok])

theorem default_configuration_witness:
  "\<exists>s' rai. getconfig ex_env ''en0'' (0, -1, (rtadvd_timer_init ex_boot)\<lparr>ifilist := [], kiflist_calls := 1\<rparr>) = Inr (0, 1, s') \<and>
    ralist s' = [rai] \<and> default_vars rai"
proof -
  obtain d where d: "if_nametosdl (iflist_sysctl ex_env) ''en0'' = Inr (Some d)" using ex_nametosdl by force
  have conf: "conffile (advcap ex_env) = None" and env: "forwarding_sysctl ex_env = Some 1" "getifaddrs ex_env = Some []"
    and ras: "ralist ((rtadvd_timer_init ex_boot)\<lparr>ifilist := [], kiflist_calls := 1\<rparr>) = []"
    by (simp_all add: ex_env_def rtadvd_timer_init_def ex_boot_def)
  from default_configuration [OF ex_boot_started ex_env_ok conf d env(1) _ env(2), of 0] show ?thesis unfolding ras by fastforce
qed

theorem getconfig_bounds_witness:
  "\<exists>s' rai. getconfig ex_env ''en0'' (0, -1, (rtadvd_timer_init ex_boot)\<lparr>ifilist := [], kiflist_calls := 1\<rparr>) = Inr (0, 1, s') \<and>
    ralist s' = [rai] \<and> uint (maxinterval rai) \<le> 1800"
proof -
  obtain d where d: "if_nametosdl (iflist_sysctl ex_env) ''en0'' = Inr (Some d)" using ex_nametosdl by force
  have conf: "conffile (advcap ex_env) = None" and env: "forwarding_sysctl ex_env = Some 1" "getifaddrs ex_env = Some []"
    and ras: "ralist ((rtadvd_timer_init ex_boot)\<lparr>ifilist := [], kiflist_calls := 1\<rparr>) = []"
    by (simp_all add: ex_env_def rtadvd_timer_init_def ex_boot_def)
  from getconfig_blank [OF ex_boot_started ex_env_ok conf d env(1) _ env(2), of 0] obtain s' where
    s': "getconfig ex_env ''en0'' (0, -1, (rtadvd_timer_init ex_boot)\<lparr>ifilist := [], kiflist_calls := 1\<rparr>) = Inr (0, 1, s')"
    by fastforce
  from getconfig_bounds [OF ex_boot_started ex_env_ok s'] s' show ?thesis unfolding ras by blast
qed

text \<open>
  The default of \<open>mininterval\<close>, a third of \<open>maxinterval\<close>, is below the
  permitted minimum of three seconds for a \<open>maxinterval\<close> of four to eight seconds: such a
  configuration, though each value is permitted, ends the daemon.
\<close>

theorem interval_default_exits:
  assumes "agetnum e ''maxinterval'' = Inr m" "4 \<le> m" "m \<le> 8" "agetnum e ''mininterval'' = Inr (-1)"
  shows "config_intervals e rai = Inl (Exit 1)"
proof -
  have "m div 3 < 3" using assms(3) by linarith
  with assms show ?thesis by (simp add: config_intervals_def MAYHAVE_def)
qed

theorem interval_default_exits_witness:
  "config_intervals \<lparr>ent_buf = entry_buf ''en0'' [''maxinterval#8''] [], ent_live = True\<rparr> ex_rai = Inl (Exit 1)"
proof -
  have "agetnum \<lparr>ent_buf = entry_buf ''en0'' [''maxinterval#8''] [], ent_live = True\<rparr> ''maxinterval'' = Inr 8"
    "agetnum \<lparr>ent_buf = entry_buf ''en0'' [''maxinterval#8''] [], ent_live = True\<rparr> ''mininterval'' = Inr (-1)"
    by code_simp+
  from interval_default_exits [OF this(1) _ _ this(2)] show ?thesis by simp
qed

text \<open>
  An entry whose last capability is a continuation \<open>tc=\<close> of an entry that is
  not in the file leaves the parser's buffer pointer at a variable of a function that has
  returned: the first lookup that \<open>getconfig\<close> then makes reads it.
\<close>

theorem dangling_entry:
  assumes "conffile (advcap env) = Some cs" "getent_search intface cs (tbuf0 env) = Inr (Some tbuf)"
    "strlen tbuf 0 = Inr n" "last_colon tbuf (int n - 3) = Inr k"
    "chr_at tbuf (Suc k) = Inr (CHR ''t'')" "chr_at tbuf (Suc (Suc k)) = Inr (CHR ''c'')" "str_at tbuf (4 + k) = Inr src"
    "hop < MAXHOP" "get_forwarding env fwd = Inr fwd'"
    "getent_search (takeWhile (\<lambda>c. c \<noteq> CHR '':'') (take 15 src)) cs (tcjunk (advcap env) hop) = Inr None"
  shows "getconfig env intface (hop, fwd, s) = Inl UseAfterFree"
proof -
  have "tgetent (advcap env) (tbuf0 env) intface hop = Inr (0, tbuf, Suc hop, False)"
    using tnchktc_dangling [OF assms(3-8,1,10)] assms(1,2) by (simp add: tgetent_def getent.simps)
  with assms(9) show ?thesis
    by (simp add: getconfig_def config_entry_def config_rainfo_def config_iface_def agetflag_def)
qed

definition ex_dangling :: cfgenv where
  "ex_dangling = ex_env\<lparr>advcap := \<lparr>conffile = Some (''en0:tc=x:'' @ [CHR 0x0a]), tcjunk = (\<lambda>_. replicate BUFSIZ NUL), framedist = (\<lambda>_. 0)\<rparr>\<rparr>"

theorem dangling_entry_witness: "getconfig ex_dangling ''en0'' (0, -1, ex_state) = Inl UseAfterFree"
proof (rule dangling_entry)
  let ?tbuf = "''en0:tc=x:'' @ replicate 1015 NUL"
  show "conffile (advcap ex_dangling) = Some (''en0:tc=x:'' @ [CHR 0x0a])" by (simp add: ex_dangling_def)
  show "getent_search ''en0'' (''en0:tc=x:'' @ [CHR 0x0a]) (tbuf0 ex_dangling) = Inr (Some ?tbuf)" by code_simp
  show "strlen ?tbuf 0 = Inr 9" by code_simp
  show "last_colon ?tbuf (int 9 - 3) = Inr 3" by code_simp
  show "chr_at ?tbuf (Suc 3) = Inr (CHR ''t'')" "chr_at ?tbuf (Suc (Suc 3)) = Inr (CHR ''c'')" by code_simp+
  show "str_at ?tbuf (4 + 3) = Inr ''x:''" by code_simp
  show "get_forwarding ex_dangling (-1) = Inr 1" by code_simp
  show "getent_search (takeWhile (\<lambda>c. c \<noteq> CHR '':'') (take 15 ''x:'')) (''en0:tc=x:'' @ [CHR 0x0a])
      (tcjunk (advcap ex_dangling) 0) = Inr None" by code_simp
qed simp

end
